(* ===== verification/Prelude.thy ===== *)
theory Prelude
  imports Main "HOL-Library.Char_ord" "HOL-Library.List_Lexorder" "HOL-Library.Sublist"
begin

text \<open>
  Shared vocabulary of the development: the part of Go's \<^verbatim>\<open>strings\<close> package the gateway
  uses (\<open>Split\<close>, \<open>SplitN\<close>, \<open>Join\<close>, \<open>HasPrefix\<close>, \<open>TrimPrefix\<close>, \<open>ReplaceAll\<close>, \<open>EqualFold\<close>,
  \<open>LastIndex\<close>), Go maps as HOL maps together with the enumerations a \<^verbatim>\<open>range\<close> loop
  may produce, and the lemma collections the component theories draw on.

  A Go string is a byte sequence, so it is a HOL \<^typ>\<open>string\<close> whose characters are bytes; the
  order \<^verbatim>\<open><\<close> on Go strings is the bytewise lexicographic order, which is the order of
  \<open>List_Lexorder\<close> over \<open>Char_ord\<close>.
\<close>

named_theorems go_string \<open>facts on Go string operations\<close>
named_theorems keel_inv \<open>operations preserve the invariant of their component\<close>

subsection \<open>Splitting and joining\<close>

text \<open>\<^verbatim>\<open>strings.Split(s, sep)\<close> for a one-byte separator.\<close>

fun go_split :: "char \<Rightarrow> string \<Rightarrow> string list" where
  "go_split c [] = [[]]"
| "go_split c (x # xs) =
     (if x = c then [] # go_split c xs
      else (case go_split c xs of [] \<Rightarrow> [[x]] | p # ps \<Rightarrow> (x # p) # ps))"

text \<open>\<^verbatim>\<open>strings.Join(parts, sep)\<close> for a one-byte separator.\<close>

fun go_join :: "char \<Rightarrow> string list \<Rightarrow> string" where
  "go_join c [] = []"
| "go_join c [p] = p"
| "go_join c (p # q # ps) = p @ c # go_join c (q # ps)"

text \<open>\<^verbatim>\<open>strings.SplitN(s, sep, n)\<close> for a one-byte separator and \<open>n > 0\<close>: at most
  \<open>n\<close> parts, the last one unsplit.\<close>

fun go_splitn :: "char \<Rightarrow> nat \<Rightarrow> string \<Rightarrow> string list" where
  "go_splitn c 0 s = []"
| "go_splitn c (Suc 0) s = [s]"
| "go_splitn c (Suc (Suc n)) s =
     (case dropWhile (\<lambda>x. x \<noteq> c) s of
        [] \<Rightarrow> [s]
      | _ # rest \<Rightarrow> takeWhile (\<lambda>x. x \<noteq> c) s # go_splitn c (Suc n) rest)"

lemma go_split_not_Nil [simp]: "go_split c s \<noteq> []"
  by (cases s) (simp_all split: list.split)

lemma go_split_no_sep: "p \<in> set (go_split c s) \<Longrightarrow> c \<notin> set p"
proof (induction s arbitrary: p)
  case (Cons x xs)
  show ?case
  proof (cases "go_split c xs")
    case (Cons q qs)
    with Cons.prems Cons.IH show ?thesis by (cases "x = c") auto
  qed simp
qed simp

lemma go_join_Cons: "ps \<noteq> [] \<Longrightarrow> go_join c (p # ps) = p @ c # go_join c ps"
  by (cases ps) auto

lemma go_join_split [simp]: "go_join c (go_split c s) = s"
proof (induction s)
  case (Cons x xs)
  show ?case
  proof (cases "go_split c xs")
    case (Cons p ps)
    with Cons.IH show ?thesis by (cases ps) (auto simp: go_join_Cons)
  qed auto
qed simp

lemma go_split_free: "c \<notin> set s \<Longrightarrow> go_split c s = [s]"
  by (induction s) auto

lemma go_split_append_sep:
  "c \<notin> set p \<Longrightarrow> go_split c (p @ c # s) = p # go_split c s"
  by (induction p) auto

lemma go_split_join:
  "ps \<noteq> [] \<Longrightarrow> \<forall>p\<in>set ps. c \<notin> set p \<Longrightarrow> go_split c (go_join c ps) = ps"
  by (induction c ps rule: go_join.induct) (auto simp: go_split_free go_split_append_sep)

lemma go_split_inject [simp]: "go_split c s = go_split c t \<longleftrightarrow> s = t"
  by (metis go_join_split)

lemmas go_split_facts [go_string] =
  go_split_free go_split_append_sep go_split_join

lemma go_splitn_length: "n > 0 \<Longrightarrow> length (go_splitn c n s) \<le> n"
  by (induction c n s rule: go_splitn.induct) (auto split: list.splits)

lemma while_not_sep:
  assumes "c \<notin> set p"
  shows "takeWhile (\<lambda>x. x \<noteq> c) (p @ c # q) = p" "dropWhile (\<lambda>x. x \<noteq> c) (p @ c # q) = c # q"
  using assms by (induction p) auto

lemma go_splitn_3:
  "c \<notin> set p \<Longrightarrow> c \<notin> set q \<Longrightarrow> go_splitn c 3 (p @ c # q @ c # r) = [p, q, r]"
  by (simp add: numeral_3_eq_3 while_not_sep)

subsection \<open>Prefixes and replacement\<close>

text \<open>\<^verbatim>\<open>strings.HasPrefix(s, p)\<close>, \<^verbatim>\<open>strings.TrimPrefix(s, p)\<close> and \<^verbatim>\<open>strings.CutPrefix\<close>.\<close>

definition has_prefix :: "string \<Rightarrow> string \<Rightarrow> bool" where
  "has_prefix s p \<longleftrightarrow> take (length p) s = p"

definition trim_prefix :: "string \<Rightarrow> string \<Rightarrow> string" where
  "trim_prefix s p = (if has_prefix s p then drop (length p) s else s)"

definition has_suffix :: "string \<Rightarrow> string \<Rightarrow> bool" where
  "has_suffix s p \<longleftrightarrow> length p \<le> length s \<and> drop (length s - length p) s = p"

lemma has_prefix_append [simp]: "has_prefix (p @ s) p"
  by (simp add: has_prefix_def)

lemma has_prefix_iff: "has_prefix s p \<longleftrightarrow> (\<exists>r. s = p @ r)"
  by (metis append_take_drop_id has_prefix_append has_prefix_def)

lemma trim_prefix_append [simp]: "trim_prefix (p @ s) p = s"
  by (simp add: trim_prefix_def)

text \<open>\<^verbatim>\<open>strings.ReplaceAll(s, old, new)\<close> for a non-empty \<open>old\<close>.\<close>

fun replace_all :: "string \<Rightarrow> string \<Rightarrow> string \<Rightarrow> string" where
  "replace_all old new [] = []"
| "replace_all old new (x # xs) =
     (if old \<noteq> [] \<and> has_prefix (x # xs) old
      then new @ replace_all old new (drop (length old - 1) xs)
      else x # replace_all old new xs)"

lemma replace_all_absent:
  "hd old \<notin> set s \<Longrightarrow> replace_all old new s = s"
  by (induction old new s rule: replace_all.induct)
     (auto simp: has_prefix_def take_Cons' neq_Nil_conv)

text \<open>\<^verbatim>\<open>strings.EqualFold(s, t)\<close> where \<open>t\<close> is ASCII. Simple Unicode case folding relates an
  ASCII letter to its other case and, beyond ASCII, only \<^verbatim>\<open>s\<close> to U+017F (bytes C5 BF) and
  \<^verbatim>\<open>k\<close> to U+212A (bytes E2 84 AA).\<close>

definition ascii_lower :: "char \<Rightarrow> char" where
  "ascii_lower c =
     (case map_of (zip ''ABCDEFGHIJKLMNOPQRSTUVWXYZ'' ''abcdefghijklmnopqrstuvwxyz'') c of
        Some d \<Rightarrow> d | None \<Rightarrow> c)"

fun case_fold :: "string \<Rightarrow> string" where
  "case_fold [] = []"
| "case_fold (a # s) =
     (if a = CHR 0xC5 \<and> s \<noteq> [] \<and> hd s = CHR 0xBF then CHR ''s'' # case_fold (drop 1 s)
      else if a = CHR 0xE2 \<and> take 2 s = [CHR 0x84, CHR 0xAA] then CHR ''k'' # case_fold (drop 2 s)
      else ascii_lower a # case_fold s)"

definition equal_fold_ascii :: "string \<Rightarrow> string \<Rightarrow> bool" where
  "equal_fold_ascii s t \<longleftrightarrow> case_fold s = case_fold t"

text \<open>The part before and after the last occurrence of a byte, \<^verbatim>\<open>None\<close> when
  \<^verbatim>\<open>strings.LastIndex\<close> is negative.\<close>

fun cut_last :: "char \<Rightarrow> string \<Rightarrow> (string \<times> string) option" where
  "cut_last c [] = None"
| "cut_last c (x # xs) =
     (case cut_last c xs of
        Some (a, b) \<Rightarrow> Some (x # a, b)
      | None \<Rightarrow> if x = c then Some ([], xs) else None)"

text \<open>The part before and after the first occurrence of a byte: \<^verbatim>\<open>strings.Cut\<close>.\<close>

definition cut_first :: "char \<Rightarrow> string \<Rightarrow> (string \<times> string) option" where
  "cut_first c s =
     (case dropWhile (\<lambda>x. x \<noteq> c) s of [] \<Rightarrow> None | _ # r \<Rightarrow> Some (takeWhile (\<lambda>x. x \<noteq> c) s, r))"

lemma cut_last_None: "cut_last c s = None \<longleftrightarrow> c \<notin> set s"
  by (induction s) (auto split: option.splits)

lemma cut_last_SomeD: "cut_last c s = Some (a, b) \<Longrightarrow> s = a @ c # b \<and> c \<notin> set b"
proof (induction s arbitrary: a b)
  case (Cons x xs)
  show ?case
  proof (cases "cut_last c xs")
    case None
    with Cons.prems show ?thesis by (simp add: cut_last_None split: if_splits)
  next
    case (Some p)
    with Cons show ?thesis by (cases p) auto
  qed
qed simp

lemma cut_last_append [go_string]: "c \<notin> set b \<Longrightarrow> cut_last c (a @ c # b) = Some (a, b)"
proof (induction a)
  case Nil
  then have "cut_last c b = None" by (simp add: cut_last_None)
  then show ?case by simp
qed simp

lemma cut_first_append [go_string]: "c \<notin> set a \<Longrightarrow> cut_first c (a @ c # b) = Some (a, b)"
  by (simp add: cut_first_def while_not_sep)

lemma cut_first_SomeD:
  assumes "cut_first c s = Some (a, b)"
  shows "s = a @ c # b \<and> c \<notin> set a"
proof -
  from assms obtain y where d: "dropWhile (\<lambda>x. x \<noteq> c) s = y # b"
    and a: "a = takeWhile (\<lambda>x. x \<noteq> c) s"
    by (auto simp: cut_first_def split: list.splits)
  from d have "y = c" using hd_dropWhile[of "\<lambda>x. x \<noteq> c" s] by simp
  moreover have "s = a @ y # b" using takeWhile_dropWhile_id[of "\<lambda>x. x \<noteq> c" s] a d by simp
  moreover have "c \<notin> set a" using a by (auto dest: set_takeWhileD)
  ultimately show ?thesis by simp
qed

subsection \<open>Debouncing\<close>

text \<open>Several loops act on a condition only once it has held at every tick for longer than a threshold.
  They keep, for a key, the time of the tick at which the condition began. The locale is the contract
  of such a state: an entry survives a tick only while the condition holds at that tick, and a new
  entry carries the time of the tick that made it.\<close>

locale debounce =
  fixes since :: "'s \<Rightarrow> 'k \<Rightarrow> int option"
    and step :: "'t \<Rightarrow> 's \<Rightarrow> 's"
    and now :: "'t \<Rightarrow> int"
    and cond :: "'s \<Rightarrow> 't \<Rightarrow> 'k \<Rightarrow> bool"
  assumes since_step: "since (step t s) k = Some x \<Longrightarrow> cond s t k \<and> (since s k = Some x \<or> x = now t)"
    and cond_step: "cond (step t s) u k = cond s u k"
begin

lemma cond_run: "cond (fold step ts s) u k = cond s u k"
  by (induction ts arbitrary: s) (simp_all add: cond_step)

lemma since_run:
  assumes "since s k = None" "since (fold step ts s) k = Some x"
  shows "\<exists>pre t post. ts = pre @ t # post \<and> now t = x \<and> (\<forall>u\<in>set (t # post). cond s u k)"
  using assms(2)
proof (induction ts rule: rev_induct)
  case (snoc t ts)
  have "cond s t k" "since (fold step ts s) k = Some x \<or> x = now t"
    using since_step[of t "fold step ts s" k x] snoc.prems cond_run[of ts s t k] by auto
  moreover from this(2) show ?case
  proof
    assume "since (fold step ts s) k = Some x"
    from snoc.IH[OF this] obtain pre u post where
      "ts = pre @ u # post" "now u = x" "\<forall>v\<in>set (u # post). cond s v k" by blast
    with \<open>cond s t k\<close> show ?case by (intro exI[of _ pre] exI[of _ u] exI[of _ "post @ [t]"]) auto
  next
    assume "x = now t"
    with \<open>cond s t k\<close> show ?case by (intro exI[of _ ts] exI[of _ t] exI[of _ "[]"]) auto
  qed
qed (simp add: assms(1))

end

end
