(* ===== verification/Acl.thy ===== *)
theory Acl
  imports Prelude
begin

text \<open>
  The RBAC engine of \<^verbatim>\<open>internal/cluster/acl\<close>: topic matching (\<open>match.go\<close>), rules, roles and
  bindings (\<open>model.go\<close>), the evaluation function (\<open>evaluate.go\<close>) and the built-in ruleset
  (\<open>standard.go\<close>). The lemmas give a declarative reading of the matching loop, show that the
  decision depends only on the set of applicable rules (a deny wins, nothing applicable is a
  deny), and that the built-in ruleset grants a device only its own topics.
\<close>

subsection \<open>Topic matching\<close>

definition SharedFilter :: "string \<Rightarrow> (string \<times> string) option" where
  "SharedFilter filt =
     (case go_splitn CHR ''/'' 3 filt of
        [p0, p1, p2] \<Rightarrow>
          if \<not> equal_fold_ascii p0 ''$share'' \<or> p1 = '''' \<or> p2 = '''' then None
          else Some (p1, p2)
      | _ \<Rightarrow> None)"

text \<open>The loop of \<open>MatchTopic\<close> over the filter's segments; the index \<open>i\<close> of the source is the
  number of segments already removed from both lists.\<close>

fun match_segments :: "string list \<Rightarrow> string list \<Rightarrow> bool" where
  "match_segments [] ts = (ts = [])"
| "match_segments (f # fs) ts =
     (if f = ''#'' then fs = []
      else (case ts of
              [] \<Rightarrow> False
            | t # ts' \<Rightarrow>
                if f = ''+'' then match_segments fs ts'
                else if f \<noteq> t then False
                else match_segments fs ts'))"

definition dollar_guard :: "string list \<Rightarrow> string list \<Rightarrow> bool" where
  "dollar_guard fParts tParts \<longleftrightarrow>
     tParts \<noteq> [] \<and> has_prefix (hd tParts) ''$'' \<and>
     (fParts = [] \<or> (hd fParts \<noteq> hd tParts \<and> (hd fParts = ''#'' \<or> hd fParts = ''+'')))"

definition MatchTopic :: "string \<Rightarrow> string \<Rightarrow> bool" where
  "MatchTopic filt topic =
     (if filt = topic then True
      else
        let fParts = go_split CHR ''/'' filt; tParts = go_split CHR ''/'' topic in
        if dollar_guard fParts tParts then False
        else match_segments fParts tParts)"

definition segment_score :: "string \<Rightarrow> int" where
  "segment_score p = (if p = ''#'' then 1 else if p = ''+'' then 10 else 100)"

definition specificity :: "string \<Rightarrow> int" where
  "specificity filt = (\<Sum>p\<leftarrow>go_split CHR ''/'' filt. segment_score p)"

subsection \<open>Rules, roles, bindings\<close>

type_synonym Action = string
type_synonym Effect = string

definition ActionPublish :: Action where "ActionPublish = ''publish''"
definition ActionSubscribe :: Action where "ActionSubscribe = ''subscribe''"
definition EffectAllow :: Effect where "EffectAllow = ''allow''"
definition EffectDeny :: Effect where "EffectDeny = ''deny''"

lemmas acl_consts = ActionPublish_def ActionSubscribe_def EffectAllow_def EffectDeny_def

record ACLRule =
  TopicFilter :: string
  Actions :: "string list"
  RuleEffect :: Effect

record Role =
  RoleName :: string
  Rules :: "ACLRule list"

record Binding =
  Principal :: string
  BindingRole :: string

definition allowsAction :: "ACLRule \<Rightarrow> Action \<Rightarrow> bool" where
  "allowsAction r action = list_ex (\<lambda>a. a = action) (Actions r)"

definition resolvedFilter :: "ACLRule \<Rightarrow> string \<Rightarrow> string \<Rightarrow> string" where
  "resolvedFilter r clientID username =
     replace_all ''%u'' username (replace_all ''%c'' clientID (TopicFilter r))"

subsection \<open>Evaluation\<close>

record Decision =
  DecEffect :: Effect
  DecRule :: "ACLRule option"

definition Allowed :: "Decision \<Rightarrow> bool" where
  "Allowed d \<longleftrightarrow> DecEffect d = EffectAllow"

record eval_state =
  bestDeny :: "ACLRule option"
  bestAllow :: "ACLRule option"
  bestDenySpec :: int
  bestAllowSpec :: int

definition eval_init :: eval_state where
  "eval_init = \<lparr>bestDeny = None, bestAllow = None, bestDenySpec = -1, bestAllowSpec = -1\<rparr>"

definition consider_rule :: "string \<Rightarrow> string \<Rightarrow> string \<Rightarrow> Action \<Rightarrow> ACLRule \<Rightarrow> eval_state \<Rightarrow> eval_state" where
  "consider_rule clientID username topic action r st =
     (if \<not> allowsAction r action then st
      else if \<not> MatchTopic (resolvedFilter r clientID username) topic then st
      else
        let s = specificity (TopicFilter r) in
        if RuleEffect r = EffectDeny then
          (if s > bestDenySpec st then st\<lparr>bestDenySpec := s, bestDeny := Some r\<rparr> else st)
        else if RuleEffect r = EffectAllow then
          (if s > bestAllowSpec st then st\<lparr>bestAllowSpec := s, bestAllow := Some r\<rparr> else st)
        else st)"

definition Evaluate ::
  "string \<Rightarrow> string \<Rightarrow> string \<Rightarrow> Action \<Rightarrow> Role list \<Rightarrow> ACLRule list \<Rightarrow> Decision" where
  "Evaluate clientID username topic action enabledRulesets customRules =
     (let st = fold (\<lambda>role st. fold (consider_rule clientID username topic action) (Rules role) st)
                 enabledRulesets eval_init;
          st = fold (consider_rule clientID username topic action) customRules st in
      case bestDeny st of
        Some r \<Rightarrow> \<lparr>DecEffect = EffectDeny, DecRule = Some r\<rparr>
      | None \<Rightarrow>
          (case bestAllow st of
             Some r \<Rightarrow> \<lparr>DecEffect = EffectAllow, DecRule = Some r\<rparr>
           | None \<Rightarrow> \<lparr>DecEffect = EffectDeny, DecRule = None\<rparr>))"

subsection \<open>The built-in ruleset\<close>

definition allow_rule :: "string \<Rightarrow> Action \<Rightarrow> ACLRule" where
  "allow_rule filt action = \<lparr>TopicFilter = filt, Actions = [action], RuleEffect = EffectAllow\<rparr>"

definition keel_device_default :: Role where
  "keel_device_default =
     \<lparr>RoleName = ''keel-device-default'',
      Rules =
       [allow_rule ''telemetry/%c/#'' ''publish'',
        allow_rule ''event/%c/#'' ''publish'',
        allow_rule ''t'' ''publish'',
        allow_rule ''t/#'' ''publish'',
        allow_rule ''e'' ''publish'',
        allow_rule ''e/#'' ''publish'',
        allow_rule ''telemetry'' ''publish'',
        allow_rule ''event'' ''publish'',
        allow_rule ''status/heartbeat'' ''publish'',
        allow_rule ''status/ota'' ''publish'',
        allow_rule ''status/ca'' ''publish'',
        allow_rule ''cmd/%c'' ''subscribe'',
        allow_rule ''command/%c'' ''subscribe'',
        allow_rule ''command/%c/#'' ''subscribe'']\<rparr>"

definition StandardRulesets :: "string \<rightharpoonup> Role" where
  "StandardRulesets = [''keel-device-default'' \<mapsto> keel_device_default]"

subsection \<open>A declarative reading of the matching loop\<close>

definition level_match :: "string \<Rightarrow> string \<Rightarrow> bool" where
  "level_match f t \<longleftrightarrow> f = ''+'' \<or> f = t"

text \<open>A filter without \<open>#\<close> matches level by level; a filter \<open>gs/#\<close> matches every topic that
  extends a topic \<open>gs\<close> matches, the parent level included.\<close>

definition levels_match :: "string list \<Rightarrow> string list \<Rightarrow> bool" where
  "levels_match fs ts \<longleftrightarrow>
     (''#'' \<notin> set fs \<and> list_all2 level_match fs ts) \<or>
     (\<exists>gs. fs = gs @ [''#''] \<and> ''#'' \<notin> set gs \<and> length gs \<le> length ts \<and>
           list_all2 level_match gs (take (length gs) ts))"

lemma match_segments_iff: "match_segments fs ts \<longleftrightarrow> levels_match fs ts"
proof (induction fs ts rule: match_segments.induct)
  case (1 ts)
  then show ?case by (auto simp: levels_match_def)
next
  case (2 f fs ts)
  show ?case
  proof (cases "f = ''#''")
    case True
    then show ?thesis
      by (auto simp: levels_match_def Cons_eq_append_conv)
  next
    case False
    show ?thesis
    proof (cases ts)
      case Nil
      with False show ?thesis
        by (auto simp: levels_match_def Cons_eq_append_conv)
    next
      case (Cons t ts')
      have split: "levels_match (f # fs) (t # ts') \<longleftrightarrow> level_match f t \<and> levels_match fs ts'"
        using False unfolding levels_match_def Cons_eq_append_conv by auto
      show ?thesis
        using False Cons 2 by (auto simp: split level_match_def)
    qed
  qed
qed

lemma MatchTopic_iff:
  "MatchTopic filt topic \<longleftrightarrow>
     filt = topic \<or>
     (\<not> dollar_guard (go_split CHR ''/'' filt) (go_split CHR ''/'' topic) \<and>
      levels_match (go_split CHR ''/'' filt) (go_split CHR ''/'' topic))"
  by (simp add: MatchTopic_def Let_def match_segments_iff)

lemma MatchTopic_refl [simp]: "MatchTopic t t"
  by (simp add: MatchTopic_def)

lemma MatchTopic_literal:
  assumes "''+'' \<notin> set (go_split CHR ''/'' filt)" "''#'' \<notin> set (go_split CHR ''/'' filt)"
  shows "MatchTopic filt topic \<longleftrightarrow> filt = topic"
proof -
  have "list_all2 level_match fs ts \<longleftrightarrow> fs = ts" if "''+'' \<notin> set fs" for fs ts
    using that by (induction fs arbitrary: ts) (auto simp: list_all2_Cons1 level_match_def)
  with assms show ?thesis
    by (auto simp: MatchTopic_iff levels_match_def)
qed

subsection \<open>What an evaluation depends on\<close>

definition rule_applies :: "string \<Rightarrow> string \<Rightarrow> string \<Rightarrow> Action \<Rightarrow> ACLRule \<Rightarrow> bool" where
  "rule_applies clientID username topic action r \<longleftrightarrow>
     allowsAction r action \<and> MatchTopic (resolvedFilter r clientID username) topic"

definition rules_in_scope :: "Role list \<Rightarrow> ACLRule list \<Rightarrow> ACLRule list" where
  "rules_in_scope roles custom = concat (map Rules roles) @ custom"

definition best_of :: "(ACLRule \<Rightarrow> bool) \<Rightarrow> ACLRule list \<Rightarrow> ACLRule option \<Rightarrow> int \<Rightarrow> bool" where
  "best_of P rs b s \<longleftrightarrow>
     (case b of
        None \<Rightarrow> s = -1 \<and> (\<forall>r\<in>set rs. \<not> P r)
      | Some r \<Rightarrow> r \<in> set rs \<and> P r \<and> s = specificity (TopicFilter r) \<and>
                  (\<forall>r'\<in>set rs. P r' \<longrightarrow> specificity (TopicFilter r') \<le> s))"

lemma specificity_pos: "0 < specificity filt"
proof -
  have "0 < (\<Sum>p\<leftarrow>ps. segment_score p)" if "ps \<noteq> []" for ps
    using that
  proof (induction ps rule: list_nonempty_induct)
    case (single p)
    then show ?case by (simp add: segment_score_def)
  next
    case (cons p ps)
    then show ?case by (simp add: segment_score_def)
  qed
  then show ?thesis by (simp add: specificity_def)
qed

lemma best_of_skip: "best_of P rs b s \<Longrightarrow> \<not> P r \<Longrightarrow> best_of P (rs @ [r]) b s"
  by (auto simp: best_of_def split: option.splits)

lemma best_of_keep:
  "best_of P rs b s \<Longrightarrow> specificity (TopicFilter r) \<le> s \<Longrightarrow> best_of P (rs @ [r]) b s"
  using specificity_pos[of "TopicFilter r"]
  by (auto simp: best_of_def split: option.splits)

lemma best_of_take:
  "best_of P rs b s \<Longrightarrow> P r \<Longrightarrow> s < specificity (TopicFilter r) \<Longrightarrow>
   best_of P (rs @ [r]) (Some r) (specificity (TopicFilter r))"
  by (fastforce simp: best_of_def split: option.splits)

lemma effects_differ [simp]: "EffectAllow \<noteq> EffectDeny" "EffectDeny \<noteq> EffectAllow"
  by (simp_all add: acl_consts)

definition effect_applies ::
  "string \<Rightarrow> string \<Rightarrow> string \<Rightarrow> Action \<Rightarrow> Effect \<Rightarrow> ACLRule \<Rightarrow> bool" where
  "effect_applies c u topic action e r \<longleftrightarrow> rule_applies c u topic action r \<and> RuleEffect r = e"

definition eval_inv :: "string \<Rightarrow> string \<Rightarrow> string \<Rightarrow> Action \<Rightarrow> ACLRule list \<Rightarrow> eval_state \<Rightarrow> bool" where
  "eval_inv c u topic action rs st \<longleftrightarrow>
     best_of (effect_applies c u topic action EffectDeny) rs (bestDeny st) (bestDenySpec st) \<and>
     best_of (effect_applies c u topic action EffectAllow) rs (bestAllow st) (bestAllowSpec st)"

lemma eval_inv_consider:
  assumes "eval_inv c u topic action rs st"
  shows "eval_inv c u topic action (rs @ [r]) (consider_rule c u topic action r st)"
proof (cases "rule_applies c u topic action r")
  case False
  then have "consider_rule c u topic action r st = st"
    by (auto simp: consider_rule_def rule_applies_def)
  with False assms show ?thesis
    by (simp add: eval_inv_def best_of_skip effect_applies_def)
next
  case True
  then have "allowsAction r action" "MatchTopic (resolvedFilter r c u) topic"
    by (simp_all add: rule_applies_def)
  with True assms show ?thesis
    by (auto simp: eval_inv_def consider_rule_def Let_def best_of_skip best_of_keep best_of_take
        effect_applies_def not_less)
qed

lemma eval_inv_fold:
  "eval_inv c u topic action rs0 st \<Longrightarrow>
   eval_inv c u topic action (rs0 @ rs) (fold (consider_rule c u topic action) rs st)"
proof (induction rs arbitrary: rs0 st)
  case (Cons r rs)
  from Cons.IH[OF eval_inv_consider[OF Cons.prems, of r]] show ?case by simp
qed simp

definition eval_final :: "string \<Rightarrow> string \<Rightarrow> string \<Rightarrow> Action \<Rightarrow> Role list \<Rightarrow> ACLRule list \<Rightarrow> eval_state" where
  "eval_final c u topic action roles custom =
     fold (consider_rule c u topic action) (rules_in_scope roles custom) eval_init"

lemma fold_roles:
  "fold (\<lambda>role st. fold f (Rules role) st) roles st = fold f (concat (map Rules roles)) st"
  by (induction roles arbitrary: st) auto

lemma eval_inv_final:
  "eval_inv c u topic action (rules_in_scope roles custom) (eval_final c u topic action roles custom)"
  unfolding eval_final_def
  by (rule eval_inv_fold[of c u topic action "[]", simplified])
     (simp add: eval_inv_def eval_init_def best_of_def)

lemma Evaluate_final:
  "Evaluate c u topic action roles custom =
     (let st = eval_final c u topic action roles custom in
      case bestDeny st of
        Some r \<Rightarrow> \<lparr>DecEffect = EffectDeny, DecRule = Some r\<rparr>
      | None \<Rightarrow> (case bestAllow st of
                   Some r \<Rightarrow> \<lparr>DecEffect = EffectAllow, DecRule = Some r\<rparr>
                 | None \<Rightarrow> \<lparr>DecEffect = EffectDeny, DecRule = None\<rparr>))"
  by (simp add: Evaluate_def eval_final_def rules_in_scope_def fold_roles Let_def)

lemma best_of_None: "best_of P rs None s \<Longrightarrow> r \<in> set rs \<Longrightarrow> \<not> P r"
  by (simp add: best_of_def)

lemma best_of_Some:
  "best_of P rs (Some r) s \<Longrightarrow>
   r \<in> set rs \<and> P r \<and> (\<forall>r'\<in>set rs. P r' \<longrightarrow> specificity (TopicFilter r') \<le> specificity (TopicFilter r))"
  by (auto simp: best_of_def)

lemma Evaluate_cases:
  fixes c u topic action roles custom
  defines "rs \<equiv> rules_in_scope roles custom"
  obtains (deny) r where "Evaluate c u topic action roles custom = \<lparr>DecEffect = EffectDeny, DecRule = Some r\<rparr>"
      "best_of (effect_applies c u topic action EffectDeny) rs (Some r) (specificity (TopicFilter r))"
  | (allow) r where "Evaluate c u topic action roles custom = \<lparr>DecEffect = EffectAllow, DecRule = Some r\<rparr>"
      "best_of (effect_applies c u topic action EffectAllow) rs (Some r) (specificity (TopicFilter r))"
      "\<forall>r\<in>set rs. \<not> effect_applies c u topic action EffectDeny r"
  | (none) "Evaluate c u topic action roles custom = \<lparr>DecEffect = EffectDeny, DecRule = None\<rparr>"
      "\<forall>r\<in>set rs. \<not> effect_applies c u topic action EffectDeny r"
      "\<forall>r\<in>set rs. \<not> effect_applies c u topic action EffectAllow r"
proof -
  note inv = eval_inv_final[of c u topic action roles custom, folded rs_def, unfolded eval_inv_def]
  show thesis
  proof (cases "bestDeny (eval_final c u topic action roles custom)")
    case (Some r)
    with inv deny[of r] show ?thesis by (auto simp: Evaluate_final Let_def best_of_def)
  next
    case D: None
    show ?thesis
    proof (cases "bestAllow (eval_final c u topic action roles custom)")
      case (Some r)
      with inv D allow[of r] show ?thesis by (auto simp: Evaluate_final Let_def best_of_def)
    next
      case None
      with inv D none show ?thesis by (auto simp: Evaluate_final Let_def best_of_def)
    qed
  qed
qed

lemma Allowed_Evaluate:
  "Allowed (Evaluate c u topic action roles custom) \<longleftrightarrow>
     (\<exists>r\<in>set (rules_in_scope roles custom). effect_applies c u topic action EffectAllow r) \<and>
     (\<forall>r\<in>set (rules_in_scope roles custom). \<not> effect_applies c u topic action EffectDeny r)"
  by (rule Evaluate_cases[of c u topic action roles custom])
     (auto simp: Allowed_def best_of_def)

subsection \<open>The built-in ruleset confines a device to its own topics\<close>

definition plain_level :: "string \<Rightarrow> bool" where
  "plain_level c \<longleftrightarrow> c \<noteq> ''+'' \<and> c \<noteq> ''#'' \<and> CHR ''/'' \<notin> set c \<and> CHR ''%'' \<notin> set c"

lemma resolved_allow_rule:
  "resolvedFilter (allow_rule f a) c u = replace_all ''%u'' u (replace_all ''%c'' c f)"
  by (simp add: resolvedFilter_def allow_rule_def)

lemma replace_device_filter:
  assumes "CHR ''%'' \<notin> set p" "CHR ''%'' \<notin> set q" "CHR ''%'' \<notin> set c"
  shows "replace_all ''%u'' u (replace_all ''%c'' c (p @ ''%c'' @ q)) = p @ c @ q"
proof -
  have "replace_all ''%c'' c (p @ ''%c'' @ q) = p @ c @ replace_all ''%c'' c q"
    using assms(1) by (induction p) (auto simp: has_prefix_def)
  moreover have "replace_all ''%c'' c q = q" using assms(2) by (simp add: replace_all_absent)
  ultimately show ?thesis using assms by (simp add: replace_all_absent)
qed

lemma replace_fixed_filter:
  "CHR ''%'' \<notin> set p \<Longrightarrow> replace_all ''%u'' u (replace_all ''%c'' c p) = p"
  by (simp add: replace_all_absent)

lemma match_device_subtree:
  assumes "plain_level c" "CHR ''/'' \<notin> set p" "p \<noteq> ''+''" "p \<noteq> ''#''"
    and "MatchTopic (p @ ''/'' @ c @ ''/#'') topic"
  shows "\<exists>rest. go_split CHR ''/'' topic = p # c # rest"
proof -
  have f: "go_split CHR ''/'' (p @ ''/'' @ c @ ''/#'') = [p, c, ''#'']"
    using assms(1,2) by (simp add: go_split_append_sep plain_level_def)
  show ?thesis
  proof (cases "topic = p @ ''/'' @ c @ ''/#''")
    case True
    with f show ?thesis by simp
  next
    case False
    with assms(5) f have "match_segments [p, c, ''#''] (go_split CHR ''/'' topic)"
      by (simp add: MatchTopic_def Let_def del: match_segments.simps split: if_splits)
    with assms show ?thesis
      by (auto simp: plain_level_def split: list.splits if_splits)
  qed
qed

definition short_aliases :: "string list" where
  "short_aliases = [''t'', ''t/#'', ''e'', ''e/#'', ''telemetry'', ''event'', ''status/heartbeat'',
     ''status/ota'', ''status/ca'']"

lemma default_publish_rules:
  assumes "r \<in> set (Rules keel_device_default)" "allowsAction r ActionPublish"
  shows "r = allow_rule ''telemetry/%c/#'' ''publish'' \<or> r = allow_rule ''event/%c/#'' ''publish'' \<or>
         (\<exists>f\<in>set short_aliases. r = allow_rule f ''publish'')"
proof -
  have "\<not> allowsAction (allow_rule f ''subscribe'') ActionPublish" for f
    by (simp add: allowsAction_def allow_rule_def acl_consts)
  then show ?thesis using assms by (auto simp: keel_device_default_def short_aliases_def)
qed

lemma short_alias_fixed: "f \<in> set short_aliases \<Longrightarrow> CHR ''%'' \<notin> set f"
  by (auto simp: short_aliases_def)

lemma default_publish_filters:
  assumes "r \<in> set (Rules keel_device_default)" "allowsAction r ActionPublish" "CHR ''%'' \<notin> set c"
  shows "resolvedFilter r c u = ''telemetry/'' @ c @ ''/#'' \<or> resolvedFilter r c u = ''event/'' @ c @ ''/#'' \<or>
         resolvedFilter r c u \<in> set short_aliases"
proof -
  have dev: "resolvedFilter (allow_rule ''telemetry/%c/#'' a) c u = ''telemetry/'' @ c @ ''/#''"
    "resolvedFilter (allow_rule ''event/%c/#'' a) c u = ''event/'' @ c @ ''/#''" for a
    using replace_device_filter[of "''telemetry/''" "''/#''" c u]
      replace_device_filter[of "''event/''" "''/#''" c u] assms(3)
    by (simp_all add: resolved_allow_rule)
  from default_publish_rules[OF assms(1,2)] show ?thesis
  proof (elim disjE bexE)
    fix f assume "f \<in> set short_aliases" "r = allow_rule f ''publish''"
    then show ?thesis
      using short_alias_fixed by (metis resolved_allow_rule replace_fixed_filter)
  qed (use dev in simp_all)
qed

lemma alias_segments:
  "f \<in> set short_aliases \<Longrightarrow>
   match_segments (go_split CHR ''/'' f) (k # x # rest) \<Longrightarrow> k \<in> {''t'', ''e'', ''status''}"
  unfolding short_aliases_def set_simps insert_iff empty_iff
  by (elim disjE) (simp_all split: if_splits)

lemma alias_levels:
  "f \<in> set short_aliases \<Longrightarrow> go_split CHR ''/'' f = k # x # rest \<Longrightarrow> k \<in> {''t'', ''e'', ''status''}"
  unfolding short_aliases_def set_simps insert_iff empty_iff
  by (elim disjE) simp_all

lemma short_alias_match:
  assumes "MatchTopic f topic" "f \<in> set short_aliases" "go_split CHR ''/'' topic = k # x # rest"
  shows "k \<in> {''t'', ''e'', ''status''}"
proof (cases "f = topic")
  case True
  with assms alias_levels show ?thesis by blast
next
  case False
  with assms have "match_segments (go_split CHR ''/'' f) (k # x # rest)"
    by (auto simp: MatchTopic_def Let_def simp del: match_segments.simps split: if_splits)
  with assms(2) alias_segments show ?thesis by blast
qed

subsection \<open>Properties\<close>

text \<open>C6. An access is allowed exactly when some applicable rule in scope (the enabled rulesets
  and the principal's custom rules) allows it and no applicable rule denies it: any matching deny
  wins whatever its specificity or position, and no matching rule is a deny.\<close>

theorem Evaluate_deny_wins_fail_closed:
  "Allowed (Evaluate clientID username topic action rulesets custom) \<longleftrightarrow>
     (\<exists>r\<in>set (rules_in_scope rulesets custom).
        rule_applies clientID username topic action r \<and> RuleEffect r = EffectAllow) \<and>
     \<not> (\<exists>r\<in>set (rules_in_scope rulesets custom).
        rule_applies clientID username topic action r \<and> RuleEffect r = EffectDeny)"
  unfolding Allowed_Evaluate effect_applies_def by blast

text \<open>The rule a decision reports explains it: the decision carries no rule exactly when no
  allow or deny rule in scope applies, and a reported rule is in scope, applies, has the decision's
  effect, and is among the most specific applicable rules of that effect.\<close>

theorem Evaluate_explained:
  fixes clientID username topic action rulesets custom
  defines "d \<equiv> Evaluate clientID username topic action rulesets custom"
  defines "rs \<equiv> rules_in_scope rulesets custom"
  shows "case DecRule d of
      None \<Rightarrow> \<not> (\<exists>r\<in>set rs. rule_applies clientID username topic action r \<and>
                          RuleEffect r \<in> {EffectAllow, EffectDeny})
    | Some r \<Rightarrow> r \<in> set rs \<and> rule_applies clientID username topic action r \<and>
        RuleEffect r = DecEffect d \<and>
        \<not> (\<exists>r'\<in>set rs. rule_applies clientID username topic action r' \<and>
             RuleEffect r' = DecEffect d \<and>
             specificity (TopicFilter r) < specificity (TopicFilter r'))"
  unfolding d_def rs_def
  by (rule Evaluate_cases[of clientID username topic action rulesets custom])
     (auto simp: effect_applies_def dest!: best_of_Some)

text \<open>C27. Topic matching computes the MQTT rules: equal strings match; otherwise a top-level
  wildcard never matches a \<open>$\<close>-topic, a filter without \<open>#\<close> matches level by level with \<open>+\<close> standing
  for one level, and a filter ending in its only \<open>#\<close> matches the parent level and everything below.\<close>

theorem MatchTopic_spec:
  "MatchTopic filt topic \<longleftrightarrow>
     filt = topic \<or>
     (\<not> dollar_guard (go_split CHR ''/'' filt) (go_split CHR ''/'' topic) \<and>
      levels_match (go_split CHR ''/'' filt) (go_split CHR ''/'' topic))"
  by (rule MatchTopic_iff)

text \<open>With only the built-in device ruleset in force, a client whose identifier is one plain
  topic level can publish under \<open>telemetry/x\<close> or \<open>event/x\<close> only for \<open>x\<close> its own identifier.\<close>

theorem device_default_own_topics:
  assumes "plain_level clientID"
    and "Allowed (Evaluate clientID username topic ActionPublish [keel_device_default] [])"
    and "go_split CHR ''/'' topic = kind # x # rest"
    and "kind = ''telemetry'' \<or> kind = ''event''"
  shows "x = clientID"
proof -
  obtain r where r: "r \<in> set (Rules keel_device_default)" "allowsAction r ActionPublish"
    and m: "MatchTopic (resolvedFilter r clientID username) topic"
    using assms(2) by (auto simp: Allowed_Evaluate rules_in_scope_def effect_applies_def rule_applies_def)
  have pc: "CHR ''%'' \<notin> set clientID" using assms(1) by (simp add: plain_level_def)
  from default_publish_filters[OF r pc, of username] show ?thesis
  proof (elim disjE)
    assume "resolvedFilter r clientID username = ''telemetry/'' @ clientID @ ''/#''"
    with m assms(1,3) match_device_subtree[of clientID "''telemetry''" topic] show ?thesis by auto
  next
    assume "resolvedFilter r clientID username = ''event/'' @ clientID @ ''/#''"
    with m assms(1,3) match_device_subtree[of clientID "''event''" topic] show ?thesis by auto
  next
    assume "resolvedFilter r clientID username \<in> set short_aliases"
    then have "kind \<in> {''t'', ''e'', ''status''}" using m assms(3) short_alias_match by blast
    with assms(4) show ?thesis by auto
  qed
qed

theorem device_default_own_topics_witness:
  "Allowed (Evaluate ''d1'' ''u'' ''telemetry/d1/temp'' ActionPublish [keel_device_default] []) \<and>
   hd (tl (go_split CHR ''/'' ''telemetry/d1/temp'')) = ''d1''"
proof -
  have a: "Allowed (Evaluate ''d1'' ''u'' ''telemetry/d1/temp'' ActionPublish [keel_device_default] [])"
    by code_simp
  moreover have "plain_level ''d1''" by code_simp
  moreover have "go_split CHR ''/'' ''telemetry/d1/temp'' = ''telemetry'' # ''d1'' # [''temp'']" by code_simp
  ultimately show ?thesis
    using device_default_own_topics[of "''d1''" "''u''" "''telemetry/d1/temp''" "''telemetry''" "''d1''" "[''temp'']"]
    by simp
qed

text \<open>Placeholders are substituted before matching and identifiers are not escaped: a client
  whose identifier is the wildcard \<open>+\<close> is allowed to publish on another device's telemetry topic by
  the built-in ruleset.\<close>

theorem device_default_wildcard_client:
  "Allowed (Evaluate ''+'' ''u'' ''telemetry/other/temp'' ActionPublish [keel_device_default] [])"
  by code_simp

end
