(* ===== verification/Fsm.thy ===== *)
theory Fsm
  imports Acl
begin

text \<open>
  The replicated state machine of \<^verbatim>\<open>internal/cluster/raft\<close>: the commands (\<open>command.go\<close>) and
  the FSM (\<open>fsm.go\<close>) that holds session ownership, ACL state, the designated Redis primary and
  the revoked certificates. \<open>Apply\<close> is one step; a run of the machine is a sequence of applied
  log entries and snapshot restores. A \<^verbatim>\<open>range\<close> over a Go map visits the keys in an arbitrary
  order, so a read that does so takes the order as an argument.

  The lemmas show the state invariant of every reachable state, who owns a session, that
  revocations are never forgotten, that a deleted role leaves no binding behind, that replicas
  applying the same log differ in timestamps only, and that a restored snapshot is the state it
  was taken from. The locale \<open>acl_store\<close> is the contract between a store of roles, bindings and
  rulesets and the access checks made on it; the FSM is its first instance.
\<close>

subsection \<open>Commands\<close>

record Command =
  cmdOp :: string
  cmdNodeID :: string
  cmdClientID :: string
  cmdRoleName :: string
  cmdRules :: "ACLRule list"
  cmdPrincipal :: string
  cmdRulesetName :: string
  cmdIdentity :: string
  cmdSerial :: string

definition OpClaimSession :: string where "OpClaimSession = ''claim_session''"
definition OpReleaseSession :: string where "OpReleaseSession = ''release_session''"
definition OpCreateRole :: string where "OpCreateRole = ''acl.create_role''"
definition OpDeleteRole :: string where "OpDeleteRole = ''acl.delete_role''"
definition OpCreateBinding :: string where "OpCreateBinding = ''acl.create_binding''"
definition OpDeleteBinding :: string where "OpDeleteBinding = ''acl.delete_binding''"
definition OpEnableRuleset :: string where "OpEnableRuleset = ''acl.enable_ruleset''"
definition OpDisableRuleset :: string where "OpDisableRuleset = ''acl.disable_ruleset''"
definition OpSetRedisPrimary :: string where "OpSetRedisPrimary = ''redis.set_primary''"
definition OpRevokeCertificate :: string where "OpRevokeCertificate = ''device_pki.revoke_certificate''"

lemmas op_defs = OpClaimSession_def OpReleaseSession_def OpCreateRole_def OpDeleteRole_def
  OpCreateBinding_def OpDeleteBinding_def OpEnableRuleset_def OpDisableRuleset_def
  OpSetRedisPrimary_def OpRevokeCertificate_def

subsection \<open>State\<close>

text \<open>A Go map that may be nil is an optional map: reading a nil map finds nothing, writing to it
  panics. Only \<open>sessions\<close> can be nil in the FSM (see \<open>Restore\<close>).\<close>

record state =
  fsm_sessions :: "(string \<rightharpoonup> string) option"
  fsm_sessionIdentity :: "string \<rightharpoonup> string"
  fsm_roles :: "string \<rightharpoonup> Role"
  fsm_bindings :: "string \<rightharpoonup> string list"
  fsm_enabledRulesets :: "string \<rightharpoonup> bool"
  fsm_redisPrimary :: string
  fsm_revoked :: "string \<rightharpoonup> int"

definition newState :: state where
  "newState = \<lparr>fsm_sessions = Some Map.empty, fsm_sessionIdentity = Map.empty, fsm_roles = Map.empty,
     fsm_bindings = Map.empty, fsm_enabledRulesets = Map.empty, fsm_redisPrimary = '''',
     fsm_revoked = Map.empty\<rparr>"

definition nil_lookup :: "('k \<rightharpoonup> 'v) option \<Rightarrow> 'k \<rightharpoonup> 'v" where
  "nil_lookup m k = (case m of None \<Rightarrow> None | Some m' \<Rightarrow> m' k)"

datatype apply_error = UnmarshalCommand | UnknownOp string

record applyResult =
  res_err :: "apply_error option"
  res_ok :: bool
  res_evictedNode :: string

definition okResult :: applyResult where
  "okResult = \<lparr>res_err = None, res_ok = True, res_evictedNode = ''''\<rparr>"

definition errResult :: "apply_error \<Rightarrow> applyResult" where
  "errResult e = \<lparr>res_err = Some e, res_ok = False, res_evictedNode = ''''\<rparr>"

subsection \<open>Apply\<close>

definition kept_roles :: "string \<Rightarrow> string list \<Rightarrow> string list option" where
  "kept_roles role rns =
     (let kept = filter (\<lambda>rn. rn \<noteq> role) rns in if kept = [] then None else Some kept)"

definition apply_claim :: "Command \<Rightarrow> state \<Rightarrow> (state \<times> applyResult) option" where
  "apply_claim cmd st =
     (case fsm_sessions st of
        None \<Rightarrow> None
      | Some m \<Rightarrow>
          let evicted = (case m (cmdClientID cmd) of
                           Some owner \<Rightarrow> if owner \<noteq> cmdNodeID cmd then owner else ''''
                         | None \<Rightarrow> '''');
              st = st\<lparr>fsm_sessions := Some (m(cmdClientID cmd \<mapsto> cmdNodeID cmd))\<rparr>;
              st = (if cmdIdentity cmd \<noteq> ''''
                    then st\<lparr>fsm_sessionIdentity := (fsm_sessionIdentity st)(cmdClientID cmd \<mapsto> cmdIdentity cmd)\<rparr>
                    else st\<lparr>fsm_sessionIdentity := (fsm_sessionIdentity st)(cmdClientID cmd := None)\<rparr>)
          in Some (st, okResult\<lparr>res_evictedNode := evicted\<rparr>))"

definition apply_release :: "Command \<Rightarrow> state \<Rightarrow> state" where
  "apply_release cmd st =
     (case nil_lookup (fsm_sessions st) (cmdClientID cmd) of
        Some owner \<Rightarrow>
          if owner = cmdNodeID cmd
          then st\<lparr>fsm_sessions := map_option (\<lambda>m. m(cmdClientID cmd := None)) (fsm_sessions st),
                  fsm_sessionIdentity := (fsm_sessionIdentity st)(cmdClientID cmd := None)\<rparr>
          else st
      | None \<Rightarrow> st)"

definition apply_delete_role :: "Command \<Rightarrow> state \<Rightarrow> state" where
  "apply_delete_role cmd st =
     st\<lparr>fsm_roles := (fsm_roles st)(cmdRoleName cmd := None),
        fsm_bindings := (\<lambda>p. Option.bind (fsm_bindings st p) (kept_roles (cmdRoleName cmd)))\<rparr>"

definition apply_create_binding :: "Command \<Rightarrow> state \<Rightarrow> state" where
  "apply_create_binding cmd st =
     (let existing = (case fsm_bindings st (cmdPrincipal cmd) of None \<Rightarrow> [] | Some rns \<Rightarrow> rns) in
      if cmdRoleName cmd \<in> set existing then st
      else st\<lparr>fsm_bindings := (fsm_bindings st)(cmdPrincipal cmd \<mapsto> existing @ [cmdRoleName cmd])\<rparr>)"

definition apply_delete_binding :: "Command \<Rightarrow> state \<Rightarrow> state" where
  "apply_delete_binding cmd st =
     (let existing = (case fsm_bindings st (cmdPrincipal cmd) of None \<Rightarrow> [] | Some rns \<Rightarrow> rns) in
      st\<lparr>fsm_bindings := (fsm_bindings st)(cmdPrincipal cmd := kept_roles (cmdRoleName cmd) existing)\<rparr>)"

text \<open>\<open>None\<close> is a panic. The first argument is what \<^verbatim>\<open>time.Now().Unix()\<close> returns; the log entry is
  the decoded command, \<open>None\<close> when \<^verbatim>\<open>json.Unmarshal\<close> fails.\<close>

definition Apply :: "int \<Rightarrow> Command option \<Rightarrow> state \<Rightarrow> (state \<times> applyResult) option" where
  "Apply now entry st =
     (case entry of
        None \<Rightarrow> Some (st, errResult UnmarshalCommand)
      | Some cmd \<Rightarrow>
         if cmdOp cmd = OpClaimSession then apply_claim cmd st
         else if cmdOp cmd = OpReleaseSession then Some (apply_release cmd st, okResult)
         else if cmdOp cmd = OpCreateRole then
           Some (st\<lparr>fsm_roles := (fsm_roles st)(cmdRoleName cmd \<mapsto>
                     \<lparr>RoleName = cmdRoleName cmd, Rules = cmdRules cmd\<rparr>)\<rparr>, okResult)
         else if cmdOp cmd = OpDeleteRole then Some (apply_delete_role cmd st, okResult)
         else if cmdOp cmd = OpCreateBinding then Some (apply_create_binding cmd st, okResult)
         else if cmdOp cmd = OpDeleteBinding then Some (apply_delete_binding cmd st, okResult)
         else if cmdOp cmd = OpEnableRuleset then
           Some (st\<lparr>fsm_enabledRulesets := (fsm_enabledRulesets st)(cmdRulesetName cmd \<mapsto> True)\<rparr>, okResult)
         else if cmdOp cmd = OpDisableRuleset then
           Some (st\<lparr>fsm_enabledRulesets := (fsm_enabledRulesets st)(cmdRulesetName cmd := None)\<rparr>, okResult)
         else if cmdOp cmd = OpSetRedisPrimary then
           Some (st\<lparr>fsm_redisPrimary := cmdNodeID cmd\<rparr>, okResult)
         else if cmdOp cmd = OpRevokeCertificate then
           Some (st\<lparr>fsm_revoked := (fsm_revoked st)(cmdIdentity cmd \<mapsto> now)\<rparr>, okResult)
         else Some (st, errResult (UnknownOp (cmdOp cmd))))"

subsection \<open>Snapshots\<close>

text \<open>The decoded JSON snapshot: an absent or null map is \<open>None\<close>.\<close>

record snapshot =
  snap_Sessions :: "(string \<rightharpoonup> string) option"
  snap_SessionIdentity :: "(string \<rightharpoonup> string) option"
  snap_Roles :: "(string \<rightharpoonup> Role) option"
  snap_Bindings :: "(string \<rightharpoonup> string list) option"
  snap_EnabledRulesets :: "(string \<rightharpoonup> bool) option"
  snap_RedisPrimary :: string
  snap_Revoked :: "(string \<rightharpoonup> int) option"

text \<open>\<open>Snapshot\<close> copies every map into a freshly made one, so none of the result's maps is nil.\<close>

definition Snapshot :: "state \<Rightarrow> snapshot" where
  "Snapshot st =
     \<lparr>snap_Sessions = Some (nil_lookup (fsm_sessions st)),
      snap_SessionIdentity = Some (fsm_sessionIdentity st),
      snap_Roles = Some (fsm_roles st),
      snap_Bindings = Some (fsm_bindings st),
      snap_EnabledRulesets = Some (fsm_enabledRulesets st),
      snap_RedisPrimary = fsm_redisPrimary st,
      snap_Revoked = Some (fsm_revoked st)\<rparr>"

text \<open>\<open>Persist\<close> encodes the snapshot as JSON and \<open>Restore\<close> decodes it. A field tagged
  \<^verbatim>\<open>omitempty\<close> whose map is empty is not written, and decodes as nil; every other field comes back
  as it was written.\<close>

definition omitempty :: "('k \<rightharpoonup> 'v) option \<Rightarrow> ('k \<rightharpoonup> 'v) option" where
  "omitempty m = (case m of None \<Rightarrow> None | Some m' \<Rightarrow> if m' = Map.empty then None else Some m')"

definition Persist :: "snapshot \<Rightarrow> snapshot" where
  "Persist s = s\<lparr>snap_SessionIdentity := omitempty (snap_SessionIdentity s),
                 snap_Revoked := omitempty (snap_Revoked s)\<rparr>"

datatype restore_error = DecodeSnapshot

definition or_make :: "('k \<rightharpoonup> 'v) option \<Rightarrow> ('k \<rightharpoonup> 'v)" where
  "or_make m = (case m of Some m' \<Rightarrow> m' | None \<Rightarrow> Map.empty)"

definition Restore :: "snapshot option \<Rightarrow> state \<Rightarrow> restore_error + state" where
  "Restore decoded st =
     (case decoded of
        None \<Rightarrow> Inl DecodeSnapshot
      | Some s \<Rightarrow> Inr (st\<lparr>fsm_sessions := snap_Sessions s,
                          fsm_sessionIdentity := or_make (snap_SessionIdentity s),
                          fsm_roles := or_make (snap_Roles s),
                          fsm_bindings := or_make (snap_Bindings s),
                          fsm_enabledRulesets := or_make (snap_EnabledRulesets s),
                          fsm_redisPrimary := snap_RedisPrimary s,
                          fsm_revoked := or_make (snap_Revoked s)\<rparr>))"

subsection \<open>Reads\<close>

definition sessionOwner :: "state \<Rightarrow> string \<Rightarrow> string option" where
  "sessionOwner st clientID = nil_lookup (fsm_sessions st) clientID"

definition sessionsSnapshot :: "state \<Rightarrow> (string \<rightharpoonup> string)" where
  "sessionsSnapshot st = nil_lookup (fsm_sessions st)"

text \<open>\<open>order\<close> is the order in which the loop visits the keys of \<open>sessionIdentity\<close>.\<close>

definition clientIDsForIdentity :: "string list \<Rightarrow> state \<Rightarrow> string \<Rightarrow> string list" where
  "clientIDsForIdentity order st identity =
     filter (\<lambda>clientID. fsm_sessionIdentity st clientID = Some identity) order"

definition currentRedisPrimary :: "state \<Rightarrow> string \<times> bool" where
  "currentRedisPrimary st = (fsm_redisPrimary st, fsm_redisPrimary st \<noteq> '''')"

text \<open>The rules of the roles bound to a principal, in binding order; a missing role adds none.\<close>

definition bound_rules :: "(string \<rightharpoonup> Role) \<Rightarrow> string list \<Rightarrow> ACLRule list" where
  "bound_rules roles rns =
     concat (map (\<lambda>rn. case roles rn of Some role \<Rightarrow> Rules role | None \<Rightarrow> []) rns)"

definition enabled_roles :: "string list \<Rightarrow> Role list" where
  "enabled_roles names = List.map_filter StandardRulesets names"

definition custom_rules ::
  "string list \<Rightarrow> (string \<rightharpoonup> Role) \<Rightarrow> (string \<rightharpoonup> string list) \<Rightarrow> string \<Rightarrow> string \<Rightarrow> ACLRule list" where
  "custom_rules order roles bindings clientID username =
     concat (map (\<lambda>principal.
        if principal \<noteq> clientID \<and> principal \<noteq> username then []
        else (case bindings principal of Some rns \<Rightarrow> bound_rules roles rns | None \<Rightarrow> [])) order)"

text \<open>\<open>rsOrder\<close> and \<open>bOrder\<close> are the orders in which the two loops visit the enabled rulesets and
  the bound principals.\<close>

definition evaluateACL ::
  "string list \<Rightarrow> string list \<Rightarrow> state \<Rightarrow> string \<Rightarrow> string \<Rightarrow> string \<Rightarrow> Action \<Rightarrow> Decision" where
  "evaluateACL rsOrder bOrder st clientID username topic action =
     Evaluate clientID username topic action (enabled_roles rsOrder)
       (custom_rules bOrder (fsm_roles st) (fsm_bindings st) clientID username)"

definition rolesSnapshot :: "state \<Rightarrow> (string \<rightharpoonup> Role)" where
  "rolesSnapshot st = fsm_roles st"

definition bindingsSnapshot :: "state \<Rightarrow> (string \<rightharpoonup> string list)" where
  "bindingsSnapshot st = fsm_bindings st"

definition enabledRulesetsSnapshot :: "string list \<Rightarrow> state \<Rightarrow> string list" where
  "enabledRulesetsSnapshot order st =
     filter (\<lambda>name. fsm_enabledRulesets st name = Some True) order"

definition isRevoked :: "state \<Rightarrow> string \<Rightarrow> bool" where
  "isRevoked st identity \<longleftrightarrow> fsm_revoked st identity \<noteq> None"

definition revokedSnapshot :: "state \<Rightarrow> (string \<rightharpoonup> int)" where
  "revokedSnapshot st = fsm_revoked st"

subsection \<open>The state invariant\<close>

definition sessions_ok :: "(string \<rightharpoonup> string) option \<Rightarrow> (string \<rightharpoonup> string) \<Rightarrow> bool" where
  "sessions_ok s ids \<longleftrightarrow> (case s of None \<Rightarrow> False | Some m \<Rightarrow> dom ids \<subseteq> dom m)"

definition bindings_ok :: "(string \<rightharpoonup> string list) \<Rightarrow> bool" where
  "bindings_ok b \<longleftrightarrow> (\<forall>p rns. b p = Some rns \<longrightarrow> rns \<noteq> [] \<and> distinct rns)"

definition rulesets_ok :: "(string \<rightharpoonup> bool) \<Rightarrow> bool" where
  "rulesets_ok e \<longleftrightarrow> (\<forall>n b. e n = Some b \<longrightarrow> b)"

definition roles_ok :: "(string \<rightharpoonup> Role) \<Rightarrow> bool" where
  "roles_ok r \<longleftrightarrow> (\<forall>n role. r n = Some role \<longrightarrow> RoleName role = n)"

definition fsm_inv :: "state \<Rightarrow> bool" where
  "fsm_inv st \<longleftrightarrow>
     sessions_ok (fsm_sessions st) (fsm_sessionIdentity st) \<and> bindings_ok (fsm_bindings st) \<and>
     rulesets_ok (fsm_enabledRulesets st) \<and> roles_ok (fsm_roles st)"

lemma kept_roles_Some: "kept_roles r rns = Some k \<Longrightarrow> k \<noteq> [] \<and> k = filter (\<lambda>x. x \<noteq> r) rns"
  by (auto simp: kept_roles_def Let_def split: if_splits)

lemma bindings_ok_update [simp]:
  "bindings_ok b \<Longrightarrow> (\<And>rns. new = Some rns \<Longrightarrow> rns \<noteq> [] \<and> distinct rns) \<Longrightarrow> bindings_ok (b(p := new))"
  by (auto simp: bindings_ok_def)

lemma bindings_ok_kept [simp]:
  "bindings_ok b \<Longrightarrow> bindings_ok (\<lambda>p. Option.bind (b p) (kept_roles r))"
  by (fastforce simp: bindings_ok_def bind_eq_Some_conv dest!: kept_roles_Some)

lemma component_updates [simp]:
  "rulesets_ok e \<Longrightarrow> rulesets_ok (e(n \<mapsto> True))"
  "rulesets_ok e \<Longrightarrow> rulesets_ok (e(n := None))"
  "roles_ok r \<Longrightarrow> roles_ok (r(n \<mapsto> \<lparr>RoleName = n, Rules = rs\<rparr>))"
  "roles_ok r \<Longrightarrow> roles_ok (r(n := None))"
  "sessions_ok (Some m) ids \<Longrightarrow> sessions_ok (Some (m(c \<mapsto> n))) (ids(c := i))"
  "sessions_ok (Some m) ids \<Longrightarrow> sessions_ok (Some (m(c := None))) (ids(c := None))"
  by (auto simp: rulesets_ok_def roles_ok_def sessions_ok_def)

lemma fsm_inv_newState [keel_inv]: "fsm_inv newState"
  by (simp add: newState_def fsm_inv_def sessions_ok_def bindings_ok_def rulesets_ok_def roles_ok_def)

lemma fsm_inv_sessions: "fsm_inv st \<Longrightarrow> \<exists>m. fsm_sessions st = Some m"
  by (auto simp: fsm_inv_def sessions_ok_def split: option.splits)

lemma fsm_inv_claim [keel_inv]:
  "fsm_inv st \<Longrightarrow> apply_claim cmd st = Some (st', res) \<Longrightarrow> fsm_inv st'"
  by (auto simp: apply_claim_def fsm_inv_def Let_def split: option.splits if_splits)

lemma fsm_inv_release [keel_inv]: "fsm_inv st \<Longrightarrow> fsm_inv (apply_release cmd st)"
  using fsm_inv_sessions[of st]
  by (auto simp: apply_release_def fsm_inv_def split: option.splits)

lemma fsm_inv_delete_role [keel_inv]: "fsm_inv st \<Longrightarrow> fsm_inv (apply_delete_role cmd st)"
  by (simp add: apply_delete_role_def fsm_inv_def)

lemma fsm_inv_create_binding [keel_inv]: "fsm_inv st \<Longrightarrow> fsm_inv (apply_create_binding cmd st)"
  by (auto simp: fsm_inv_def apply_create_binding_def Let_def bindings_ok_def split: option.splits)

lemma fsm_inv_delete_binding [keel_inv]: "fsm_inv st \<Longrightarrow> fsm_inv (apply_delete_binding cmd st)"
  by (fastforce simp: fsm_inv_def apply_delete_binding_def Let_def bindings_ok_def
      split: option.splits dest!: kept_roles_Some)

lemma Apply_inv [keel_inv]:
  assumes "fsm_inv st" "Apply now entry st = Some (st', res)"
  shows "fsm_inv st'"
proof (cases entry)
  case (Some cmd)
  have upd: "fsm_inv (st\<lparr>fsm_redisPrimary := x\<rparr>)" "fsm_inv (st\<lparr>fsm_revoked := y\<rparr>)"
    "fsm_inv (st\<lparr>fsm_roles := (fsm_roles st)(n \<mapsto> \<lparr>RoleName = n, Rules = rs\<rparr>)\<rparr>)"
    "fsm_inv (st\<lparr>fsm_enabledRulesets := (fsm_enabledRulesets st)(n \<mapsto> True)\<rparr>)"
    "fsm_inv (st\<lparr>fsm_enabledRulesets := (fsm_enabledRulesets st)(n := None)\<rparr>)" for x y n rs
    using assms(1) by (simp_all add: fsm_inv_def)
  show ?thesis
  proof (cases "cmdOp cmd = OpClaimSession")
    case True
    with assms Some show ?thesis by (simp add: Apply_def fsm_inv_claim)
  next
    case False
    with assms Some show ?thesis
      by (auto simp: Apply_def upd keel_inv split: if_splits)
  qed
qed (use assms in \<open>auto simp: Apply_def\<close>)

lemma Apply_claim_entry [simp]:
  "cmdOp cmd = OpClaimSession \<Longrightarrow> Apply now (Some cmd) st = apply_claim cmd st"
  by (simp add: Apply_def)

lemma Apply_bad_entry [simp]: "Apply now None st = Some (st, errResult UnmarshalCommand)"
  by (simp add: Apply_def)

lemma Apply_other_entry:
  "cmdOp cmd \<noteq> OpClaimSession \<Longrightarrow> \<exists>st' res. Apply now (Some cmd) st = Some (st', res)"
  by (simp add: Apply_def)

lemma Apply_not_None:
  assumes "fsm_inv st"
  shows "Apply now entry st \<noteq> None"
proof (cases entry)
  case (Some cmd)
  obtain m where "fsm_sessions st = Some m" using fsm_inv_sessions[OF assms] by blast
  then have "apply_claim cmd st \<noteq> None" by (simp add: apply_claim_def Let_def)
  with Some Apply_other_entry[of cmd now st] show ?thesis
    by (cases "cmdOp cmd = OpClaimSession") auto
qed simp

lemma Apply_total:
  assumes "fsm_inv st"
  obtains st' res where "Apply now entry st = Some (st', res)" "fsm_inv st'"
  using Apply_not_None[OF assms, of now entry] Apply_inv[OF assms, of now entry]
  by (cases "Apply now entry st") auto

subsection \<open>Runs\<close>

text \<open>A replica starts empty, applies log entries, and may at any time restore a snapshot taken
  by a replica.\<close>

inductive fsm_reachable :: "state \<Rightarrow> bool" where
  init: "fsm_reachable newState"
| entry: "fsm_reachable st \<Longrightarrow> Apply now entry st = Some (st', res) \<Longrightarrow> fsm_reachable st'"
| restore: "fsm_reachable st \<Longrightarrow> fsm_reachable other \<Longrightarrow>
    Restore (Some (Persist (Snapshot other))) st = Inr st' \<Longrightarrow> fsm_reachable st'"

lemma or_make_omitempty: "or_make (omitempty (Some m)) = m"
  by (auto simp: or_make_def omitempty_def)

lemma Restore_Snapshot:
  assumes "fsm_sessions st \<noteq> None"
  shows "Restore (Some (Persist (Snapshot st))) st0 = Inr st"
proof -
  from assms obtain m where "fsm_sessions st = Some m" by auto
  moreover have "nil_lookup (Some m) = m" by (rule ext) (simp add: nil_lookup_def)
  ultimately show ?thesis
    by (simp add: Restore_def Persist_def Snapshot_def or_make_omitempty) (simp add: or_make_def)
qed

lemma fsm_reachable_inv: "fsm_reachable st \<Longrightarrow> fsm_inv st"
proof (induction rule: fsm_reachable.induct)
  case (restore st other st')
  then have "st' = other" using Restore_Snapshot[of other st] fsm_inv_sessions[of other] by auto
  with restore show ?case by simp
qed (auto intro: keel_inv)

fun run_log :: "(int \<times> Command option) list \<Rightarrow> state \<Rightarrow> state option" where
  "run_log [] st = Some st"
| "run_log ((now, e) # es) st =
     (case Apply now e st of None \<Rightarrow> None | Some (st', _) \<Rightarrow> run_log es st')"

lemma run_log_inv:
  "fsm_inv st \<Longrightarrow> \<exists>st'. run_log es st = Some st' \<and> fsm_inv st'"
proof (induction es st rule: run_log.induct)
  case (2 now e es st)
  from 2(2) obtain st' res where "Apply now e st = Some (st', res)" "fsm_inv st'"
    by (rule Apply_total)
  with 2(1) show ?case by auto
qed simp

lemma run_log_append:
  "run_log (es @ fs) st = Option.bind (run_log es st) (run_log fs)"
  by (induction es st rule: run_log.induct) (auto split: option.splits)

subsection \<open>How an entry changes ownership, bindings and revocations\<close>

definition claim_of :: "Command option \<Rightarrow> (string \<times> string) option" where
  "claim_of e = (case e of
     Some cmd \<Rightarrow> if cmdOp cmd = OpClaimSession then Some (cmdClientID cmd, cmdNodeID cmd) else None
   | None \<Rightarrow> None)"

definition release_of :: "Command option \<Rightarrow> (string \<times> string) option" where
  "release_of e = (case e of
     Some cmd \<Rightarrow> if cmdOp cmd = OpReleaseSession then Some (cmdClientID cmd, cmdNodeID cmd) else None
   | None \<Rightarrow> None)"

definition revoke_of :: "Command option \<Rightarrow> string option" where
  "revoke_of e = (case e of
     Some cmd \<Rightarrow> if cmdOp cmd = OpRevokeCertificate then Some (cmdIdentity cmd) else None
   | None \<Rightarrow> None)"

definition binds_role :: "string \<Rightarrow> Command option \<Rightarrow> bool" where
  "binds_role r e = (case e of
     Some cmd \<Rightarrow> cmdOp cmd = OpCreateBinding \<and> cmdRoleName cmd = r
   | None \<Rightarrow> False)"

lemma op_distinct:
  "OpReleaseSession \<noteq> OpClaimSession" "OpRevokeCertificate \<noteq> OpClaimSession"
  "OpRevokeCertificate \<noteq> OpReleaseSession" "OpCreateBinding \<noteq> OpClaimSession"
  by (simp_all add: op_defs)

lemma apply_claim_SomeD:
  assumes "apply_claim cmd st = Some (st', res)"
  shows "\<exists>m. fsm_sessions st = Some m \<and> fsm_sessions st' = Some (m(cmdClientID cmd \<mapsto> cmdNodeID cmd))"
    "fsm_bindings st' = fsm_bindings st" "fsm_revoked st' = fsm_revoked st"
    "res_evictedNode res = (case sessionOwner st (cmdClientID cmd) of
        Some owner \<Rightarrow> if owner \<noteq> cmdNodeID cmd then owner else '''' | None \<Rightarrow> '''')"
  using assms
  by (auto simp: apply_claim_def Let_def okResult_def sessionOwner_def nil_lookup_def split: option.splits)

lemma nil_lookup_Some [simp]: "nil_lookup (Some m) = m"
  by (rule ext) (simp add: nil_lookup_def)

lemma sessionOwner_Some: "fsm_sessions st = Some m \<Longrightarrow> sessionOwner st = m"
  by (rule ext) (simp add: sessionOwner_def)

lemma owner_claim:
  assumes "Apply now e st = Some (st', res)" "claim_of e = Some (c, n)"
  shows "sessionOwner st' = (sessionOwner st)(c \<mapsto> n)"
proof -
  from assms obtain cmd where "apply_claim cmd st = Some (st', res)" "c = cmdClientID cmd" "n = cmdNodeID cmd"
    by (auto simp: claim_of_def split: option.splits if_splits)
  then show ?thesis using apply_claim_SomeD(1) sessionOwner_Some by metis
qed

lemma owner_release:
  assumes "Apply now e st = Some (st', res)" "release_of e = Some (c, n)"
  shows "sessionOwner st' = (if sessionOwner st c = Some n then (sessionOwner st)(c := None) else sessionOwner st)"
proof -
  from assms obtain cmd where "e = Some cmd" "cmdOp cmd = OpReleaseSession"
    and cn: "c = cmdClientID cmd" "n = cmdNodeID cmd"
    by (auto simp: release_of_def split: option.splits if_splits)
  with assms(1) have "st' = apply_release cmd st" by (simp add: Apply_def op_distinct)
  with cn show ?thesis
    by (cases "fsm_sessions st")
       (auto simp: apply_release_def sessionOwner_def nil_lookup_def fun_eq_iff split: option.splits)
qed

lemma sessions_untouched:
  assumes "Apply now (Some cmd) st = Some (st', res)"
    "cmdOp cmd \<noteq> OpClaimSession" "cmdOp cmd \<noteq> OpReleaseSession"
  shows "fsm_sessions st' = fsm_sessions st"
  using assms
  by (auto simp: Apply_def apply_delete_role_def apply_create_binding_def apply_delete_binding_def
      Let_def split: if_splits)

lemma owner_other:
  assumes "Apply now e st = Some (st', res)" "claim_of e = None" "release_of e = None"
  shows "sessionOwner st' = sessionOwner st"
proof (cases e)
  case (Some cmd)
  with assms show ?thesis
    using sessions_untouched[of now cmd st st' res]
    by (auto simp: claim_of_def release_of_def sessionOwner_def split: if_splits)
qed (use assms in auto)

lemma revoked_untouched:
  assumes "Apply now (Some cmd) st = Some (st', res)" "cmdOp cmd \<noteq> OpRevokeCertificate"
  shows "fsm_revoked st' = fsm_revoked st"
proof (cases "cmdOp cmd = OpClaimSession")
  case True
  with assms show ?thesis by (simp add: apply_claim_SomeD(3))
next
  case False
  with assms show ?thesis
    by (auto simp: Apply_def apply_release_def apply_delete_role_def apply_create_binding_def
        apply_delete_binding_def Let_def split: if_splits option.splits)
qed

lemma isRevoked_Apply:
  assumes "Apply now e st = Some (st', res)"
  shows "isRevoked st' i \<longleftrightarrow> isRevoked st i \<or> revoke_of e = Some i"
proof (cases e)
  case (Some cmd)
  show ?thesis
  proof (cases "cmdOp cmd = OpRevokeCertificate")
    case True
    with Some assms show ?thesis
      by (auto simp: Apply_def isRevoked_def revoke_of_def op_defs)
  next
    case False
    with Some assms revoked_untouched[of now cmd st st' res] show ?thesis
      by (simp add: isRevoked_def revoke_of_def)
  qed
qed (use assms in \<open>auto simp: revoke_of_def\<close>)

definition role_bound :: "state \<Rightarrow> string \<Rightarrow> bool" where
  "role_bound st r \<longleftrightarrow> (\<exists>p rns. fsm_bindings st p = Some rns \<and> r \<in> set rns)"

lemma role_bound_same: "fsm_bindings st' = fsm_bindings st \<Longrightarrow> role_bound st' r \<longleftrightarrow> role_bound st r"
  by (simp add: role_bound_def)

lemma role_bound_ops:
  "role_bound (apply_delete_role cmd st) r \<Longrightarrow> role_bound st r"
  "role_bound (apply_delete_binding cmd st) r \<Longrightarrow> role_bound st r"
  "role_bound (apply_create_binding cmd st) r \<Longrightarrow> r \<noteq> cmdRoleName cmd \<Longrightarrow> role_bound st r"
  unfolding role_bound_def apply_delete_role_def apply_delete_binding_def apply_create_binding_def Let_def
  by (fastforce simp: bind_eq_Some_conv split: if_splits option.splits dest!: kept_roles_Some)+

lemma bindings_untouched:
  assumes "Apply now (Some cmd) st = Some (st', res)"
    "cmdOp cmd \<noteq> OpDeleteRole" "cmdOp cmd \<noteq> OpCreateBinding" "cmdOp cmd \<noteq> OpDeleteBinding"
  shows "fsm_bindings st' = fsm_bindings st"
proof (cases "cmdOp cmd = OpClaimSession")
  case True
  with assms show ?thesis by (simp add: apply_claim_SomeD(2))
next
  case False
  with assms show ?thesis
    by (auto simp: Apply_def apply_release_def split: if_splits option.splits)
qed

lemma binding_entries:
  "cmdOp cmd = OpDeleteRole \<Longrightarrow> Apply now (Some cmd) st = Some (apply_delete_role cmd st, okResult)"
  "cmdOp cmd = OpCreateBinding \<Longrightarrow> Apply now (Some cmd) st = Some (apply_create_binding cmd st, okResult)"
  "cmdOp cmd = OpDeleteBinding \<Longrightarrow> Apply now (Some cmd) st = Some (apply_delete_binding cmd st, okResult)"
  by (simp_all add: Apply_def op_defs)

lemma role_bound_Apply:
  assumes "Apply now e st = Some (st', res)" "\<not> binds_role r e" "role_bound st' r"
  shows "role_bound st r"
proof (cases e)
  case (Some cmd)
  consider "cmdOp cmd = OpDeleteRole" | "cmdOp cmd = OpCreateBinding" | "cmdOp cmd = OpDeleteBinding"
    | "cmdOp cmd \<noteq> OpDeleteRole" "cmdOp cmd \<noteq> OpCreateBinding" "cmdOp cmd \<noteq> OpDeleteBinding"
    by blast
  then show ?thesis
  proof cases
    case 1
    with assms Some show ?thesis by (auto simp: binding_entries intro: role_bound_ops(1))
  next
    case 2
    with assms Some show ?thesis
      by (auto simp: binding_entries binds_role_def intro: role_bound_ops(3))
  next
    case 3
    with assms Some show ?thesis by (auto simp: binding_entries intro: role_bound_ops(2))
  next
    case 4
    with assms Some bindings_untouched show ?thesis by (metis role_bound_same)
  qed
qed (use assms in auto)

lemma role_bound_run_log:
  "run_log es st = Some st' \<Longrightarrow> \<forall>(now, e)\<in>set es. \<not> binds_role r e \<Longrightarrow> role_bound st' r \<Longrightarrow> role_bound st r"
  by (induction es st rule: run_log.induct)
     (auto split: option.splits dest: role_bound_Apply)

lemma role_bound_delete:
  "\<not> role_bound (apply_delete_role cmd st) (cmdRoleName cmd)"
  by (auto simp: role_bound_def apply_delete_role_def bind_eq_Some_conv dest!: kept_roles_Some)

subsection \<open>Replicas that apply the same entries\<close>

definition same_replica :: "state \<Rightarrow> state \<Rightarrow> bool" where
  "same_replica s t \<longleftrightarrow>
     s\<lparr>fsm_revoked := Map.empty\<rparr> = t\<lparr>fsm_revoked := Map.empty\<rparr> \<and> dom (fsm_revoked s) = dom (fsm_revoked t)"

lemma same_replica_refl [simp]: "same_replica s s"
  by (simp add: same_replica_def)

lemma same_replicaE:
  assumes "same_replica s t"
  obtains r where "t = s\<lparr>fsm_revoked := r\<rparr>" "dom r = dom (fsm_revoked s)"
  using assms by (cases s, cases t) (auto simp: same_replica_def)

lemma same_replica_revoked:
  "dom r = dom (fsm_revoked s) \<Longrightarrow> same_replica s (s\<lparr>fsm_revoked := r\<rparr>)"
  by (simp add: same_replica_def)

lemma revoked_frame:
  "apply_release cmd (s\<lparr>fsm_revoked := r\<rparr>) = (apply_release cmd s)\<lparr>fsm_revoked := r\<rparr>"
  "apply_delete_role cmd (s\<lparr>fsm_revoked := r\<rparr>) = (apply_delete_role cmd s)\<lparr>fsm_revoked := r\<rparr>"
  "apply_create_binding cmd (s\<lparr>fsm_revoked := r\<rparr>) = (apply_create_binding cmd s)\<lparr>fsm_revoked := r\<rparr>"
  "apply_delete_binding cmd (s\<lparr>fsm_revoked := r\<rparr>) = (apply_delete_binding cmd s)\<lparr>fsm_revoked := r\<rparr>"
  "apply_claim cmd (s\<lparr>fsm_revoked := r\<rparr>) = map_option (\<lambda>(s', x). (s'\<lparr>fsm_revoked := r\<rparr>, x)) (apply_claim cmd s)"
  by (simp_all add: apply_release_def apply_delete_role_def apply_create_binding_def
      apply_delete_binding_def apply_claim_def Let_def split: option.split)

lemma Apply_frame:
  assumes "cmdOp cmd \<noteq> OpRevokeCertificate"
  shows "Apply now' (Some cmd) (s\<lparr>fsm_revoked := r\<rparr>) =
         map_option (\<lambda>(s', x). (s'\<lparr>fsm_revoked := r\<rparr>, x)) (Apply now (Some cmd) s)"
  using assms by (simp add: Apply_def revoked_frame)

lemma Apply_revoke:
  "cmdOp cmd = OpRevokeCertificate \<Longrightarrow>
   Apply now (Some cmd) s = Some (s\<lparr>fsm_revoked := (fsm_revoked s)(cmdIdentity cmd \<mapsto> now)\<rparr>, okResult)"
  by (simp add: Apply_def op_defs)

lemma Apply_same_replica:
  assumes "same_replica s t"
  shows "rel_option (\<lambda>(s', x) (t', y). same_replica s' t' \<and> x = y) (Apply now e s) (Apply now' e t)"
proof (cases e)
  case None
  with assms show ?thesis by simp
next
  case (Some cmd)
  from assms obtain r where t: "t = s\<lparr>fsm_revoked := r\<rparr>" and r: "dom r = dom (fsm_revoked s)"
    by (rule same_replicaE)
  show ?thesis
  proof (cases "cmdOp cmd = OpRevokeCertificate")
    case True
    with Some t r show ?thesis
      by (simp add: Apply_revoke same_replica_def)
  next
    case False
    note fr = Apply_frame[OF this, of now' r s now]
    show ?thesis
    proof (cases "Apply now (Some cmd) s")
      case None
      with fr Some t show ?thesis by simp
    next
      case A: (Some p)
      obtain s' x where p: "p = (s', x)" by (cases p)
      then have "fsm_revoked s' = fsm_revoked s" using A False revoked_untouched by blast
      with r fr A p Some t show ?thesis by (simp add: same_replica_revoked)
    qed
  qed
qed

lemma run_log_same_replica:
  "map snd es = map snd fs \<Longrightarrow> same_replica s t \<Longrightarrow>
   rel_option same_replica (run_log es s) (run_log fs t)"
proof (induction es s arbitrary: fs t rule: run_log.induct)
  case (1 s)
  then show ?case by simp
next
  case (2 now e es s)
  then obtain now' fs' where fs: "fs = (now', e) # fs'" "map snd es = map snd fs'"
    by (cases fs) auto
  from Apply_same_replica[OF 2(3), of now e now'] show ?case
  proof (cases rule: option.rel_cases)
    case None
    with fs show ?thesis by simp
  next
    case (Some p q)
    then obtain s' x t' where "p = (s', x)" "q = (t', x)" "same_replica s' t'" by (cases p, cases q) auto
    with Some fs 2(1) show ?thesis by simp
  qed
qed

subsection \<open>Stores of access rules\<close>

definition role_rules :: "Role option \<Rightarrow> ACLRule set" where
  "role_rules r = (case r of Some role \<Rightarrow> set (Rules role) | None \<Rightarrow> {})"

text \<open>The rules that concern a connection: those of the enabled built-in rulesets, and those of
  the roles bound to its client identifier or its username.\<close>

definition principal_rules :: "(string \<rightharpoonup> Role) \<Rightarrow> (string \<rightharpoonup> string list) \<Rightarrow> string \<Rightarrow> ACLRule set" where
  "principal_rules roles bindings p =
     (case bindings p of None \<Rightarrow> {} | Some rns \<Rightarrow> \<Union>rn\<in>set rns. role_rules (roles rn))"

definition store_rules ::
  "(string \<rightharpoonup> Role) \<Rightarrow> (string \<rightharpoonup> string list) \<Rightarrow> string set \<Rightarrow> string \<Rightarrow> string \<Rightarrow> ACLRule set" where
  "store_rules roles bindings enabled clientID username =
     (\<Union>name\<in>enabled. role_rules (StandardRulesets name)) \<union>
     principal_rules roles bindings clientID \<union> principal_rules roles bindings username"

lemma set_bound_rules: "set (bound_rules roles rns) = (\<Union>rn\<in>set rns. role_rules (roles rn))"
proof -
  have "set (case r of Some role \<Rightarrow> Rules role | None \<Rightarrow> []) = role_rules r" for r
    by (simp add: role_rules_def split: option.split)
  then show ?thesis by (simp add: bound_rules_def)
qed

lemma set_enabled_rules:
  "set (concat (map Rules (enabled_roles names))) = (\<Union>name\<in>set names. role_rules (StandardRulesets name))"
  by (induction names)
     (auto simp: enabled_roles_def List.map_filter_simps role_rules_def split: option.splits)

lemma set_custom_rules:
  assumes "set order = dom bindings"
  shows "set (custom_rules order roles bindings c u) =
    principal_rules roles bindings c \<union> principal_rules roles bindings u"
proof -
  have p: "set (if p \<noteq> c \<and> p \<noteq> u then [] else
      (case bindings p of Some rns \<Rightarrow> bound_rules roles rns | None \<Rightarrow> [])) =
      (if p = c \<or> p = u then principal_rules roles bindings p else {})" for p
    by (auto simp: principal_rules_def set_bound_rules split: option.split)
  have "principal_rules roles bindings q = {}" if "q \<notin> set order" for q
    using that assms by (auto simp: principal_rules_def split: option.split)
  then show ?thesis
    unfolding custom_rules_def set_concat set_map image_image p by (auto split: if_splits)
qed

text \<open>The contract of a component that answers access checks from a store: whatever the order
  \<open>ord\<close> its loops run in, the check is an evaluation over exactly the rules that concern the
  connection.\<close>

locale acl_store =
  fixes check :: "'ord \<Rightarrow> 's \<Rightarrow> string \<Rightarrow> string \<Rightarrow> string \<Rightarrow> Action \<Rightarrow> Decision"
    and serves :: "'ord \<Rightarrow> 's \<Rightarrow> bool"
    and roles_of :: "'s \<Rightarrow> (string \<rightharpoonup> Role)"
    and bindings_of :: "'s \<Rightarrow> (string \<rightharpoonup> string list)"
    and enabled_of :: "'s \<Rightarrow> string set"
  assumes check_scope: "serves ord s \<Longrightarrow>
    \<exists>rulesets custom. check ord s c u t a = Evaluate c u t a rulesets custom \<and>
      set (rules_in_scope rulesets custom) = store_rules (roles_of s) (bindings_of s) (enabled_of s) c u"
begin

lemma allowed_iff:
  assumes "serves ord s"
  shows "Allowed (check ord s c u t a) \<longleftrightarrow>
    (\<exists>r\<in>store_rules (roles_of s) (bindings_of s) (enabled_of s) c u. effect_applies c u t a EffectAllow r) \<and>
    (\<forall>r\<in>store_rules (roles_of s) (bindings_of s) (enabled_of s) c u. \<not> effect_applies c u t a EffectDeny r)"
proof -
  obtain rulesets custom where "check ord s c u t a = Evaluate c u t a rulesets custom"
    "set (rules_in_scope rulesets custom) = store_rules (roles_of s) (bindings_of s) (enabled_of s) c u"
    using check_scope[OF assms] by blast
  then show ?thesis by (simp only: Allowed_Evaluate)
qed

lemma order_irrelevant:
  "serves ord s \<Longrightarrow> serves ord' s \<Longrightarrow> Allowed (check ord s c u t a) = Allowed (check ord' s c u t a)"
  by (simp only: allowed_iff)

lemma unbound_denied:
  assumes "serves ord s" "enabled_of s = {}" "bindings_of s c = None" "bindings_of s u = None"
  shows "\<not> Allowed (check ord s c u t a)"
  using assms by (simp add: allowed_iff store_rules_def principal_rules_def)

end

definition fsm_orders :: "string list \<times> string list \<Rightarrow> state \<Rightarrow> bool" where
  "fsm_orders ord st \<longleftrightarrow>
     set (fst ord) = dom (fsm_enabledRulesets st) \<and> set (snd ord) = dom (fsm_bindings st)"

interpretation fsm_acl: acl_store
  "\<lambda>ord. evaluateACL (fst ord) (snd ord)" fsm_orders fsm_roles fsm_bindings "\<lambda>st. dom (fsm_enabledRulesets st)"
proof (unfold_locales, goal_cases)
  case (1 ord st c u t a)
  then show ?case
    by (intro exI[of _ "enabled_roles (fst ord)"]
        exI[of _ "custom_rules (snd ord) (fsm_roles st) (fsm_bindings st) c u"])
       (simp add: evaluateACL_def rules_in_scope_def store_rules_def fsm_orders_def set_custom_rules
         set_enabled_rules Un_assoc del: set_concat)
qed

subsection \<open>Ownership along a log\<close>

definition zeroCommand :: Command where
  "zeroCommand = \<lparr>cmdOp = '''', cmdNodeID = '''', cmdClientID = '''', cmdRoleName = '''', cmdRules = [],
     cmdPrincipal = '''', cmdRulesetName = '''', cmdIdentity = '''', cmdSerial = ''''\<rparr>"

definition held_since_claim :: "string \<Rightarrow> string \<Rightarrow> (int \<times> Command option) list \<Rightarrow> bool" where
  "held_since_claim c n es \<longleftrightarrow>
     (\<exists>pre now e post. es = pre @ (now, e) # post \<and> claim_of e = Some (c, n) \<and>
        (\<forall>(now', f)\<in>set post. (\<forall>m. claim_of f \<noteq> Some (c, m)) \<and> release_of f \<noteq> Some (c, n)))"

lemma held_since_claim_snoc:
  "held_since_claim c n (es @ [(now, e)]) \<longleftrightarrow>
     claim_of e = Some (c, n) \<or>
     (held_since_claim c n es \<and> (\<forall>m. claim_of e \<noteq> Some (c, m)) \<and> release_of e \<noteq> Some (c, n))"
  (is "?L \<longleftrightarrow> ?A \<or> ?B")
proof
  assume ?L
  then obtain pre t f post where *: "es @ [(now, e)] = pre @ (t, f) # post" "claim_of f = Some (c, n)"
    "\<forall>(now', f)\<in>set post. (\<forall>m. claim_of f \<noteq> Some (c, m)) \<and> release_of f \<noteq> Some (c, n)"
    by (auto simp: held_since_claim_def)
  show "?A \<or> ?B"
  proof (cases post rule: rev_cases)
    case Nil
    with * show ?thesis by simp
  next
    case (snoc post' q)
    with *(1) have "es = pre @ (t, f) # post'" "q = (now, e)" by auto
    with * snoc show ?thesis by (auto simp: held_since_claim_def)
  qed
next
  assume "?A \<or> ?B"
  then show ?L
  proof
    assume ?A
    then show ?L unfolding held_since_claim_def
      by (intro exI[of _ es] exI[of _ now] exI[of _ e] exI[of _ "[]"]) simp
  next
    assume B: ?B
    then obtain pre t f post where "es = pre @ (t, f) # post" "claim_of f = Some (c, n)"
      "\<forall>(now', f)\<in>set post. (\<forall>m. claim_of f \<noteq> Some (c, m)) \<and> release_of f \<noteq> Some (c, n)"
      by (auto simp: held_since_claim_def)
    with B show ?L unfolding held_since_claim_def
      by (intro exI[of _ pre] exI[of _ t] exI[of _ f] exI[of _ "post @ [(now, e)]"]) auto
  qed
qed

lemma owner_iff_held:
  "run_log es newState = Some st \<Longrightarrow> sessionOwner st c = Some n \<longleftrightarrow> held_since_claim c n es"
proof (induction es arbitrary: st rule: rev_induct)
  case Nil
  then show ?case
    by (auto simp: newState_def sessionOwner_def held_since_claim_def)
next
  case (snoc p es)
  obtain now e where p: "p = (now, e)" by (cases p)
  from snoc.prems p obtain st1 res where "run_log es newState = Some st1" and
    A: "Apply now e st1 = Some (st, res)"
    by (auto simp: run_log_append bind_eq_Some_conv split: option.splits)
  then have IH: "sessionOwner st1 c = Some n \<longleftrightarrow> held_since_claim c n es" using snoc.IH by blast
  have excl: "release_of e = None" if "claim_of e = Some x" for x
    using that op_distinct by (auto simp: claim_of_def release_of_def split: option.splits if_splits)
  show ?case
  proof (cases "claim_of e")
    case (Some cn)
    with A IH excl[OF Some] show ?thesis
      unfolding p held_since_claim_snoc by (cases cn) (auto simp: owner_claim)
  next
    case C: None
    show ?thesis
    proof (cases "release_of e")
      case (Some cn)
      with A IH C show ?thesis
        unfolding p held_since_claim_snoc by (cases cn) (auto simp: owner_release)
    next
      case None
      with A IH C show ?thesis
        unfolding p held_since_claim_snoc by (simp add: owner_other)
    qed
  qed
qed

lemma isRevoked_run_log:
  "run_log es st = Some st' \<Longrightarrow>
   isRevoked st' i \<longleftrightarrow> isRevoked st i \<or> Some i \<in> (revoke_of \<circ> snd) ` set es"
proof (induction es st rule: run_log.induct)
  case (2 now e es st)
  then obtain st1 res where "Apply now e st = Some (st1, res)" "run_log es st1 = Some st'"
    by (auto split: option.splits)
  with 2(1) isRevoked_Apply show ?case by (fastforce simp: image_iff)
qed simp

subsection \<open>Properties\<close>

text \<open>C8. A node owns a client's session after a log exactly when the log holds a claim of that
  session by that node that no later claim of the session (by any node) and no later release by
  that same node follows: the newest claim wins, there is one owner, and a release by a node that
  no longer owns the session has no effect.\<close>

theorem fsm_session_owner:
  assumes "run_log es newState = Some st"
  shows "sessionOwner st clientID = Some node \<longleftrightarrow>
     (\<exists>pre now e post. es = pre @ (now, e) # post \<and> claim_of e = Some (clientID, node) \<and>
        \<not> (\<exists>(now', f)\<in>set post. (\<exists>m. claim_of f = Some (clientID, m)) \<or> release_of f = Some (clientID, node)))"
  using owner_iff_held[OF assms] unfolding held_since_claim_def by (simp add: case_prod_beta)

definition example_log :: "(int \<times> Command option) list" where
  "example_log =
     [(1, Some (zeroCommand\<lparr>cmdOp := OpClaimSession, cmdClientID := ''c'', cmdNodeID := ''n1''\<rparr>)),
      (2, Some (zeroCommand\<lparr>cmdOp := OpClaimSession, cmdClientID := ''c'', cmdNodeID := ''n2''\<rparr>)),
      (3, Some (zeroCommand\<lparr>cmdOp := OpReleaseSession, cmdClientID := ''c'', cmdNodeID := ''n1''\<rparr>))]"

lemma example_log_owner: "\<exists>st. run_log example_log newState = Some st \<and> sessionOwner st ''c'' = Some ''n2''"
  by (simp add: example_log_def Apply_def op_defs apply_claim_def apply_release_def newState_def
      zeroCommand_def Let_def sessionOwner_def nil_lookup_def)

theorem fsm_session_owner_witness:
  "\<exists>st. run_log example_log newState = Some st \<and> sessionOwner st ''c'' = Some ''n2'' \<and>
     (\<exists>pre now e post. example_log = pre @ (now, e) # post \<and> claim_of e = Some (''c'', ''n2''))"
  using example_log_owner fsm_session_owner[of example_log _ "''c''" "''n2''"] by blast

text \<open>C20. No reachable state panics: in every state a replica can reach by applying entries and
  restoring snapshots, any entry can be applied, and the state keeps its invariant (identities only
  for owned sessions, bindings non-empty without duplicates, roles stored under their own name).\<close>

theorem fsm_reachable_total:
  assumes "fsm_reachable st"
  shows "fsm_inv st \<and> (\<exists>st' res. Apply now entry st = Some (st', res) \<and> fsm_inv st')"
  using fsm_reachable_inv[OF assms] by (meson Apply_total)

theorem fsm_reachable_total_witness:
  "fsm_inv newState \<and> (\<exists>st' res. Apply 7 (Some (zeroCommand\<lparr>cmdOp := OpClaimSession\<rparr>)) newState = Some (st', res))"
  using fsm_reachable_total[OF fsm_reachable.init, of 7 "Some (zeroCommand\<lparr>cmdOp := OpClaimSession\<rparr>)"] by blast

text \<open>C25. Revocations are permanent and come only from the log: after any log an identity is
  revoked exactly when it was revoked before or some entry of the log revokes it.\<close>

theorem fsm_revocation_permanent:
  assumes "run_log es st = Some st'"
  shows "isRevoked st' identity \<longleftrightarrow> isRevoked st identity \<or> (\<exists>(now, e)\<in>set es. revoke_of e = Some identity)"
  using isRevoked_run_log[OF assms] by (force simp: image_iff)

theorem fsm_revocation_permanent_witness:
  "\<exists>st'. run_log [(5, Some (zeroCommand\<lparr>cmdOp := OpRevokeCertificate, cmdIdentity := ''d@t''\<rparr>))] newState = Some st' \<and>
         isRevoked st' ''d@t''"
proof -
  let ?es = "[(5, Some (zeroCommand\<lparr>cmdOp := OpRevokeCertificate, cmdIdentity := ''d@t''\<rparr>))]"
  obtain st' where "run_log ?es newState = Some st'"
    using run_log_inv[OF fsm_inv_newState] by blast
  moreover have "revoke_of (snd (hd ?es)) = Some ''d@t''" by (simp add: revoke_of_def op_defs)
  ultimately show ?thesis using fsm_revocation_permanent[of ?es newState st' "''d@t''"] by auto
qed

text \<open>A deleted role is gone for good: after a \<open>delete_role\<close> entry and any further entries that
  do not bind that role again, no principal is bound to it, even when a role of the same name has
  been created again.\<close>

theorem fsm_deleted_role_unbound:
  assumes "cmdOp cmd = OpDeleteRole" "run_log ((now, Some cmd) # es) st = Some st'"
    and "\<not> (\<exists>(t, e)\<in>set es. binds_role (cmdRoleName cmd) e)"
  shows "\<not> (\<exists>p rns. fsm_bindings st' p = Some rns \<and> cmdRoleName cmd \<in> set rns)"
proof -
  from assms(1,2) have run: "run_log es (apply_delete_role cmd st) = Some st'"
    by (simp add: binding_entries)
  have "\<forall>(t, e)\<in>set es. \<not> binds_role (cmdRoleName cmd) e" using assms(3) by auto
  from role_bound_run_log[OF run this] role_bound_delete[of cmd st]
  have "\<not> role_bound st' (cmdRoleName cmd)" by blast
  then show ?thesis by (simp add: role_bound_def)
qed

theorem fsm_deleted_role_unbound_witness:
  "\<exists>st'. run_log [(1, Some (zeroCommand\<lparr>cmdOp := OpDeleteRole, cmdRoleName := ''r''\<rparr>)),
                  (2, Some (zeroCommand\<lparr>cmdOp := OpCreateRole, cmdRoleName := ''r''\<rparr>))]
           (newState\<lparr>fsm_bindings := [''p'' \<mapsto> [''r'']]\<rparr>) = Some st' \<and> \<not> fsm_bindings st' ''p'' = Some [''r'']"
proof -
  let ?d = "zeroCommand\<lparr>cmdOp := OpDeleteRole, cmdRoleName := ''r''\<rparr>"
  let ?es = "[(2, Some (zeroCommand\<lparr>cmdOp := OpCreateRole, cmdRoleName := ''r''\<rparr>))]"
  let ?st = "newState\<lparr>fsm_bindings := [''p'' \<mapsto> [''r'']]\<rparr>"
  have "fsm_inv ?st"
    by (simp add: newState_def fsm_inv_def sessions_ok_def bindings_ok_def rulesets_ok_def roles_ok_def)
  then obtain st' where r: "run_log ((1, Some ?d) # ?es) ?st = Some st'" using run_log_inv by blast
  have "\<not> (\<exists>(t, e)\<in>set ?es. binds_role (cmdRoleName ?d) e)" by (simp add: binds_role_def op_defs)
  from fsm_deleted_role_unbound[OF _ r this] have "\<not> fsm_bindings st' ''p'' = Some [''r'']" by force
  with r show ?thesis by blast
qed

text \<open>C26. Replicas that apply the same entries, each with its own clock, agree on everything but
  the revocation timestamps: the same sessions, roles, bindings, rulesets and Redis primary, and the
  same set of revoked identities.\<close>

theorem fsm_replicas_agree:
  assumes "map snd es = map snd fs" "run_log es newState = Some s"
  shows "\<exists>t. run_log fs newState = Some t \<and> s\<lparr>fsm_revoked := Map.empty\<rparr> = t\<lparr>fsm_revoked := Map.empty\<rparr> \<and>
           (isRevoked s = isRevoked t)"
proof -
  from run_log_same_replica[OF assms(1) same_replica_refl[of newState]] assms(2)
  obtain t where "run_log fs newState = Some t" "same_replica s t"
    by (auto simp: option_rel_Some1)
  moreover from this have "isRevoked s = isRevoked t"
    by (auto simp: isRevoked_def same_replica_def dom_def fun_eq_iff set_eq_iff)
  ultimately show ?thesis by (auto simp: same_replica_def)
qed

theorem fsm_replicas_agree_witness:
  "\<exists>s t. run_log example_log newState = Some s \<and> run_log (map (\<lambda>(n, e). (n + 5, e)) example_log) newState = Some t \<and>
     isRevoked s = isRevoked t"
proof -
  obtain s where s: "run_log example_log newState = Some s" using run_log_inv[OF fsm_inv_newState] by blast
  have "map snd example_log = map snd (map (\<lambda>(n, e). (n + 5, e)) example_log)" by (simp add: case_prod_beta)
  from fsm_replicas_agree[OF this s] s show ?thesis by blast
qed

text \<open>The timestamps do differ: two replicas that apply one revocation at different times
  end in different states, so \<open>Apply\<close> is not deterministic in the log alone.\<close>

theorem fsm_apply_depends_on_clock:
  "run_log [(1, Some (zeroCommand\<lparr>cmdOp := OpRevokeCertificate, cmdIdentity := ''d@t''\<rparr>))] newState \<noteq>
   run_log [(2, Some (zeroCommand\<lparr>cmdOp := OpRevokeCertificate, cmdIdentity := ''d@t''\<rparr>))] newState"
proof -
  have "run_log [(now, Some (zeroCommand\<lparr>cmdOp := OpRevokeCertificate, cmdIdentity := ''d@t''\<rparr>))] newState =
    Some (newState\<lparr>fsm_revoked := [''d@t'' \<mapsto> now]\<rparr>)" for now
    by (simp add: Apply_revoke newState_def)
  then show ?thesis
    by (auto dest!: arg_cong[where f = "\<lambda>st. fsm_revoked st ''d@t''"])
qed

text \<open>C28. A snapshot restores the state it was taken from: persisting the snapshot of a reachable
  state and restoring it into any replica gives exactly that state.\<close>

theorem fsm_snapshot_roundtrip:
  assumes "fsm_reachable st"
  shows "Restore (Some (Persist (Snapshot st))) other = Inr st"
  using Restore_Snapshot fsm_inv_sessions[OF fsm_reachable_inv[OF assms]] by auto

theorem fsm_snapshot_roundtrip_witness:
  "Restore (Some (Persist (Snapshot newState))) (newState\<lparr>fsm_redisPrimary := ''n1''\<rparr>) = Inr newState"
  by (rule fsm_snapshot_roundtrip[OF fsm_reachable.init])

text \<open>C24. Whatever order the map iterations take, the FSM allows an access exactly when a rule of
  an enabled ruleset or of a role bound to the client identifier or the username allows it and none
  denies it; with nothing enabled and nothing bound, everything is denied.\<close>

theorem fsm_evaluateACL_allowed:
  assumes "set rsOrder = dom (fsm_enabledRulesets st)" "set bOrder = dom (fsm_bindings st)"
  shows "Allowed (evaluateACL rsOrder bOrder st clientID username topic action) \<longleftrightarrow>
    (\<exists>r\<in>store_rules (fsm_roles st) (fsm_bindings st) (dom (fsm_enabledRulesets st)) clientID username.
       rule_applies clientID username topic action r \<and> RuleEffect r = EffectAllow) \<and>
    \<not> (\<exists>r\<in>store_rules (fsm_roles st) (fsm_bindings st) (dom (fsm_enabledRulesets st)) clientID username.
       rule_applies clientID username topic action r \<and> RuleEffect r = EffectDeny)"
  using fsm_acl.allowed_iff[of "(rsOrder, bOrder)" st clientID username topic action] assms
  by (auto simp: fsm_orders_def effect_applies_def)

theorem fsm_evaluateACL_allowed_witness:
  "\<not> Allowed (evaluateACL [] [] newState ''c'' ''u'' ''t'' ActionPublish)"
  by (subst fsm_evaluateACL_allowed) (simp_all add: newState_def store_rules_def principal_rules_def)

end
