(* ===== verification/Caches.thy ===== *)
theory Caches
  imports Fsm
begin

text \<open>
  The read caches an edge node keeps of the replicated state: \<open>ACLCache\<close> (\<^verbatim>\<open>acl_cache.go\<close>) and
  \<open>RevocationCache\<close> (\<^verbatim>\<open>revocation_cache.go\<close>). A refresh is one call of the fetch function, whose
  result is an argument; the background loop is the list of the results it has seen. The lemmas show
  that a cache is fail-closed until the first successful fetch and from then on answers like the FSM
  state of the last successful fetch.
\<close>

type_synonym acl_snapshot = "(string \<rightharpoonup> Role) \<times> (string \<rightharpoonup> string list) \<times> string list"

subsection \<open>ACLCache\<close>

record ACLCache =
  ac_interval :: int
  ac_roles :: "string \<rightharpoonup> Role"
  ac_bindings :: "string \<rightharpoonup> string list"
  ac_enabled :: "string list"
  ac_ready :: bool

definition defaultACLCacheInterval :: int where
  "defaultACLCacheInterval = 10000000000"

definition ACLCache_refresh :: "'e + acl_snapshot \<Rightarrow> ACLCache \<Rightarrow> ACLCache" where
  "ACLCache_refresh fetched c =
     (case fetched of
        Inl _ \<Rightarrow> c
      | Inr (roles, bindings, enabled) \<Rightarrow>
          c\<lparr>ac_roles := roles, ac_bindings := bindings, ac_enabled := enabled, ac_ready := True\<rparr>)"

definition NewACLCache :: "'e + acl_snapshot \<Rightarrow> int \<Rightarrow> ACLCache" where
  "NewACLCache fetched interval =
     ACLCache_refresh fetched
       \<lparr>ac_interval = (if interval \<le> 0 then defaultACLCacheInterval else interval),
        ac_roles = Map.empty, ac_bindings = Map.empty, ac_enabled = [], ac_ready = False\<rparr>"

text \<open>\<open>bOrder\<close> is the order of the loop over the cached bindings.\<close>

definition ACLCache_EvaluateACL ::
  "string list \<Rightarrow> ACLCache \<Rightarrow> string \<Rightarrow> string \<Rightarrow> string \<Rightarrow> Action \<Rightarrow> Decision" where
  "ACLCache_EvaluateACL bOrder c clientID username topic action =
     (if \<not> ac_ready c then \<lparr>DecEffect = EffectDeny, DecRule = None\<rparr>
      else Evaluate clientID username topic action (enabled_roles (ac_enabled c))
             (custom_rules bOrder (ac_roles c) (ac_bindings c) clientID username))"

subsection \<open>RevocationCache\<close>

record RevocationCache =
  rc_interval :: int
  rc_revoked :: "string \<rightharpoonup> int"
  rc_ready :: bool

definition RevocationCache_refresh :: "'e + (string \<rightharpoonup> int) \<Rightarrow> RevocationCache \<Rightarrow> RevocationCache" where
  "RevocationCache_refresh fetched c =
     (case fetched of Inl _ \<Rightarrow> c | Inr revoked \<Rightarrow> c\<lparr>rc_revoked := revoked, rc_ready := True\<rparr>)"

definition NewRevocationCache :: "'e + (string \<rightharpoonup> int) \<Rightarrow> int \<Rightarrow> RevocationCache" where
  "NewRevocationCache fetched interval =
     RevocationCache_refresh fetched
       \<lparr>rc_interval = (if interval \<le> 0 then 10000000000 else interval), rc_revoked = Map.empty, rc_ready = False\<rparr>"

definition RevocationCache_IsRevoked :: "RevocationCache \<Rightarrow> string \<Rightarrow> bool" where
  "RevocationCache_IsRevoked c identity =
     (if \<not> rc_ready c then True else rc_revoked c identity \<noteq> None)"

subsection \<open>A cache that has seen a list of fetch results\<close>

definition ACLCache_run :: "int \<Rightarrow> ('e + acl_snapshot) \<Rightarrow> ('e + acl_snapshot) list \<Rightarrow> ACLCache" where
  "ACLCache_run interval first later = fold ACLCache_refresh later (NewACLCache first interval)"

definition RevocationCache_run ::
  "int \<Rightarrow> ('e + (string \<rightharpoonup> int)) \<Rightarrow> ('e + (string \<rightharpoonup> int)) list \<Rightarrow> RevocationCache" where
  "RevocationCache_run interval first later = fold RevocationCache_refresh later (NewRevocationCache first interval)"

definition last_success :: "('e + 'a) list \<Rightarrow> 'a option" where
  "last_success rs = fold (\<lambda>r acc. case r of Inl _ \<Rightarrow> acc | Inr x \<Rightarrow> Some x) rs None"

lemma last_success_snoc:
  "last_success (rs @ [r]) = (case r of Inl _ \<Rightarrow> last_success rs | Inr x \<Rightarrow> Some x)"
  by (cases r) (simp_all add: last_success_def)

lemma last_success_None: "last_success rs = None \<longleftrightarrow> (\<forall>r\<in>set rs. isl r)"
  by (induction rs rule: rev_induct) (auto simp: last_success_snoc last_success_def split: sum.splits)

lemma last_success_last: "last_success (rs @ Inr x # map Inl es) = Some x"
  by (induction es rule: rev_induct)
     (auto simp: last_success_snoc simp flip: append_Cons append_assoc)

definition ACLCache_holds :: "acl_snapshot option \<Rightarrow> ACLCache \<Rightarrow> bool" where
  "ACLCache_holds s c \<longleftrightarrow>
     (case s of None \<Rightarrow> \<not> ac_ready c
      | Some (roles, bindings, enabled) \<Rightarrow>
          ac_ready c \<and> ac_roles c = roles \<and> ac_bindings c = bindings \<and> ac_enabled c = enabled)"

lemma ACLCache_run_holds: "ACLCache_holds (last_success (first # later)) (ACLCache_run interval first later)"
proof (induction later rule: rev_induct)
  case Nil
  then show ?case
    by (auto simp: last_success_def ACLCache_run_def NewACLCache_def ACLCache_refresh_def ACLCache_holds_def
        split: sum.splits)
next
  case (snoc r later)
  then show ?case
    using last_success_snoc[of "first # later" r]
    by (auto simp: ACLCache_run_def ACLCache_refresh_def ACLCache_holds_def split: sum.splits)
qed

lemma RevocationCache_run_holds:
  "case last_success (first # later) of
     None \<Rightarrow> \<not> rc_ready (RevocationCache_run interval first later)
   | Some m \<Rightarrow> rc_ready (RevocationCache_run interval first later) \<and>
                rc_revoked (RevocationCache_run interval first later) = m"
proof (induction later rule: rev_induct)
  case Nil
  then show ?case
    by (auto simp: last_success_def RevocationCache_run_def NewRevocationCache_def RevocationCache_refresh_def
        split: sum.splits)
next
  case (snoc r later)
  then show ?case
    using last_success_snoc[of "first # later" r]
    by (auto simp: RevocationCache_run_def RevocationCache_refresh_def split: sum.splits option.splits)
qed

definition cache_order :: "string list \<Rightarrow> ACLCache \<Rightarrow> bool" where
  "cache_order ord c \<longleftrightarrow> ac_ready c \<and> set ord = dom (ac_bindings c)"

interpretation cache_acl: acl_store
  ACLCache_EvaluateACL cache_order ac_roles ac_bindings "\<lambda>c. set (ac_enabled c)"
proof (unfold_locales, goal_cases)
  case (1 ord c cid u t a)
  then show ?case
    by (intro exI[of _ "enabled_roles (ac_enabled c)"]
        exI[of _ "custom_rules ord (ac_roles c) (ac_bindings c) cid u"])
       (simp add: ACLCache_EvaluateACL_def rules_in_scope_def store_rules_def cache_order_def
         set_custom_rules set_enabled_rules Un_assoc del: set_concat)
qed

lemma enabled_snapshot_set:
  assumes "fsm_inv st" "set order = dom (fsm_enabledRulesets st)"
  shows "set (enabledRulesetsSnapshot order st) = dom (fsm_enabledRulesets st)"
proof -
  have "fsm_enabledRulesets st n = Some True" if "fsm_enabledRulesets st n = Some b" for n b
    using assms(1) that by (cases b) (auto simp: fsm_inv_def rulesets_ok_def)
  with assms(2) show ?thesis by (auto simp: enabledRulesetsSnapshot_def)
qed

definition snapshot_of :: "string list \<Rightarrow> state \<Rightarrow> acl_snapshot" where
  "snapshot_of order st = (rolesSnapshot st, bindingsSnapshot st, enabledRulesetsSnapshot order st)"

lemma cache_agrees:
  assumes "fsm_inv st" "set rsOrder = dom (fsm_enabledRulesets st)" "set bOrder = dom (fsm_bindings st)"
    and "set bOrder' = dom (fsm_bindings st)" "ACLCache_holds (Some (snapshot_of rsOrder st)) c"
  shows "Allowed (ACLCache_EvaluateACL bOrder' c clientID username topic action) =
         Allowed (evaluateACL rsOrder bOrder st clientID username topic action)"
proof -
  from assms(5) have c: "ac_ready c" "ac_roles c = fsm_roles st" "ac_bindings c = fsm_bindings st"
    "ac_enabled c = enabledRulesetsSnapshot rsOrder st"
    by (auto simp: ACLCache_holds_def snapshot_of_def rolesSnapshot_def bindingsSnapshot_def)
  moreover have "set (enabledRulesetsSnapshot rsOrder st) = dom (fsm_enabledRulesets st)"
    using enabled_snapshot_set[OF assms(1,2)] .
  moreover have "cache_order bOrder' c" using c assms(4) by (simp add: cache_order_def)
  moreover have "fsm_orders (rsOrder, bOrder) st" using assms(2,3) by (simp add: fsm_orders_def)
  ultimately show ?thesis
    using cache_acl.allowed_iff[of bOrder' c] fsm_acl.allowed_iff[of "(rsOrder, bOrder)" st] by simp
qed

subsection \<open>Properties\<close>

text \<open>An edge node's access check agrees with the replicated state: a cache whose last
  successful fetch returned the snapshot of a reachable FSM state allows exactly what that state
  allows, whatever fetches failed since and whatever orders the map iterations take.\<close>

theorem ACLCache_agrees_with_fsm:
  assumes "fsm_reachable st" "set rsOrder = dom (fsm_enabledRulesets st)" "set bOrder = dom (fsm_bindings st)"
    and "set bOrder' = dom (fsm_bindings st)"
    and "first # later = fetches @ Inr (snapshot_of rsOrder st) # map Inl errors"
  shows "Allowed (ACLCache_EvaluateACL bOrder' (ACLCache_run interval first later) clientID username topic action) =
         Allowed (evaluateACL rsOrder bOrder st clientID username topic action)"
proof -
  have "ACLCache_holds (Some (snapshot_of rsOrder st)) (ACLCache_run interval first later)"
    using ACLCache_run_holds[of first later interval] assms(5) by (simp add: last_success_last)
  then show ?thesis by (rule cache_agrees[OF fsm_reachable_inv[OF assms(1)] assms(2-4)])
qed

theorem ACLCache_agrees_with_fsm_witness:
  "Allowed (ACLCache_EvaluateACL [] (ACLCache_run 0 (Inr (snapshot_of [] newState)) [Inl ()]) ''c'' ''u'' ''t'' ActionPublish) =
   Allowed (evaluateACL [] [] newState ''c'' ''u'' ''t'' ActionPublish)"
proof -
  have "set [] = dom (fsm_enabledRulesets newState)" "set [] = dom (fsm_bindings newState)"
    by (simp_all add: newState_def)
  then show ?thesis
    by (intro ACLCache_agrees_with_fsm[OF fsm_reachable.init, where fetches = "[]" and errors = "[()]"]) simp_all
qed

text \<open>The caches fail closed: while no fetch has succeeded, the ACL cache denies every access
  and the revocation cache reports every identity revoked; afterwards the revocation cache reports
  exactly the identities revoked in the state of the last successful fetch.\<close>

theorem caches_fail_closed:
  "(last_success (first # later) = None \<longrightarrow>
      \<not> Allowed (ACLCache_EvaluateACL bOrder (ACLCache_run interval first later) clientID username topic action)) \<and>
   (case last_success (rfirst # rlater) of
      None \<Rightarrow> RevocationCache_IsRevoked (RevocationCache_run interval rfirst rlater) identity
    | Some m \<Rightarrow> RevocationCache_IsRevoked (RevocationCache_run interval rfirst rlater) identity = (m identity \<noteq> None))"
  using ACLCache_run_holds[of first later interval] RevocationCache_run_holds[where first = rfirst and later = rlater and interval = interval]
  by (auto simp: ACLCache_holds_def ACLCache_EvaluateACL_def Allowed_def RevocationCache_IsRevoked_def
      split: option.splits)

theorem caches_fail_closed_witness:
  "\<not> Allowed (ACLCache_EvaluateACL [] (ACLCache_run 0 (Inl ()) []) ''c'' ''u'' ''t'' ActionPublish)"
  using caches_fail_closed[where first = "Inl ()" and later = "[]" and interval = 0 and rfirst = "Inl ()" and rlater = "[]"
      and bOrder = "[]" and clientID = "''c''" and username = "''u''" and topic = "''t''" and action = ActionPublish]
  by (simp add: last_success_def)

end
