(* ===== verification/TopicsIndex.thy ===== *)
theory TopicsIndex
  imports Acl "HOL-Library.AList"
begin

text \<open>
  The topic trie of the broker library the gateway ships (\<^verbatim>\<open>thirdparty/mochi-mqtt-server/topics.go\<close>),
  used by the broker for its clients and by the cluster router for its nodes. A Go map held by a
  particle is an association list with distinct keys; the order in which a \<^verbatim>\<open>range\<close> loop visits the
  members of shared groups decides which member is chosen, so it is an argument (\<open>visit\<close>).

  The abstraction \<open>pay\<close> reads a trie as a function from paths to what is stored there. Every
  operation is a point update of that function, and the lookup is described by a matching relation on
  paths, which is compared with the matching of the ACL engine.
\<close>

subsection \<open>Subscriptions\<close>

record Subscription =
  sub_ShareName :: "string list"
  sub_Filter :: string
  sub_Identifier :: int
  sub_Identifiers :: "(string \<rightharpoonup> int) option"
  sub_RetainHandling :: nat
  sub_Qos :: nat
  sub_RetainAsPublished :: bool
  sub_NoLocal :: bool
  sub_FwdRetainedFlag :: bool

definition filter_sub :: "string \<Rightarrow> Subscription" where
  "filter_sub f = \<lparr>sub_ShareName = [], sub_Filter = f, sub_Identifier = 0, sub_Identifiers = None,
     sub_RetainHandling = 0, sub_Qos = 0, sub_RetainAsPublished = False, sub_NoLocal = False,
     sub_FwdRetainedFlag = False\<rparr>"

definition Merge :: "Subscription \<Rightarrow> Subscription \<Rightarrow> Subscription" where
  "Merge s n =
     (let ids = (case sub_Identifiers s of None \<Rightarrow> [sub_Filter s \<mapsto> sub_Identifier s] | Some m \<Rightarrow> m);
          ids = (if sub_Identifier n > 0 then ids(sub_Filter n \<mapsto> sub_Identifier n) else ids) in
      s\<lparr>sub_Identifiers := Some ids,
        sub_Qos := (if sub_Qos n > sub_Qos s then sub_Qos n else sub_Qos s),
        sub_NoLocal := (if sub_NoLocal n then True else sub_NoLocal s)\<rparr>)"

subsection \<open>Particles\<close>

datatype particle =
  Particle (p_children: "(string \<times> particle) list") (p_subs: "(string \<times> Subscription) list")
    (p_shared: "(string \<times> (string \<times> Subscription) list) list") (p_inline: "(int \<times> Subscription) list")
    (p_retain: string)

definition newParticle :: particle where
  "newParticle = Particle [] [] [] [] ''''"

definition with_children :: "((string \<times> particle) list \<Rightarrow> (string \<times> particle) list) \<Rightarrow> particle \<Rightarrow> particle" where
  "with_children f p = Particle (f (p_children p)) (p_subs p) (p_shared p) (p_inline p) (p_retain p)"

definition with_subs :: "((string \<times> Subscription) list \<Rightarrow> (string \<times> Subscription) list) \<Rightarrow> particle \<Rightarrow> particle" where
  "with_subs f p = Particle (p_children p) (f (p_subs p)) (p_shared p) (p_inline p) (p_retain p)"

definition with_shared ::
  "((string \<times> (string \<times> Subscription) list) list \<Rightarrow> (string \<times> (string \<times> Subscription) list) list) \<Rightarrow> particle \<Rightarrow> particle" where
  "with_shared f p = Particle (p_children p) (p_subs p) (f (p_shared p)) (p_inline p) (p_retain p)"

definition with_inline :: "((int \<times> Subscription) list \<Rightarrow> (int \<times> Subscription) list) \<Rightarrow> particle \<Rightarrow> particle" where
  "with_inline f p = Particle (p_children p) (p_subs p) (p_shared p) (f (p_inline p)) (p_retain p)"

definition with_retain :: "string \<Rightarrow> particle \<Rightarrow> particle" where
  "with_retain r p = Particle (p_children p) (p_subs p) (p_shared p) (p_inline p) r"

text \<open>\<open>SharedSubscriptions.Add\<close> and \<open>Delete\<close>.\<close>

definition shared_add ::
  "string \<Rightarrow> string \<Rightarrow> Subscription \<Rightarrow> (string \<times> (string \<times> Subscription) list) list \<Rightarrow> (string \<times> (string \<times> Subscription) list) list" where
  "shared_add grp client val m =
     AList.update grp (AList.update client val (case map_of m grp of None \<Rightarrow> [] | Some g \<Rightarrow> g)) m"

definition shared_delete ::
  "string \<Rightarrow> string \<Rightarrow> (string \<times> (string \<times> Subscription) list) list \<Rightarrow> (string \<times> (string \<times> Subscription) list) list" where
  "shared_delete grp client m =
     (let g = AList.delete client (case map_of m grp of None \<Rightarrow> [] | Some g \<Rightarrow> g) in
      if g = [] then AList.delete grp m else AList.update grp g m)"

definition shared_get :: "string \<Rightarrow> string \<Rightarrow> (string \<times> (string \<times> Subscription) list) list \<Rightarrow> Subscription option" where
  "shared_get grp client m = (case map_of m grp of None \<Rightarrow> None | Some g \<Rightarrow> map_of g client)"

subsection \<open>Addressing\<close>

text \<open>The particle between the \<open>d\<close>-th and the next slash, and whether another one follows.\<close>

fun isolateParticle :: "string \<Rightarrow> nat \<Rightarrow> string \<times> bool" where
  "isolateParticle filt 0 =
     (case cut_first CHR ''/'' filt of Some (a, b) \<Rightarrow> (a, True) | None \<Rightarrow> (filt, False))"
| "isolateParticle filt (Suc d) =
     (case cut_first CHR ''/'' filt of Some (a, b) \<Rightarrow> isolateParticle b d | None \<Rightarrow> (filt, False))"

lemma go_split_cut:
  "go_split c s = (case cut_first c s of Some (a, b) \<Rightarrow> a # go_split c b | None \<Rightarrow> [s])"
proof (cases "cut_first c s")
  case None
  then have "c \<notin> set s"
    by (auto simp: cut_first_def dropWhile_eq_Nil_conv split: list.splits)
  with None show ?thesis by (simp add: go_split_free)
next
  case (Some p)
  obtain a b where p: "p = (a, b)" by (cases p)
  with Some cut_first_SomeD[of c s a b] show ?thesis by (simp add: go_split_append_sep)
qed

lemma isolateParticle_split:
  "isolateParticle filt d =
     (let ps = go_split CHR ''/'' filt in
      if d < length ps then (ps ! d, Suc d < length ps) else (last ps, False))"
proof (induction filt d rule: isolateParticle.induct)
  case (1 filt)
  then show ?case
    by (subst go_split_cut) (auto simp: Let_def split: option.splits)
next
  case (2 filt d)
  show ?case
  proof (cases "cut_first CHR ''/'' filt")
    case None
    then show ?thesis by (subst go_split_cut) simp
  next
    case (Some p)
    obtain a b where p: "p = (a, b)" by (cases p)
    with Some have "go_split CHR ''/'' filt = a # go_split CHR ''/'' b" by (subst go_split_cut) simp
    with Some p 2 show ?thesis by (auto simp: Let_def)
  qed
qed

text \<open>The keys the loops of \<open>set\<close> and \<open>seek\<close> walk from depth \<open>d\<close>.\<close>

function index_path :: "string \<Rightarrow> nat \<Rightarrow> string list" where
  "index_path filt d =
     (case isolateParticle filt d of (key, hasNext) \<Rightarrow>
        if hasNext then key # index_path filt (Suc d) else [key])"
  by pat_completeness auto
termination
  by (relation "measure (\<lambda>(filt, d). length (go_split CHR ''/'' filt) - d)")
     (auto simp: isolateParticle_split Let_def split: if_splits)

declare index_path.simps [simp del]

lemma index_path_drop:
  "d < length (go_split CHR ''/'' filt) \<Longrightarrow> index_path filt d = drop d (go_split CHR ''/'' filt)"
proof (induction filt d rule: index_path.induct)
  case (1 filt d)
  let ?ps = "go_split CHR ''/'' filt"
  have d: "drop d ?ps = ?ps ! d # drop (Suc d) ?ps" using 1(2) by (simp add: Cons_nth_drop_Suc)
  have i: "isolateParticle filt d = (?ps ! d, Suc d < length ?ps)"
    using 1(2) by (simp add: isolateParticle_split Let_def)
  show ?case
  proof (cases "Suc d < length ?ps")
    case True
    with 1(1) i d show ?thesis by (subst index_path.simps) simp
  next
    case False
    with 1(2) i d show ?thesis by (subst index_path.simps) simp
  qed
qed

lemma index_path_0 [simp]: "index_path filt 0 = go_split CHR ''/'' filt"
  by (simp add: index_path_drop)

fun set_path :: "string list \<Rightarrow> (particle \<Rightarrow> particle) \<Rightarrow> particle \<Rightarrow> particle" where
  "set_path [] f n = f n"
| "set_path (key # ks) f n =
     with_children (AList.update key
        (set_path ks f (case map_of (p_children n) key of None \<Rightarrow> newParticle | Some p \<Rightarrow> p))) n"

fun seek :: "string list \<Rightarrow> particle \<Rightarrow> particle option" where
  "seek [] n = Some n"
| "seek (key # ks) n = (case map_of (p_children n) key of None \<Rightarrow> None | Some p \<Rightarrow> seek ks p)"

definition is_empty_particle :: "particle \<Rightarrow> bool" where
  "is_empty_particle n \<longleftrightarrow>
     p_retain n = '''' \<and> p_children n = [] \<and> p_subs n = [] \<and> p_shared n = [] \<and> p_inline n = []"

text \<open>\<open>trim\<close> deletes the particle at the end of a path if it is empty, then its parent if that
  became empty, and so on up to the root, which stays.\<close>

fun trim :: "string list \<Rightarrow> particle \<Rightarrow> particle" where
  "trim [] n = n"
| "trim (key # ks) n =
     (case map_of (p_children n) key of
        None \<Rightarrow> n
      | Some p \<Rightarrow>
          let p' = trim ks p in
          if is_empty_particle p' then with_children (AList.delete key) n
          else with_children (AList.update key p') n)"

subsection \<open>The index\<close>

record Packet =
  pk_TopicName :: string
  pk_Payload :: string
  pk_Retain :: bool

record TopicsIndex =
  x_Retained :: "(string \<times> Packet) list"
  x_root :: particle

definition NewTopicsIndex :: TopicsIndex where
  "NewTopicsIndex = \<lparr>x_Retained = [], x_root = newParticle\<rparr>"

definition SharePrefix :: string where "SharePrefix = ''$SHARE''"

definition is_share :: "string \<Rightarrow> bool" where
  "is_share filt = equal_fold_ascii (fst (isolateParticle filt 0)) SharePrefix"

definition Subscribe :: "string \<Rightarrow> Subscription \<Rightarrow> TopicsIndex \<Rightarrow> TopicsIndex \<times> bool" where
  "Subscribe client subscription x =
     (if is_share (sub_Filter subscription) then
        let grp = fst (isolateParticle (sub_Filter subscription) 1);
            path = index_path (sub_Filter subscription) 2;
            existed = (case seek path (x_root x) of None \<Rightarrow> False
                       | Some n \<Rightarrow> shared_get grp client (p_shared n) \<noteq> None) in
        (x\<lparr>x_root := set_path path (with_shared (shared_add grp client subscription)) (x_root x)\<rparr>, \<not> existed)
      else
        let path = index_path (sub_Filter subscription) 0;
            existed = (case seek path (x_root x) of None \<Rightarrow> False
                       | Some n \<Rightarrow> map_of (p_subs n) client \<noteq> None) in
        (x\<lparr>x_root := set_path path (with_subs (AList.update client subscription)) (x_root x)\<rparr>, \<not> existed))"

definition Unsubscribe :: "string \<Rightarrow> string \<Rightarrow> TopicsIndex \<Rightarrow> TopicsIndex \<times> bool" where
  "Unsubscribe filt client x =
     (let shareSub = is_share filt;
          path = index_path filt (if shareSub then 2 else 0) in
      if seek path (x_root x) = None then (x, False)
      else
        let grp = fst (isolateParticle filt 1);
            root = (if shareSub then set_path path (with_shared (shared_delete grp client)) (x_root x)
                    else set_path path (with_subs (AList.delete client)) (x_root x)) in
        (x\<lparr>x_root := trim path root\<rparr>, True))"

definition InlineSubscribe :: "Subscription \<Rightarrow> TopicsIndex \<Rightarrow> TopicsIndex \<times> bool" where
  "InlineSubscribe subscription x =
     (let path = index_path (sub_Filter subscription) 0;
          existed = (case seek path (x_root x) of None \<Rightarrow> False
                     | Some n \<Rightarrow> map_of (p_inline n) (sub_Identifier subscription) \<noteq> None) in
      (x\<lparr>x_root := set_path path (with_inline (AList.update (sub_Identifier subscription) subscription)) (x_root x)\<rparr>,
       \<not> existed))"

definition InlineUnsubscribe :: "int \<Rightarrow> string \<Rightarrow> TopicsIndex \<Rightarrow> TopicsIndex \<times> bool" where
  "InlineUnsubscribe ident filt x =
     (let path = index_path filt 0 in
      case seek path (x_root x) of
        None \<Rightarrow> (x, False)
      | Some n \<Rightarrow>
          let root = set_path path (with_inline (AList.delete ident)) (x_root x) in
          if AList.delete ident (p_inline n) = [] then (x\<lparr>x_root := trim path root\<rparr>, True)
          else (x\<lparr>x_root := root\<rparr>, True))"

definition RetainMessage :: "Packet \<Rightarrow> TopicsIndex \<Rightarrow> TopicsIndex \<times> int" where
  "RetainMessage pk x =
     (let path = index_path (pk_TopicName pk) 0 in
      if pk_Payload pk \<noteq> '''' then
        (x\<lparr>x_root := set_path path (with_retain (pk_TopicName pk)) (x_root x),
           x_Retained := AList.update (pk_TopicName pk) pk (x_Retained x)\<rparr>, 1)
      else
        let out = (case map_of (x_Retained x) (pk_TopicName pk) of
                     Some pke \<Rightarrow> if pk_Payload pke \<noteq> '''' \<and> pk_Retain pke then -1 else 0
                   | None \<Rightarrow> 0) in
        (x\<lparr>x_root := trim path (set_path path (with_retain '''') (x_root x)),
           x_Retained := AList.delete (pk_TopicName pk) (x_Retained x)\<rparr>, out))"

subsection \<open>Lookups\<close>

text \<open>The particles \<open>scanSubscribers\<close> gathers from, in order. Each entry is the particle whose
  subscriptions and shared subscriptions are gathered, with the particle whose inline subscriptions
  are gathered at that point: for the \<open>#\<close> child of the last level the code gathers the inline
  subscriptions of its parent.\<close>

definition hash_child :: "particle \<Rightarrow> (particle \<times> particle) list" where
  "hash_child n = (case map_of (p_children n) ''#'' of None \<Rightarrow> [] | Some p \<Rightarrow> [(p, p)])"

definition last_level :: "string \<Rightarrow> particle \<Rightarrow> (particle \<times> particle) list" where
  "last_level partKey n =
     (case map_of (p_children n) partKey of
        None \<Rightarrow> []
      | Some p \<Rightarrow> (p, p) #
          (case map_of (p_children p) ''#'' of
             Some wild \<Rightarrow> if partKey \<noteq> ''+'' then [(wild, p)] else []
           | None \<Rightarrow> []))"

fun scan :: "string list \<Rightarrow> particle \<Rightarrow> (particle \<times> particle) list" where
  "scan [] n = []"
| "scan [key] n = last_level key n @ last_level ''+'' n @ hash_child n"
| "scan (key # k # ks) n =
     (case map_of (p_children n) key of None \<Rightarrow> [] | Some p \<Rightarrow> scan (k # ks) p) @
     (case map_of (p_children n) ''+'' of None \<Rightarrow> [] | Some p \<Rightarrow> scan (k # ks) p) @ hash_child n"

definition scanSubscribers :: "string \<Rightarrow> TopicsIndex \<Rightarrow> (particle \<times> particle) list" where
  "scanSubscribers topic x = (if topic = '''' then [] else scan (index_path topic 0) (x_root x))"

text \<open>A subscription with a top-level wildcard does not match a \<open>$\<close>-topic.\<close>

definition dollar_skip :: "string \<Rightarrow> Subscription \<Rightarrow> bool" where
  "dollar_skip topic sub \<longleftrightarrow>
     sub_Filter sub \<noteq> '''' \<and> hd topic = CHR ''$'' \<and>
     (hd (sub_Filter sub) = CHR ''+'' \<or> hd (sub_Filter sub) = CHR ''#'')"

record Subscribers =
  s_Shared :: "(string \<times> (string \<times> Subscription) list) list"
  s_SharedSelected :: "string \<rightharpoonup> Subscription"
  s_SharedSelectedGroups :: "string \<rightharpoonup> string"
  s_Subscriptions :: "string \<rightharpoonup> Subscription"
  s_Inline :: "int \<rightharpoonup> Subscription"

definition gatherSubscriptions :: "string \<Rightarrow> particle \<Rightarrow> Subscribers \<Rightarrow> Subscribers" where
  "gatherSubscriptions topic p subs =
     fold (\<lambda>(client, sub) subs.
        if dollar_skip topic sub then subs
        else
          let cls = (case s_Subscriptions subs client of None \<Rightarrow> sub | Some c \<Rightarrow> c) in
          subs\<lparr>s_Subscriptions := (s_Subscriptions subs)(client \<mapsto> Merge cls sub)\<rparr>) (p_subs p) subs"

definition gatherSharedSubscriptions :: "particle \<Rightarrow> Subscribers \<Rightarrow> Subscribers" where
  "gatherSharedSubscriptions p subs =
     fold (\<lambda>(client, sub) subs.
        subs\<lparr>s_Shared := AList.update (sub_Filter sub)
          (AList.update client sub (case map_of (s_Shared subs) (sub_Filter sub) of None \<Rightarrow> [] | Some m \<Rightarrow> m))
          (s_Shared subs)\<rparr>) (concat (map snd (p_shared p))) subs"

definition gatherInlineSubscriptions :: "particle \<Rightarrow> Subscribers \<Rightarrow> Subscribers" where
  "gatherInlineSubscriptions p subs =
     fold (\<lambda>(ident, inline) subs. subs\<lparr>s_Inline := (s_Inline subs)(ident \<mapsto> inline)\<rparr>) (p_inline p) subs"

definition no_subscribers :: Subscribers where
  "no_subscribers = \<lparr>s_Shared = [], s_SharedSelected = Map.empty, s_SharedSelectedGroups = Map.empty,
     s_Subscriptions = Map.empty, s_Inline = Map.empty\<rparr>"

definition Subscribers_of :: "string \<Rightarrow> TopicsIndex \<Rightarrow> Subscribers" where
  "Subscribers_of topic x =
     fold (\<lambda>(p, q) subs. gatherInlineSubscriptions q (gatherSharedSubscriptions p (gatherSubscriptions topic p subs)))
       (scanSubscribers topic x) no_subscribers"

text \<open>\<open>SelectShared\<close> takes the first member its loop meets in each group (\<open>visit\<close>).\<close>

definition SelectShared ::
  "((string \<times> Subscription) list \<Rightarrow> (string \<times> Subscription) list) \<Rightarrow> Subscribers \<Rightarrow> Subscribers" where
  "SelectShared visit s =
     fold (\<lambda>(grp, subs) s.
        (case visit subs of
           [] \<Rightarrow> s
         | (client, sub) # _ \<Rightarrow>
             let cls = (case s_SharedSelected s client of None \<Rightarrow> sub | Some c \<Rightarrow> c) in
             s\<lparr>s_SharedSelectedGroups := (s_SharedSelectedGroups s)(grp \<mapsto> client),
               s_SharedSelected := (s_SharedSelected s)(client \<mapsto> Merge cls sub)\<rparr>))
       (s_Shared s) (s\<lparr>s_SharedSelected := Map.empty, s_SharedSelectedGroups := Map.empty\<rparr>)"

definition MergeSharedSelected :: "Subscribers \<Rightarrow> Subscribers" where
  "MergeSharedSelected s =
     s\<lparr>s_Subscriptions := (\<lambda>client.
        case s_SharedSelected s client of
          None \<Rightarrow> s_Subscriptions s client
        | Some sub \<Rightarrow> Some (Merge (case s_Subscriptions s client of None \<Rightarrow> sub | Some c \<Rightarrow> c) sub))\<rparr>"

subsection \<open>The routing query\<close>

datatype routingSharedChoice = ChoiceLocal | ChoiceClient string

record routingSubscribers =
  rs_nodes :: "string set"
  rs_choices :: "(string \<times> routingSharedChoice) list"

definition routing_gather :: "string \<Rightarrow> particle \<Rightarrow> string set" where
  "routing_gather topic p = fst ` {(client, sub) \<in> set (p_subs p). \<not> dollar_skip topic sub}"

definition choose_member ::
  "string \<Rightarrow> string \<times> Subscription \<Rightarrow> (string \<times> routingSharedChoice) list \<Rightarrow> (string \<times> routingSharedChoice) list" where
  "choose_member local cs choices =
     (case cs of (client, sub) \<Rightarrow>
        if local \<noteq> '''' \<and> client = local then AList.update (sub_Filter sub) ChoiceLocal choices
        else if map_of choices (sub_Filter sub) = None then AList.update (sub_Filter sub) (ChoiceClient client) choices
        else choices)"

definition members :: "particle \<Rightarrow> (string \<times> Subscription) list" where
  "members p = concat (map snd (p_shared p))"

definition routing_scan ::
  "((string \<times> Subscription) list \<Rightarrow> (string \<times> Subscription) list) \<Rightarrow> string \<Rightarrow> string \<Rightarrow> TopicsIndex \<Rightarrow> routingSubscribers" where
  "routing_scan visit topic local x =
     fold (\<lambda>(p, q) r.
        \<lparr>rs_nodes = rs_nodes r \<union> routing_gather topic p,
         rs_choices = fold (choose_member local) (visit (members p)) (rs_choices r)\<rparr>)
       (scanSubscribers topic x) \<lparr>rs_nodes = {}, rs_choices = []\<rparr>"

definition choice_targets :: "(string \<times> routingSharedChoice) list \<Rightarrow> string set" where
  "choice_targets choices = {client. ChoiceClient client \<in> snd ` set choices}"

definition SubscriberIDs ::
  "((string \<times> Subscription) list \<Rightarrow> (string \<times> Subscription) list) \<Rightarrow> string \<Rightarrow> string \<Rightarrow> TopicsIndex \<Rightarrow> string set" where
  "SubscriberIDs visit topic local x =
     (let r = routing_scan visit topic local x in rs_nodes r \<union> choice_targets (rs_choices r))"

definition SubscriberRoutingPlan ::
  "((string \<times> Subscription) list \<Rightarrow> (string \<times> Subscription) list) \<Rightarrow> string \<Rightarrow> string \<Rightarrow> TopicsIndex \<Rightarrow>
   string set \<times> (string \<rightharpoonup> string)" where
  "SubscriberRoutingPlan visit topic local x =
     (let r = routing_scan visit topic local x in
      (rs_nodes r \<union> choice_targets (rs_choices r),
       \<lambda>filt. case map_of (rs_choices r) filt of
          None \<Rightarrow> None
        | Some ChoiceLocal \<Rightarrow> Some local
        | Some (ChoiceClient client) \<Rightarrow> Some client))"

subsection \<open>Filter validity\<close>

definition IsSharedFilter :: "string \<Rightarrow> bool" where
  "IsSharedFilter filt = equal_fold_ascii (fst (isolateParticle filt 0)) SharePrefix"

definition SysPrefix :: string where "SysPrefix = ''$SYS''"

definition IsValidFilter :: "string \<Rightarrow> bool \<Rightarrow> bool" where
  "IsValidFilter filt forPublish =
     (if \<not> forPublish \<and> filt = '''' then False
      else if forPublish \<and> length filt \<ge> length SysPrefix \<and>
              equal_fold_ascii (take (length SysPrefix) filt) SysPrefix then False
      else if forPublish \<and> (CHR ''+'' \<in> set filt \<or> CHR ''#'' \<in> set filt) then False
      else if CHR ''#'' \<in> set (butlast filt) then False
      else
        let (prefix, hasNext) = isolateParticle filt 0 in
        if \<not> hasNext \<and> equal_fold_ascii prefix SharePrefix then False
        else if hasNext \<and> equal_fold_ascii prefix SharePrefix then
          let (grp, hasNext') = isolateParticle filt 1 in
          if \<not> hasNext' then False
          else if CHR ''+'' \<in> set grp \<or> CHR ''#'' \<in> set grp then False
          else True
        else True)"

subsection \<open>Reading a trie as a function from paths\<close>

type_synonym payload =
  "(string \<times> Subscription) list \<times> (string \<times> (string \<times> Subscription) list) list \<times> (int \<times> Subscription) list \<times> string"

definition payload_of :: "particle \<Rightarrow> payload" where
  "payload_of p = (p_subs p, p_shared p, p_inline p, p_retain p)"

definition content :: "particle \<Rightarrow> string list \<Rightarrow> particle" where
  "content p path = (case seek path p of None \<Rightarrow> newParticle | Some q \<Rightarrow> q)"

definition pay :: "particle \<Rightarrow> string list \<Rightarrow> payload" where
  "pay p path = payload_of (content p path)"

definition keeps_children :: "(particle \<Rightarrow> particle) \<Rightarrow> bool" where
  "keeps_children f \<longleftrightarrow> (\<forall>p. p_children (f p) = p_children p)"

lemma particle_fields [simp]:
  "p_children (with_children g p) = g (p_children p)" "payload_of (with_children g p) = payload_of p"
  "p_subs (with_children g p) = p_subs p" "p_shared (with_children g p) = p_shared p"
  "p_inline (with_children g p) = p_inline p" "p_retain (with_children g p) = p_retain p"
  "p_children newParticle = []" "payload_of newParticle = ([], [], [], '''')"
  "p_subs newParticle = []" "p_shared newParticle = []"
  by (simp_all add: with_children_def newParticle_def payload_of_def)

lemma keeps_children_ops [simp]:
  "keeps_children (with_subs g)" "keeps_children (with_shared h)" "keeps_children (with_inline i)"
  "keeps_children (with_retain r)"
  by (simp_all add: keeps_children_def with_subs_def with_shared_def with_inline_def with_retain_def)

lemma payload_ops [simp]:
  "payload_of (with_subs g p) = (g (p_subs p), p_shared p, p_inline p, p_retain p)"
  "payload_of (with_shared h p) = (p_subs p, h (p_shared p), p_inline p, p_retain p)"
  "payload_of (with_inline i p) = (p_subs p, p_shared p, i (p_inline p), p_retain p)"
  "payload_of (with_retain r p) = (p_subs p, p_shared p, p_inline p, r)"
  by (simp_all add: payload_of_def with_subs_def with_shared_def with_inline_def with_retain_def)

lemma content_Nil [simp]: "content p [] = p"
  by (simp add: content_def)

lemma content_new [simp]: "content newParticle path = newParticle"
  by (cases path) (simp_all add: content_def)

lemma content_Cons:
  "content p (k # ks) =
     content (case map_of (p_children p) k of None \<Rightarrow> newParticle | Some c \<Rightarrow> c) ks"
proof (cases "map_of (p_children p) k")
  case None
  then have "content p (k # ks) = newParticle" by (simp add: content_def)
  with None show ?thesis by simp
qed (simp add: content_def)

lemma pay_Cons: "pay p (k # ks) = pay (case map_of (p_children p) k of None \<Rightarrow> newParticle | Some c \<Rightarrow> c) ks"
  by (simp add: pay_def content_Cons)

lemma pay_set_path:
  "keeps_children f \<Longrightarrow> pay (set_path path f p) = (pay p)(path := payload_of (f (content p path)))"
proof (induction path arbitrary: p)
  case Nil
  show ?case
  proof
    fix path'
    show "pay (set_path [] f p) path' = ((pay p)([] := payload_of (f (content p [])))) path'"
      using Nil by (cases path') (simp_all add: pay_def content_Cons keeps_children_def)
  qed
next
  case (Cons k ks)
  show ?case
  proof
    fix path'
    show "pay (set_path (k # ks) f p) path' = ((pay p)(k # ks := payload_of (f (content p (k # ks))))) path'"
    proof (cases path')
      case Nil
      then show ?thesis by (simp add: pay_def)
    next
      case (Cons k' ks')
      with Cons.IH[OF Cons.prems] show ?thesis
        by (simp add: pay_Cons content_Cons update_conv')
    qed
  qed
qed

lemma empty_particle_pay: "is_empty_particle p \<Longrightarrow> pay p path = ([], [], [], '''')"
proof (cases path)
  case (Cons k ks)
  assume "is_empty_particle p"
  with Cons have "content p path = newParticle" by (simp add: is_empty_particle_def content_Cons)
  then show ?thesis by (simp add: pay_def)
qed (simp add: is_empty_particle_def pay_def payload_of_def)

lemma pay_new [simp]: "pay newParticle path = ([], [], [], [])"
  by (simp add: pay_def)

lemma pay_trim [simp]: "pay (trim path p) = pay p"
proof (induction path arbitrary: p)
  case (Cons k ks)
  show ?case
  proof (cases "map_of (p_children p) k")
    case (Some c)
    show ?thesis
    proof
      fix path'
      show "pay (trim (k # ks) p) path' = pay p path'"
      proof (cases path')
        case Nil
        with Some show ?thesis by (simp add: pay_def Let_def)
      next
        case (Cons k' ks')
        show ?thesis
        proof (cases "is_empty_particle (trim ks c)")
          case True
          from empty_particle_pay[OF this, of ks'] Cons.IH[of c]
          have "pay c ks' = ([], [], [], '''')" by simp
          with True Some Cons show ?thesis
            by (simp add: pay_Cons Let_def delete_conv')
        next
          case False
          with Some Cons Cons.IH[of c] show ?thesis by (simp add: pay_Cons Let_def update_conv')
        qed
      qed
    qed
  qed simp
qed simp

subsection \<open>Well-formed tries\<close>

definition groups_ok :: "(string \<times> (string \<times> Subscription) list) list \<Rightarrow> bool" where
  "groups_ok m \<longleftrightarrow> distinct (map fst m) \<and> (\<forall>g\<in>snd ` set m. g \<noteq> [] \<and> distinct (map fst g))"

definition payload_ok :: "particle \<Rightarrow> bool" where
  "payload_ok p \<longleftrightarrow> distinct (map fst (p_subs p)) \<and> groups_ok (p_shared p) \<and> distinct (map fst (p_inline p))"

text \<open>Keys are distinct everywhere and no particle but the root is empty.\<close>

fun wf_node :: "particle \<Rightarrow> bool" where
  "wf_node (Particle ch s sh i r) \<longleftrightarrow>
     payload_ok (Particle ch s sh i r) \<and> distinct (map fst ch) \<and>
     (\<forall>kc\<in>set ch. \<not> is_empty_particle (snd kc) \<and> wf_node (snd kc))"

lemma wf_node_iff:
  "wf_node p \<longleftrightarrow> payload_ok p \<and> distinct (map fst (p_children p)) \<and>
     (\<forall>k c. map_of (p_children p) k = Some c \<longrightarrow> \<not> is_empty_particle c \<and> wf_node c)"
  by (cases p) (auto simp: Ball_def)

lemma payload_ok_children [simp]: "payload_ok (with_children g p) = payload_ok p"
  by (simp add: payload_ok_def)

lemma wf_new [simp]: "wf_node newParticle"
  by (simp add: newParticle_def payload_ok_def groups_ok_def)

lemma wf_update_child:
  assumes "wf_node p" "wf_node c" "\<not> is_empty_particle c"
  shows "wf_node (with_children (AList.update k c) p)"
  using assms
  by (subst wf_node_iff) (auto simp: wf_node_iff[of p] distinct_update update_conv' split: if_splits)

lemma wf_delete_child: "wf_node p \<Longrightarrow> wf_node (with_children (AList.delete k) p)"
  by (subst wf_node_iff) (auto simp: wf_node_iff[of p] distinct_delete delete_conv' split: if_splits)

lemma wf_child:
  "wf_node p \<Longrightarrow> wf_node (case map_of (p_children p) k of None \<Rightarrow> newParticle | Some c \<Rightarrow> c)"
  by (simp add: wf_node_iff[of p] split: option.split)

lemma set_path_not_empty:
  "(\<And>q. \<not> is_empty_particle (f q)) \<Longrightarrow> \<not> is_empty_particle (set_path path f p)"
  by (cases path) (auto simp: is_empty_particle_def AList.update_nonempty)

lemma wf_set_path:
  assumes "wf_node p" "\<And>q. wf_node q \<Longrightarrow> wf_node (f q)" "\<And>q. \<not> is_empty_particle (f q)"
  shows "wf_node (set_path path f p)"
  using assms(1)
proof (induction path arbitrary: p)
  case Nil
  with assms show ?case by simp
next
  case (Cons k ks)
  from Cons.IH[OF wf_child[OF Cons.prems]] Cons.prems assms(3) show ?case
    by (auto intro!: wf_update_child set_path_not_empty)
qed

lemma wf_trim_set_path:
  assumes "wf_node p" "\<And>q. wf_node q \<Longrightarrow> wf_node (f q)"
  shows "wf_node (trim path (set_path path f p))"
  using assms(1)
proof (induction path arbitrary: p)
  case Nil
  with assms show ?case by simp
next
  case (Cons k ks)
  let ?c = "set_path ks f (case map_of (p_children p) k of None \<Rightarrow> newParticle | Some c \<Rightarrow> c)"
  from Cons.IH[OF wf_child[OF Cons.prems]] have wf: "wf_node (trim ks ?c)" .
  have del: "AList.delete k (AList.update k c xs) = AList.delete k xs" for c :: particle and xs
    by (induction xs) auto
  have upd: "AList.update k d (AList.update k c xs) = AList.update k d xs" for c d :: particle and xs
    by (induction xs) auto
  have D: "with_children (AList.delete k) (with_children (AList.update k c) p) = with_children (AList.delete k) p" for c
    by (simp add: with_children_def del)
  have U: "with_children (AList.update k d) (with_children (AList.update k c) p) = with_children (AList.update k d) p" for c d
    by (simp add: with_children_def upd)
  from wf Cons.prems show ?case
    by (auto simp: Let_def update_conv' D U intro: wf_delete_child wf_update_child)
qed

lemma wf_no_leak:
  assumes "wf_node p" "\<And>path. path \<noteq> [] \<Longrightarrow> pay p path = ([], [], [], '''')"
  shows "p_children p = []"
  using assms
proof (induction p rule: wf_node.induct)
  case (1 ch s sh i r)
  show ?case
  proof (rule ccontr)
    assume "p_children (Particle ch s sh i r) \<noteq> []"
    then obtain k c where kc: "(k, c) \<in> set ch" by (cases ch) auto
    then have m: "map_of ch k = Some c" using 1(2) by simp
    then have "\<And>path. pay c path = pay (Particle ch s sh i r) (k # path)" by (simp add: pay_Cons)
    then have e: "\<And>path. pay c path = ([], [], [], '''')" using 1(3) by simp
    moreover have "wf_node c" "\<not> is_empty_particle c" using 1(2) kc by auto
    ultimately have "p_children c = []" using 1(1)[OF kc] by simp
    with e[of "[]"] \<open>\<not> is_empty_particle c\<close> show False
      by (simp add: is_empty_particle_def pay_def payload_of_def)
  qed
qed

subsection \<open>Which paths a lookup gathers from\<close>

text \<open>The relation between a stored path and the levels of a topic that the scan computes: the \<open>#\<close>
  after the last level counts only when that level was not matched by \<open>+\<close>.\<close>

fun scan_match :: "string list \<Rightarrow> string list \<Rightarrow> bool" where
  "scan_match (f # fs) (t # ts) =
     ((f = ''#'' \<and> fs = []) \<or>
      ((f = t \<or> f = ''+'') \<and>
       (if ts = [] then fs = [] \<or> (fs = [''#''] \<and> f \<noteq> ''+'') else scan_match fs ts)))"
| "scan_match _ _ = False"

lemma fst_hash_child:
  "q \<in> fst ` set (hash_child n) \<longleftrightarrow> seek [''#''] n = Some q"
  by (auto simp: hash_child_def split: option.splits)

lemma fst_last_level:
  "q \<in> fst ` set (last_level k n) \<longleftrightarrow>
     seek [k] n = Some q \<or> (k \<noteq> ''+'' \<and> seek [k, ''#''] n = Some q)"
  by (cases "map_of (p_children n) k"; cases "map_of (p_children (the (map_of (p_children n) k))) ''#''")
     (auto simp: last_level_def)

lemma seek_Cons_iff: "seek (k # ks) n = Some q \<longleftrightarrow> (\<exists>p. map_of (p_children n) k = Some p \<and> seek ks p = Some q)"
  by (auto split: option.splits)

lemma scan_match_single:
  "scan_match path [t] \<longleftrightarrow>
     path = [t] \<or> path = [''+''] \<or> path = [''#''] \<or> (path = [t, ''#''] \<and> t \<noteq> ''+'')"
  by (cases path) auto

lemma scan_match_Cons2:
  "scan_match path (t # t' # ts) \<longleftrightarrow>
     path = [''#''] \<or> (\<exists>f fs. path = f # fs \<and> (f = t \<or> f = ''+'') \<and> scan_match fs (t' # ts))"
  by (cases path) auto

lemma scan_iff:
  "q \<in> fst ` set (scan ts n) \<longleftrightarrow> (\<exists>path. scan_match path ts \<and> seek path n = Some q)"
proof (induction ts n rule: scan.induct)
  case (1 n)
  have "\<not> scan_match path []" for path by (cases path) auto
  then show ?case by simp
next
  case (2 key n)
  have "q \<in> fst ` set (scan [key] n) \<longleftrightarrow>
    seek [key] n = Some q \<or> (key \<noteq> ''+'' \<and> seek [key, ''#''] n = Some q) \<or> seek [''+''] n = Some q \<or>
    seek [''#''] n = Some q"
    using fst_last_level[of q key n] fst_last_level[of q "''+''" n] fst_hash_child[of q n]
    by (simp add: image_Un del: seek.simps)
  then show ?case by (auto simp: scan_match_single simp del: seek.simps)
next
  case (3 key k ks n)
  have child: "q \<in> fst ` set (case map_of (p_children n) x of None \<Rightarrow> [] | Some p \<Rightarrow> scan (k # ks) p) \<longleftrightarrow>
    (\<exists>path. scan_match path (k # ks) \<and> seek (x # path) n = Some q)" if "x = key \<or> x = ''+''" for x
  proof (cases "map_of (p_children n) x")
    case (Some p)
    with that 3(1)[of p] 3(2)[of p] show ?thesis by auto
  qed simp
  have "q \<in> fst ` set (scan (key # k # ks) n) \<longleftrightarrow>
    (\<exists>path. scan_match path (k # ks) \<and> seek (key # path) n = Some q) \<or>
    (\<exists>path. scan_match path (k # ks) \<and> seek (''+'' # path) n = Some q) \<or> seek [''#''] n = Some q"
    using child[of key] child[of "''+''"] fst_hash_child[of q n]
    by (simp add: image_Un del: seek.simps)
  then show ?case by (auto simp: scan_match_Cons2 simp del: seek.simps)
qed

text \<open>On a topic without wildcard levels this is the matching of the ACL engine, except for a filter
  that ends in \<open>+/#\<close> at the level of its \<open>+\<close>.\<close>

lemma levels_match_Cons:
  "f \<noteq> ''#'' \<Longrightarrow> levels_match (f # fs) (t # ts) \<longleftrightarrow> level_match f t \<and> levels_match fs ts"
  by (simp flip: match_segments_iff add: level_match_def)

lemma levels_match_hash: "levels_match (''#'' # fs) ts \<longleftrightarrow> fs = []"
  by (simp flip: match_segments_iff)

lemma levels_match_Nil: "levels_match fs [] \<longleftrightarrow> fs = [] \<or> fs = [''#'']"
  by (cases fs) (auto simp flip: match_segments_iff split: if_splits)

definition plus_parent :: "string list \<Rightarrow> string list \<Rightarrow> bool" where
  "plus_parent fs ts \<longleftrightarrow> (\<exists>gs. fs = gs @ [''+'', ''#''] \<and> length ts = Suc (length gs))"

lemma plus_parent_Cons:
  "plus_parent (f # fs) (t # ts) \<longleftrightarrow> (f = ''+'' \<and> fs = [''#''] \<and> ts = []) \<or> plus_parent fs ts"
  by (auto simp: plus_parent_def Cons_eq_append_conv append_eq_Cons_conv)

lemma plus_parent_Nil [simp]: "\<not> plus_parent fs []"
  by (simp add: plus_parent_def)

lemma scan_match_iff:
  assumes "ts \<noteq> []" "''#'' \<notin> set ts"
  shows "scan_match fs ts \<longleftrightarrow> levels_match fs ts \<and> \<not> plus_parent fs ts"
  using assms
proof (induction fs ts rule: scan_match.induct)
  case (1 f fs t ts)
  show ?case
  proof (cases "f = ''#''")
    case True
    with 1(3) show ?thesis by (auto simp: levels_match_hash plus_parent_def Cons_eq_append_conv)
  next
    case False
    then show ?thesis
      using 1 by (cases "ts = []")
        (auto simp: levels_match_Cons levels_match_Nil level_match_def plus_parent_Cons)
  qed
qed (simp_all add: levels_match_def plus_parent_def)

subsection \<open>What a lookup returns\<close>

lemma fst_scanSubscribers:
  "q \<in> fst ` set (scanSubscribers topic x) \<longleftrightarrow>
     topic \<noteq> '''' \<and> (\<exists>path. scan_match path (go_split CHR ''/'' topic) \<and> seek path (x_root x) = Some q)"
  by (simp add: scanSubscribers_def scan_iff)

definition matches :: "string \<Rightarrow> TopicsIndex \<Rightarrow> string \<Rightarrow> Subscription \<Rightarrow> bool" where
  "matches topic x client sub \<longleftrightarrow>
     topic \<noteq> '''' \<and> \<not> dollar_skip topic sub \<and>
     (\<exists>path. scan_match path (go_split CHR ''/'' topic) \<and> (client, sub) \<in> set (p_subs (content (x_root x) path)))"

definition shared_matches :: "string \<Rightarrow> TopicsIndex \<Rightarrow> string \<Rightarrow> Subscription \<Rightarrow> bool" where
  "shared_matches topic x client sub \<longleftrightarrow>
     topic \<noteq> '''' \<and>
     (\<exists>path. scan_match path (go_split CHR ''/'' topic) \<and> (client, sub) \<in> set (members (content (x_root x) path)))"

lemma members_new [simp]: "members newParticle = []"
  by (simp add: members_def)

lemma content_subs:
  "(c, s) \<in> set (p_subs (content p path)) \<longleftrightarrow> (\<exists>q. seek path p = Some q \<and> (c, s) \<in> set (p_subs q))"
  "(c, s) \<in> set (members (content p path)) \<longleftrightarrow> (\<exists>q. seek path p = Some q \<and> (c, s) \<in> set (members q))"
  by (cases "seek path p"; simp add: content_def)+

lemma gathered_subs:
  "(\<exists>q\<in>fst ` set (scanSubscribers topic x). (c, s) \<in> set (p_subs q)) \<longleftrightarrow>
     topic \<noteq> '''' \<and> (\<exists>path. scan_match path (go_split CHR ''/'' topic) \<and> (c, s) \<in> set (p_subs (content (x_root x) path)))"
  unfolding Bex_def fst_scanSubscribers content_subs by blast

lemma gathered_members:
  "(\<exists>q\<in>fst ` set (scanSubscribers topic x). (c, s) \<in> set (members q)) \<longleftrightarrow>
     topic \<noteq> '''' \<and> (\<exists>path. scan_match path (go_split CHR ''/'' topic) \<and> (c, s) \<in> set (members (content (x_root x) path)))"
  unfolding Bex_def fst_scanSubscribers content_subs by blast

definition routing_step ::
  "((string \<times> Subscription) list \<Rightarrow> (string \<times> Subscription) list) \<Rightarrow> string \<Rightarrow> string \<Rightarrow>
   particle \<times> particle \<Rightarrow> routingSubscribers \<Rightarrow> routingSubscribers" where
  "routing_step visit topic local pq r =
     \<lparr>rs_nodes = rs_nodes r \<union> routing_gather topic (fst pq),
      rs_choices = fold (choose_member local) (visit (members (fst pq))) (rs_choices r)\<rparr>"

lemma routing_scan_step:
  "routing_scan visit topic local x =
     fold (routing_step visit topic local) (scanSubscribers topic x) \<lparr>rs_nodes = {}, rs_choices = []\<rparr>"
proof -
  have "(\<lambda>(p, q) r. \<lparr>rs_nodes = rs_nodes r \<union> routing_gather topic p,
      rs_choices = fold (choose_member local) (visit (members p)) (rs_choices r)\<rparr>) =
    routing_step visit topic local"
    by (simp add: fun_eq_iff routing_step_def)
  then show ?thesis by (simp add: routing_scan_def)
qed

lemma fold_routing_nodes:
  "rs_nodes (fold (routing_step visit topic local) ps r) = rs_nodes r \<union> (\<Union>pq\<in>set ps. routing_gather topic (fst pq))"
  by (induction ps arbitrary: r) (auto simp: routing_step_def)

lemma fold_routing_choices:
  "rs_choices (fold (routing_step visit topic local) ps r) =
     fold (choose_member local) (concat (map (\<lambda>pq. visit (members (fst pq))) ps)) (rs_choices r)"
  by (induction ps arbitrary: r) (auto simp: routing_step_def)

lemma routing_nodes_iff:
  "c \<in> rs_nodes (routing_scan visit topic local x) \<longleftrightarrow> (\<exists>sub. matches topic x c sub)"
proof -
  have "c \<in> rs_nodes (routing_scan visit topic local x) \<longleftrightarrow>
    (\<exists>s. (\<exists>q\<in>fst ` set (scanSubscribers topic x). (c, s) \<in> set (p_subs q)) \<and> \<not> dollar_skip topic s)"
    by (force simp: routing_scan_step fold_routing_nodes routing_gather_def)
  then show ?thesis unfolding gathered_subs matches_def by blast
qed

definition is_member :: "(string \<times> Subscription) list \<Rightarrow> string \<Rightarrow> string \<Rightarrow> bool" where
  "is_member L c f \<longleftrightarrow> (\<exists>s. (c, s) \<in> set L \<and> sub_Filter s = f)"

definition choice_ok :: "(string \<times> Subscription) list \<Rightarrow> string \<Rightarrow> string \<Rightarrow> routingSharedChoice option \<Rightarrow> bool" where
  "choice_ok L local f v \<longleftrightarrow>
     (case v of
        None \<Rightarrow> \<forall>c. \<not> is_member L c f
      | Some ChoiceLocal \<Rightarrow> local \<noteq> '''' \<and> is_member L local f
      | Some (ChoiceClient c) \<Rightarrow> is_member L c f \<and> (local = '''' \<or> \<not> is_member L local f))"

lemma is_member_snoc: "is_member (L @ [(c, s)]) d f \<longleftrightarrow> is_member L d f \<or> (d = c \<and> sub_Filter s = f)"
  by (auto simp: is_member_def)

lemma choose_member_other: "sub_Filter s \<noteq> f \<Longrightarrow> map_of (choose_member local (c, s) ch) f = map_of ch f"
  by (simp add: choose_member_def update_conv')

lemma choose_member_same:
  "map_of (choose_member local (c, s) ch) (sub_Filter s) =
     (if local \<noteq> '''' \<and> c = local then Some ChoiceLocal
      else case map_of ch (sub_Filter s) of None \<Rightarrow> Some (ChoiceClient c) | Some v \<Rightarrow> Some v)"
  by (simp add: choose_member_def update_conv' split: option.split)

lemma choice_ok_snoc:
  assumes "choice_ok L local f (map_of ch f)"
  shows "choice_ok (L @ [(c, s)]) local f (map_of (choose_member local (c, s) ch) f)"
proof (cases "sub_Filter s = f")
  case False
  with assms show ?thesis
    by (simp add: choose_member_other choice_ok_def is_member_snoc split: option.splits routingSharedChoice.splits)
next
  case True
  show ?thesis
  proof (cases "local \<noteq> '''' \<and> c = local")
    case L: True
    with True choose_member_same[of local c s ch] show ?thesis
      by (simp add: choice_ok_def is_member_snoc)
  next
    case L: False
    show ?thesis
    proof (cases "map_of ch f")
      case None
      with True L assms choose_member_same[of local c s ch] show ?thesis
        by (auto simp: choice_ok_def is_member_snoc)
    next
      case (Some v)
      with True L assms choose_member_same[of local c s ch] show ?thesis
        by (cases v) (auto simp: choice_ok_def is_member_snoc)
    qed
  qed
qed

lemma choices_of_members: "choice_ok L local f (map_of (fold (choose_member local) L []) f)"
proof (induction L rule: rev_induct)
  case Nil
  then show ?case by (simp add: choice_ok_def is_member_def)
next
  case (snoc cs L)
  then show ?case by (cases cs) (simp add: choice_ok_snoc)
qed

lemma distinct_choose: "distinct (map fst ch) \<Longrightarrow> distinct (map fst (choose_member local cs ch))"
  by (cases cs) (simp add: choose_member_def distinct_update)

lemma distinct_choices: "distinct (map fst (fold (choose_member local) L []))"
  by (induction L rule: rev_induct) (simp_all add: distinct_choose)

subsection \<open>Subscribers with their properties\<close>

definition merge_step :: "string \<times> Subscription \<Rightarrow> (string \<rightharpoonup> Subscription) \<Rightarrow> (string \<rightharpoonup> Subscription)" where
  "merge_step cs m = m(fst cs \<mapsto> Merge (case m (fst cs) of None \<Rightarrow> snd cs | Some x \<Rightarrow> x) (snd cs))"

lemma Merge_Qos [simp]: "sub_Qos (Merge s n) = max (sub_Qos s) (sub_Qos n)"
  by (simp add: Merge_def Let_def)

lemma merge_step_pair [simp]:
  "merge_step (c, s) m = m(c \<mapsto> Merge (case m c of None \<Rightarrow> s | Some x \<Rightarrow> x) s)"
  by (simp add: merge_step_def split: option.split)

lemma dom_merge_all: "dom (fold merge_step L m) = dom m \<union> fst ` set L"
proof (induction L arbitrary: m)
  case (Cons cs L)
  then show ?case by (cases cs) auto
qed simp

lemma merge_all_Qos:
  "fold merge_step L Map.empty c = Some s \<Longrightarrow> sub_Qos s = Max (sub_Qos ` {s. (c, s) \<in> set L})"
proof (induction L arbitrary: s rule: rev_induct)
  case (snoc ds L)
  obtain d t where ds: "ds = (d, t)" by (cases ds)
  let ?m = "fold merge_step L Map.empty"
  let ?Q = "sub_Qos ` {s. (c, s) \<in> set L}"
  show ?case
  proof (cases "d = c")
    case False
    then have "{s. (c, s) \<in> set (L @ [ds])} = {s. (c, s) \<in> set L}" by (auto simp: ds)
    with False snoc show ?thesis by (simp add: ds)
  next
    case True
    have new: "sub_Qos ` {s. (c, s) \<in> set (L @ [ds])} = insert (sub_Qos t) ?Q" by (auto simp: ds True)
    have fin: "finite ?Q"
      by (rule finite_imageI, rule finite_subset[of _ "snd ` set L"]) force+
    show ?thesis
    proof (cases "?m c")
      case None
      then have "c \<notin> dom ?m" by blast
      then have "(c, s) \<notin> set L" for s by (metis UnCI dom_merge_all fst_conv image_eqI)
      then have "?Q = {}" by simp
      with None True snoc.prems new show ?thesis by (auto simp: ds)
    next
      case (Some u)
      then have "c \<in> dom ?m" by blast
      then have "?Q \<noteq> {}" by (auto simp: dom_merge_all)
      with Some True snoc new fin show ?thesis by (auto simp: ds max.commute)
    qed
  qed
qed simp

lemma gather_Subscriptions:
  "s_Subscriptions (gatherSubscriptions topic p subs) =
     fold merge_step (filter (\<lambda>cs. \<not> dollar_skip topic (snd cs)) (p_subs p)) (s_Subscriptions subs)"
proof -
  have "s_Subscriptions (fold (\<lambda>(client, sub) subs.
        if dollar_skip topic sub then subs
        else
          let cls = (case s_Subscriptions subs client of None \<Rightarrow> sub | Some c \<Rightarrow> c) in
          subs\<lparr>s_Subscriptions := (s_Subscriptions subs)(client \<mapsto> Merge cls sub)\<rparr>) xs subs) =
    fold merge_step (filter (\<lambda>cs. \<not> dollar_skip topic (snd cs)) xs) (s_Subscriptions subs)" for xs
  proof (induction xs arbitrary: subs)
    case (Cons cs xs)
    then show ?case by (cases cs) (simp add: Let_def fun_upd_def)
  qed simp
  then show ?thesis by (simp add: gatherSubscriptions_def)
qed

lemma gather_frames [simp]:
  "s_Subscriptions (gatherSharedSubscriptions p subs) = s_Subscriptions subs"
  "s_Subscriptions (gatherInlineSubscriptions p subs) = s_Subscriptions subs"
  "s_Shared (gatherInlineSubscriptions p subs) = s_Shared subs"
  "s_Shared (gatherSubscriptions topic p subs) = s_Shared subs"
proof -
  have "s_Subscriptions (fold (\<lambda>(client, sub) subs.
        subs\<lparr>s_Shared := AList.update (sub_Filter sub)
          (AList.update client sub (case map_of (s_Shared subs) (sub_Filter sub) of None \<Rightarrow> [] | Some m \<Rightarrow> m))
          (s_Shared subs)\<rparr>) xs subs) = s_Subscriptions subs" for xs
    by (induction xs arbitrary: subs) auto
  then show "s_Subscriptions (gatherSharedSubscriptions p subs) = s_Subscriptions subs"
    by (simp add: gatherSharedSubscriptions_def)
  have "s_Subscriptions (fold (\<lambda>(ident, inline) subs. subs\<lparr>s_Inline := (s_Inline subs)(ident \<mapsto> inline)\<rparr>) xs subs) =
      s_Subscriptions subs"
    "s_Shared (fold (\<lambda>(ident, inline) subs. subs\<lparr>s_Inline := (s_Inline subs)(ident \<mapsto> inline)\<rparr>) xs subs) =
      s_Shared subs" for xs
    by (induction xs arbitrary: subs) auto
  then show "s_Subscriptions (gatherInlineSubscriptions p subs) = s_Subscriptions subs"
    "s_Shared (gatherInlineSubscriptions p subs) = s_Shared subs"
    by (simp_all add: gatherInlineSubscriptions_def)
  have "s_Shared (fold (\<lambda>(client, sub) subs.
        if dollar_skip topic sub then subs
        else
          let cls = (case s_Subscriptions subs client of None \<Rightarrow> sub | Some c \<Rightarrow> c) in
          subs\<lparr>s_Subscriptions := (s_Subscriptions subs)(client \<mapsto> Merge cls sub)\<rparr>) xs subs) = s_Shared subs" for xs
    by (induction xs arbitrary: subs) (auto simp: Let_def)
  then show "s_Shared (gatherSubscriptions topic p subs) = s_Shared subs"
    by (simp add: gatherSubscriptions_def)
qed

lemma gather_Shared_keys:
  "fst ` set (s_Shared (gatherSharedSubscriptions p subs)) = fst ` set (s_Shared subs) \<union> (sub_Filter \<circ> snd) ` set (members p)"
proof -
  have "fst ` set (s_Shared (fold (\<lambda>(client, sub) subs.
        subs\<lparr>s_Shared := AList.update (sub_Filter sub)
          (AList.update client sub (case map_of (s_Shared subs) (sub_Filter sub) of None \<Rightarrow> [] | Some m \<Rightarrow> m))
          (s_Shared subs)\<rparr>) xs subs)) = fst ` set (s_Shared subs) \<union> (sub_Filter \<circ> snd) ` set xs" for xs
  proof (induction xs arbitrary: subs)
    case (Cons cs xs)
    then show ?case by (cases cs) (simp add: dom_update)
  qed simp
  then show ?thesis by (simp add: gatherSharedSubscriptions_def members_def)
qed

definition gather_all :: "string \<Rightarrow> (particle \<times> particle) list \<Rightarrow> Subscribers \<Rightarrow> Subscribers" where
  "gather_all topic ps subs =
     fold (\<lambda>(p, q) subs. gatherInlineSubscriptions q (gatherSharedSubscriptions p (gatherSubscriptions topic p subs))) ps subs"

lemma gather_all_Subscriptions:
  "s_Subscriptions (gather_all topic ps subs) =
     fold merge_step (concat (map (\<lambda>pq. filter (\<lambda>cs. \<not> dollar_skip topic (snd cs)) (p_subs (fst pq))) ps))
       (s_Subscriptions subs)"
  unfolding gather_all_def by (induction ps arbitrary: subs) (auto simp: gather_Subscriptions)

lemma gather_all_Shared_keys:
  "fst ` set (s_Shared (gather_all topic ps subs)) =
     fst ` set (s_Shared subs) \<union> (\<Union>pq\<in>set ps. (sub_Filter \<circ> snd) ` set (members (fst pq)))"
proof -
  have "fst ` set (s_Shared (fold (\<lambda>(p, q) subs. gatherInlineSubscriptions q
      (gatherSharedSubscriptions p (gatherSubscriptions topic p subs))) ps subs)) =
    fst ` set (s_Shared subs) \<union> (\<Union>pq\<in>set ps. (sub_Filter \<circ> snd) ` set (members (fst pq)))"
  proof (induction ps arbitrary: subs)
    case (Cons pq ps)
    then show ?case by (cases pq) (simp add: gather_Shared_keys Un_assoc)
  qed simp
  then show ?thesis by (simp add: gather_all_def)
qed

lemma Subscribers_gather: "Subscribers_of topic x = gather_all topic (scanSubscribers topic x) no_subscribers"
  by (simp add: Subscribers_of_def gather_all_def)

lemma gathered_list:
  "(c, s) \<in> set (concat (map (\<lambda>pq. filter (\<lambda>cs. \<not> dollar_skip topic (snd cs)) (p_subs (fst pq)))
       (scanSubscribers topic x))) \<longleftrightarrow> matches topic x c s"
proof -
  have "(c, s) \<in> set (concat (map (\<lambda>pq. filter (\<lambda>cs. \<not> dollar_skip topic (snd cs)) (p_subs (fst pq)))
       (scanSubscribers topic x))) \<longleftrightarrow>
    (\<exists>q\<in>fst ` set (scanSubscribers topic x). (c, s) \<in> set (p_subs q)) \<and> \<not> dollar_skip topic s"
    by auto
  then show ?thesis unfolding gathered_subs matches_def by blast
qed

lemma Subscribers_dom: "s_Subscriptions (Subscribers_of topic x) c \<noteq> None \<longleftrightarrow> (\<exists>s. matches topic x c s)"
proof -
  have "s_Subscriptions (Subscribers_of topic x) c \<noteq> None \<longleftrightarrow>
    c \<in> dom (s_Subscriptions (Subscribers_of topic x))" by blast
  also have "\<dots> \<longleftrightarrow> (\<exists>s. matches topic x c s)"
    unfolding Subscribers_gather gather_all_Subscriptions dom_merge_all gathered_list[symmetric]
    by (force simp: no_subscribers_def simp del: set_concat)
  finally show ?thesis .
qed

lemma Subscribers_Qos:
  assumes "s_Subscriptions (Subscribers_of topic x) c = Some s"
  shows "sub_Qos s = Max (sub_Qos ` {s. matches topic x c s})"
  using merge_all_Qos[of _ c s] assms
  unfolding Subscribers_gather gather_all_Subscriptions gathered_list[symmetric]
  by (simp add: no_subscribers_def del: set_concat)

lemma Subscribers_Shared:
  "f \<in> fst ` set (s_Shared (Subscribers_of topic x)) \<longleftrightarrow> (\<exists>c s. shared_matches topic x c s \<and> sub_Filter s = f)"
proof -
  have "f \<in> fst ` set (s_Shared (Subscribers_of topic x)) \<longleftrightarrow>
    (\<exists>c s. (\<exists>q\<in>fst ` set (scanSubscribers topic x). (c, s) \<in> set (members q)) \<and> sub_Filter s = f)"
    unfolding Subscribers_gather gather_all_Shared_keys by (force simp: no_subscribers_def)
  then show ?thesis unfolding gathered_members shared_matches_def by blast
qed

subsection \<open>The routing plan\<close>

definition visits_all :: "((string \<times> Subscription) list \<Rightarrow> (string \<times> Subscription) list) \<Rightarrow> bool" where
  "visits_all visit \<longleftrightarrow> (\<forall>xs. set (visit xs) = set xs)"

definition all_members ::
  "((string \<times> Subscription) list \<Rightarrow> (string \<times> Subscription) list) \<Rightarrow> string \<Rightarrow> TopicsIndex \<Rightarrow> (string \<times> Subscription) list" where
  "all_members visit topic x = concat (map (\<lambda>pq. visit (members (fst pq))) (scanSubscribers topic x))"

lemma routing_choices:
  "rs_choices (routing_scan visit topic local x) = fold (choose_member local) (all_members visit topic x) []"
  by (simp add: routing_scan_step fold_routing_choices all_members_def)

lemma is_member_all:
  assumes "visits_all visit"
  shows "is_member (all_members visit topic x) c f \<longleftrightarrow> (\<exists>s. shared_matches topic x c s \<and> sub_Filter s = f)"
proof -
  have "(c, s) \<in> set (all_members visit topic x) \<longleftrightarrow>
    (\<exists>q\<in>fst ` set (scanSubscribers topic x). (c, s) \<in> set (members q))" for s
    using assms by (auto simp: all_members_def visits_all_def)
  then show ?thesis unfolding is_member_def gathered_members shared_matches_def by blast
qed

definition group_member :: "string \<Rightarrow> TopicsIndex \<Rightarrow> string \<Rightarrow> string \<Rightarrow> bool" where
  "group_member topic x f c \<longleftrightarrow> (\<exists>s. shared_matches topic x c s \<and> sub_Filter s = f)"

lemma plan_choice:
  assumes "visits_all visit"
  shows "case snd (SubscriberRoutingPlan visit topic local x) f of
      None \<Rightarrow> \<forall>c. \<not> group_member topic x f c
    | Some c \<Rightarrow> group_member topic x f c \<and> (local \<noteq> '''' \<and> group_member topic x f local \<longrightarrow> c = local)"
  using choices_of_members[of "all_members visit topic x" local f] is_member_all[OF assms, of topic x]
  by (auto simp: SubscriberRoutingPlan_def Let_def routing_choices choice_ok_def group_member_def
      split: option.splits routingSharedChoice.splits)

lemma map_of_choice_targets:
  "distinct (map fst ch) \<Longrightarrow> c \<in> choice_targets ch \<longleftrightarrow> (\<exists>f. map_of ch f = Some (ChoiceClient c))"
  by (force simp: choice_targets_def)

lemma plan_nodes:
  assumes "visits_all visit"
  shows "c \<in> fst (SubscriberRoutingPlan visit topic local x) \<longleftrightarrow>
    (\<exists>s. matches topic x c s) \<or>
    (\<exists>f. snd (SubscriberRoutingPlan visit topic local x) f = Some c \<and> (local = '''' \<or> \<not> group_member topic x f local))"
proof -
  have d: "distinct (map fst (rs_choices (routing_scan visit topic local x)))"
    unfolding routing_choices by (rule distinct_choices)
  have "map_of (rs_choices (routing_scan visit topic local x)) f = Some (ChoiceClient c) \<longleftrightarrow>
    snd (SubscriberRoutingPlan visit topic local x) f = Some c \<and> (local = '''' \<or> \<not> group_member topic x f local)" for f
  proof -
    have snd: "snd (SubscriberRoutingPlan visit topic local x) f =
      (case map_of (rs_choices (routing_scan visit topic local x)) f of
          None \<Rightarrow> None | Some ChoiceLocal \<Rightarrow> Some local | Some (ChoiceClient client) \<Rightarrow> Some client)"
      by (simp add: SubscriberRoutingPlan_def Let_def)
    have ok: "choice_ok (all_members visit topic x) local f (map_of (rs_choices (routing_scan visit topic local x)) f)"
      unfolding routing_choices by (rule choices_of_members)
    have mem: "is_member (all_members visit topic x) d f \<longleftrightarrow> group_member topic x f d" for d
      unfolding is_member_all[OF assms] group_member_def ..
    show ?thesis
    proof (cases "map_of (rs_choices (routing_scan visit topic local x)) f")
      case None
      with snd show ?thesis by simp
    next
      case (Some v)
      with ok snd mem show ?thesis by (cases v) (auto simp: choice_ok_def)
    qed
  qed
  then show ?thesis
    using routing_nodes_iff[of c visit topic local x] map_of_choice_targets[OF d, of c]
    by (simp add: SubscriberRoutingPlan_def Let_def)
qed

subsection \<open>Stored subscriptions\<close>

text \<open>Filters the index keeps apart: any non-shared filter, and shared filters written with the
  lower-case prefix and a group and a filter part. (Two spellings of the prefix address one slot.)\<close>

definition ok_filter :: "string \<Rightarrow> bool" where
  "ok_filter f \<longleftrightarrow> \<not> is_share f \<or> (\<exists>g r. CHR ''/'' \<notin> set g \<and> f = ''$share/'' @ g @ CHR ''/'' # r)"

definition share_group :: "string \<Rightarrow> string" where
  "share_group f = fst (isolateParticle f 1)"

definition slot_path :: "string \<Rightarrow> string list" where
  "slot_path f = index_path f (if is_share f then 2 else 0)"

definition stored :: "TopicsIndex \<Rightarrow> string \<Rightarrow> string \<Rightarrow> Subscription option" where
  "stored x f c =
     (if is_share f then shared_get (share_group f) c (p_shared (content (x_root x) (slot_path f)))
      else map_of (p_subs (content (x_root x) (slot_path f))) c)"

lemma share_prefix_fold: "equal_fold_ascii ''$share'' SharePrefix"
  by code_simp

lemma share_levels:
  assumes "CHR ''/'' \<notin> set g"
  shows "go_split CHR ''/'' (''$share/'' @ g @ CHR ''/'' # r) = ''$share'' # g # go_split CHR ''/'' r"
  using assms go_split_append_sep[of "CHR ''/''" "''$share''" "g @ CHR ''/'' # r"]
  by (simp add: go_split_append_sep)

lemma is_share_levels: "is_share f \<longleftrightarrow> equal_fold_ascii (hd (go_split CHR ''/'' f)) SharePrefix"
  by (simp add: is_share_def isolateParticle_split Let_def hd_conv_nth)

lemma ok_share:
  fixes g r
  assumes "CHR ''/'' \<notin> set g"
  defines "f \<equiv> ''$share/'' @ g @ CHR ''/'' # r"
  shows "is_share f" "share_group f = g" "slot_path f = go_split CHR ''/'' r" "ok_filter f"
proof -
  note l = share_levels[OF assms(1), of r, folded f_def]
  show s: "is_share f" unfolding is_share_levels l by (simp add: share_prefix_fold)
  show "share_group f = g" by (simp add: share_group_def isolateParticle_split l Let_def)
  have "2 < length (go_split CHR ''/'' f)" unfolding l by (cases "go_split CHR ''/'' r") auto
  with s show "slot_path f = go_split CHR ''/'' r" by (simp add: slot_path_def index_path_drop l)
  show "ok_filter f" using assms by (auto simp: ok_filter_def)
qed

lemma slot_inj:
  assumes "ok_filter f" "ok_filter g" "is_share f = is_share g" "slot_path f = slot_path g"
    "is_share f \<Longrightarrow> share_group f = share_group g"
  shows "f = g"
proof (cases "is_share f")
  case False
  with assms show ?thesis by (simp add: slot_path_def)
next
  case True
  with assms obtain a r b s where f: "CHR ''/'' \<notin> set a" "f = ''$share/'' @ a @ CHR ''/'' # r"
    and g: "CHR ''/'' \<notin> set b" "g = ''$share/'' @ b @ CHR ''/'' # s"
    by (auto simp: ok_filter_def)
  have "share_group f = a" "slot_path f = go_split CHR ''/'' r"
    unfolding f(2) by (rule ok_share[OF f(1)])+
  moreover have "share_group g = b" "slot_path g = go_split CHR ''/'' s"
    unfolding g(2) by (rule ok_share[OF g(1)])+
  ultimately show ?thesis using assms(4,5) True f(2) g(2) by simp
qed

lemma shared_get_add:
  "shared_get g c (shared_add g' c' s m) = (if g = g' \<and> c = c' then Some s else shared_get g c m)"
  by (auto simp: shared_get_def shared_add_def update_conv' split: option.splits)

definition share_members :: "(string \<times> (string \<times> Subscription) list) list \<Rightarrow> string \<Rightarrow> (string \<times> Subscription) list" where
  "share_members m g = (case map_of m g of None \<Rightarrow> [] | Some xs \<Rightarrow> xs)"

lemma shared_get_members: "shared_get g c m = map_of (share_members m g) c"
  by (simp add: shared_get_def share_members_def split: option.split)

lemma share_members_delete:
  "share_members (shared_delete g' c' m) g =
     (if g = g' then AList.delete c' (share_members m g') else share_members m g)"
proof -
  have "share_members (AList.update g' v m) h = (if h = g' then v else share_members m h)"
    "share_members (AList.delete g' m) h = (if h = g' then [] else share_members m h)" for v h
    by (simp_all add: share_members_def update_conv' delete_conv')
  moreover have "shared_delete g' c' m = (let g = AList.delete c' (share_members m g') in
      if g = [] then AList.delete g' m else AList.update g' g m)"
    by (simp add: shared_delete_def share_members_def)
  ultimately show ?thesis by (simp add: Let_def)
qed

lemma shared_get_delete:
  "shared_get g c (shared_delete g' c' m) = (if g = g' \<and> c = c' then None else shared_get g c m)"
  by (simp add: shared_get_members share_members_delete delete_conv')

lemma content_fields:
  "p_subs (content p path) = fst (pay p path)" "p_shared (content p path) = fst (snd (pay p path))"
  by (simp_all add: pay_def payload_of_def)

lemma stored_pay:
  "stored x f c =
     (if is_share f then shared_get (share_group f) c (fst (snd (pay (x_root x) (slot_path f))))
      else map_of (fst (pay (x_root x) (slot_path f))) c)"
  by (simp add: stored_def content_fields)

lemma Subscribe_pay:
  "pay (x_root (fst (Subscribe c s x))) =
     (let f = sub_Filter s; old = pay (x_root x) (slot_path f) in
      (pay (x_root x))(slot_path f :=
        (if is_share f then (fst old, shared_add (share_group f) c s (fst (snd old)), snd (snd old))
         else (AList.update c s (fst old), snd old))))"
  by (simp add: Subscribe_def Let_def slot_path_def share_group_def pay_set_path)
     (simp add: pay_def payload_of_def)

lemma seek_None_pay: "seek path p = None \<Longrightarrow> pay p path = ([], [], [], '''')"
  by (simp add: pay_def content_def)

lemma Unsubscribe_root:
  "x_root (fst (Unsubscribe f c x)) =
     (if seek (slot_path f) (x_root x) = None then x_root x
      else trim (slot_path f)
        (set_path (slot_path f)
           (if is_share f then with_shared (shared_delete (share_group f) c) else with_subs (AList.delete c))
           (x_root x)))"
  by (simp add: Unsubscribe_def Let_def slot_path_def share_group_def)

lemma Unsubscribe_pay:
  "pay (x_root (fst (Unsubscribe f c x))) =
     (let old = pay (x_root x) (slot_path f) in
      (pay (x_root x))(slot_path f :=
        (if is_share f then (fst old, shared_delete (share_group f) c (fst (snd old)), snd (snd old))
         else (AList.delete c (fst old), snd old))))"
proof (cases "seek (slot_path f) (x_root x) = None")
  case True
  then show ?thesis
    by (auto simp: Unsubscribe_root Let_def seek_None_pay shared_delete_def fun_eq_iff)
next
  case False
  let ?g = "if is_share f then with_shared (shared_delete (share_group f) c) else with_subs (AList.delete c)"
  have "keeps_children ?g" by simp
  moreover obtain q where "seek (slot_path f) (x_root x) = Some q" using False by blast
  ultimately show ?thesis
    by (simp add: Unsubscribe_root Let_def pay_set_path) (simp add: pay_def payload_of_def)
qed

lemma stored_Subscribe:
  assumes "ok_filter f" "ok_filter (sub_Filter s)"
  shows "stored (fst (Subscribe c s x)) f d = (if f = sub_Filter s \<and> d = c then Some s else stored x f d)"
proof (cases "is_share f = is_share (sub_Filter s) \<and> slot_path f = slot_path (sub_Filter s)")
  case True
  with slot_inj[OF assms] show ?thesis
    by (auto simp: stored_pay Subscribe_pay Let_def shared_get_add update_conv')
next
  case False
  then show ?thesis
    by (auto simp: stored_pay Subscribe_pay Let_def)
qed

lemma stored_Unsubscribe:
  assumes "ok_filter f" "ok_filter g"
  shows "stored (fst (Unsubscribe g c x)) f d = (if f = g \<and> d = c then None else stored x f d)"
proof (cases "is_share f = is_share g \<and> slot_path f = slot_path g")
  case True
  with slot_inj[OF assms] show ?thesis
    by (auto simp: stored_pay Unsubscribe_pay Let_def shared_get_delete delete_conv')
next
  case False
  then show ?thesis
    by (auto simp: stored_pay Unsubscribe_pay Let_def)
qed

subsection \<open>The invariant of the index\<close>

text \<open>The trie is well formed and every stored subscription lies in the slot of its own filter.\<close>

definition placed :: "(string list \<Rightarrow> payload) \<Rightarrow> bool" where
  "placed P \<longleftrightarrow>
     (\<forall>path c s. (c, s) \<in> set (fst (P path)) \<longrightarrow> \<not> is_share (sub_Filter s) \<and> path = slot_path (sub_Filter s)) \<and>
     (\<forall>path g c s. (c, s) \<in> set (share_members (fst (snd (P path))) g) \<longrightarrow>
        is_share (sub_Filter s) \<and> ok_filter (sub_Filter s) \<and> path = slot_path (sub_Filter s) \<and>
        g = share_group (sub_Filter s))"

definition index_inv :: "TopicsIndex \<Rightarrow> bool" where
  "index_inv x \<longleftrightarrow> wf_node (x_root x) \<and> placed (pay (x_root x))"

lemma index_inv_new [keel_inv]: "index_inv NewTopicsIndex"
  by (simp add: index_inv_def NewTopicsIndex_def placed_def share_members_def)

lemma set_alist_update: "distinct (map fst xs) \<Longrightarrow> set (AList.update k v xs) \<subseteq> insert (k, v) (set xs)"
  by (induction xs) auto

lemma set_alist_delete: "set (AList.delete k xs) \<subseteq> set xs"
  by (auto simp: AList.delete_eq)

lemma share_members_add:
  "share_members (shared_add g' c' s m) g =
     (if g = g' then AList.update c' s (share_members m g') else share_members m g)"
  by (simp add: share_members_def shared_add_def update_conv')

lemma groups_okD: "groups_ok m \<Longrightarrow> map_of m k = Some g \<Longrightarrow> g \<noteq> [] \<and> distinct (map fst g)"
  by (force simp: groups_ok_def)

lemma groups_okI:
  assumes "distinct (map fst m)" "\<And>k g. map_of m k = Some g \<Longrightarrow> g \<noteq> [] \<and> distinct (map fst g)"
  shows "groups_ok m"
  using assms by (auto simp: groups_ok_def)

lemma groups_ok_members: "groups_ok m \<Longrightarrow> distinct (map fst (share_members m g))"
  by (simp add: share_members_def groups_okD split: option.split)

lemma groups_ok_add:
  assumes "groups_ok m"
  shows "groups_ok (shared_add g c s m)"
proof (rule groups_okI)
  have add: "shared_add g c s m = AList.update g (AList.update c s (share_members m g)) m"
    by (simp add: shared_add_def share_members_def)
  show "distinct (map fst (shared_add g c s m))"
    using assms by (simp add: add groups_ok_def distinct_update)
  fix k h assume "map_of (shared_add g c s m) k = Some h"
  then show "h \<noteq> [] \<and> distinct (map fst h)"
    using groups_okD[OF assms, of k h] groups_ok_members[OF assms, of g]
    by (auto simp: add update_conv' distinct_update simp del: map_of_eq_Some_iff split: if_splits)
qed

lemma groups_ok_delete:
  assumes "groups_ok m"
  shows "groups_ok (shared_delete g c m)"
proof (rule groups_okI)
  have del: "shared_delete g c m = (let h = AList.delete c (share_members m g) in
      if h = [] then AList.delete g m else AList.update g h m)"
    by (simp add: shared_delete_def share_members_def)
  show "distinct (map fst (shared_delete g c m))"
    using assms by (simp add: del Let_def groups_ok_def distinct_update distinct_delete)
  fix k h assume "map_of (shared_delete g c m) k = Some h"
  then show "h \<noteq> [] \<and> distinct (map fst h)"
    using groups_okD[OF assms, of k h] groups_ok_members[OF assms, of g]
    by (auto simp: del Let_def update_conv' delete_conv' distinct_delete simp del: map_of_eq_Some_iff
        split: if_splits)
qed

lemma wf_same_children:
  "wf_node p \<Longrightarrow> p_children q = p_children p \<Longrightarrow> payload_ok q \<Longrightarrow> wf_node q"
  by (subst wf_node_iff) (simp add: wf_node_iff[of p] del: map_of_eq_Some_iff)

lemma payload_ok_ops:
  "payload_ok p \<Longrightarrow> payload_ok (with_subs (AList.update c s) p)"
  "payload_ok p \<Longrightarrow> payload_ok (with_subs (AList.delete c) p)"
  "payload_ok p \<Longrightarrow> payload_ok (with_shared (shared_add g c s) p)"
  "payload_ok p \<Longrightarrow> payload_ok (with_shared (shared_delete g c) p)"
  "payload_ok p \<Longrightarrow> payload_ok (with_inline (AList.update i s) p)"
  "payload_ok p \<Longrightarrow> payload_ok (with_inline (AList.delete i) p)"
  "payload_ok p \<Longrightarrow> payload_ok (with_retain r p)"
  by (simp_all add: payload_ok_def with_subs_def with_shared_def with_inline_def with_retain_def
      distinct_update distinct_delete groups_ok_add groups_ok_delete)

lemma wf_payload_ok: "wf_node p \<Longrightarrow> payload_ok p"
  by (simp add: wf_node_iff[of p])

lemma wf_keeps: "wf_node p \<Longrightarrow> keeps_children f \<Longrightarrow> payload_ok (f p) \<Longrightarrow> wf_node (f p)"
  by (rule wf_same_children) (simp_all add: keeps_children_def)

lemma wf_ops [simp]:
  assumes "wf_node p"
  shows "wf_node (with_subs (AList.update c s) p)" "wf_node (with_subs (AList.delete c) p)"
    "wf_node (with_shared (shared_add g c s) p)" "wf_node (with_shared (shared_delete g c) p)"
    "wf_node (with_inline (AList.update i s) p)" "wf_node (with_inline (AList.delete i) p)"
    "wf_node (with_retain r p)"
  by (rule wf_keeps[OF assms]; simp add: payload_ok_ops wf_payload_ok[OF assms])+

lemma not_empty_ops [simp]:
  "\<not> is_empty_particle (with_subs (AList.update c s) p)"
  "\<not> is_empty_particle (with_shared (shared_add g c s) p)"
  "\<not> is_empty_particle (with_inline (AList.update i s) p)"
  "r \<noteq> '''' \<Longrightarrow> \<not> is_empty_particle (with_retain r p)"
  by (simp_all add: is_empty_particle_def with_subs_def with_shared_def with_inline_def with_retain_def
      shared_add_def)

lemma Subscribe_root:
  "x_root (fst (Subscribe c s x)) =
     set_path (slot_path (sub_Filter s))
       (if is_share (sub_Filter s) then with_shared (shared_add (share_group (sub_Filter s)) c s)
        else with_subs (AList.update c s)) (x_root x)"
  by (simp add: Subscribe_def Let_def slot_path_def share_group_def)

lemma wf_content: "wf_node p \<Longrightarrow> wf_node (content p path)"
proof (induction path arbitrary: p)
  case (Cons k ks)
  then show ?case by (simp add: content_Cons wf_child)
qed simp

lemma wf_pay_distinct:
  assumes "wf_node p"
  shows "distinct (map fst (fst (pay p path)))" "distinct (map fst (share_members (fst (snd (pay p path))) g))"
proof -
  from wf_content[OF assms, of path] have "payload_ok (content p path)" by (subst (asm) wf_node_iff) simp
  then show "distinct (map fst (fst (pay p path)))" "distinct (map fst (share_members (fst (snd (pay p path))) g))"
    by (simp_all add: payload_ok_def groups_ok_members flip: content_fields)
qed

lemma placed_update:
  assumes "placed P"
    and "\<And>c s. (c, s) \<in> set subs \<Longrightarrow> \<not> is_share (sub_Filter s) \<and> path = slot_path (sub_Filter s)"
    and "\<And>g c s. (c, s) \<in> set (share_members sh g) \<Longrightarrow>
      is_share (sub_Filter s) \<and> ok_filter (sub_Filter s) \<and> path = slot_path (sub_Filter s) \<and> g = share_group (sub_Filter s)"
  shows "placed (P(path := (subs, sh, rest)))"
  using assms unfolding placed_def by auto

lemma placedD:
  assumes "placed P"
  shows "(c, s) \<in> set (fst (P path)) \<Longrightarrow> \<not> is_share (sub_Filter s) \<and> path = slot_path (sub_Filter s)"
    "(c, s) \<in> set (share_members (fst (snd (P path))) g) \<Longrightarrow>
      is_share (sub_Filter s) \<and> ok_filter (sub_Filter s) \<and> path = slot_path (sub_Filter s) \<and> g = share_group (sub_Filter s)"
  using assms unfolding placed_def by blast+

lemma index_inv_Subscribe [keel_inv]:
  assumes "index_inv x" "ok_filter (sub_Filter s)"
  shows "index_inv (fst (Subscribe c s x))"
proof -
  let ?f = "sub_Filter s"
  from assms have wf: "wf_node (x_root x)" and pl: "placed (pay (x_root x))" by (simp_all add: index_inv_def)
  have "wf_node (x_root (fst (Subscribe c s x)))"
    unfolding Subscribe_root using wf by (auto intro!: wf_set_path)
  moreover have "placed (pay (x_root (fst (Subscribe c s x))))"
  proof (cases "is_share ?f")
    case True
    have "placed ((pay (x_root x))(slot_path ?f := (fst (pay (x_root x) (slot_path ?f)),
        shared_add (share_group ?f) c s (fst (snd (pay (x_root x) (slot_path ?f)))),
        snd (snd (pay (x_root x) (slot_path ?f))))))"
      using placedD[OF pl] True assms(2)
        set_alist_update[OF wf_pay_distinct(2)[OF wf], of c s "slot_path ?f" "share_group ?f"]
      by (intro placed_update[OF pl]) (auto simp: share_members_add split: if_splits)
    with True show ?thesis by (simp add: Subscribe_pay Let_def)
  next
    case False
    have "placed ((pay (x_root x))(slot_path ?f := (AList.update c s (fst (pay (x_root x) (slot_path ?f))),
        fst (snd (pay (x_root x) (slot_path ?f))), snd (snd (pay (x_root x) (slot_path ?f))))))"
      using placedD[OF pl] False set_alist_update[OF wf_pay_distinct(1)[OF wf], of c s "slot_path ?f"]
      by (intro placed_update[OF pl]) auto
    with False show ?thesis by (simp add: Subscribe_pay Let_def)
  qed
  ultimately show ?thesis by (simp add: index_inv_def)
qed

lemma index_inv_Unsubscribe [keel_inv]:
  assumes "index_inv x"
  shows "index_inv (fst (Unsubscribe f c x))"
proof -
  from assms have wf: "wf_node (x_root x)" and pl: "placed (pay (x_root x))" by (simp_all add: index_inv_def)
  have "wf_node (x_root (fst (Unsubscribe f c x)))"
    unfolding Unsubscribe_root using wf by (auto intro!: wf_trim_set_path)
  moreover have "placed (pay (x_root (fst (Unsubscribe f c x))))"
    using pl set_alist_delete unfolding placed_def Unsubscribe_pay Let_def
    by (fastforce simp: share_members_delete split: if_splits)
  ultimately show ?thesis by (simp add: index_inv_def)
qed

subsection \<open>The index as a table of subscriptions\<close>

definition covers :: "string \<Rightarrow> string \<Rightarrow> bool" where
  "covers f topic \<longleftrightarrow>
     topic \<noteq> '''' \<and> scan_match (slot_path f) (go_split CHR ''/'' topic) \<and>
     (is_share f \<or> \<not> dollar_skip topic (filter_sub f))"

lemma dollar_skip_filter: "dollar_skip topic s = dollar_skip topic (filter_sub (sub_Filter s))"
  by (simp add: dollar_skip_def filter_sub_def)

lemma members_share:
  assumes "groups_ok (p_shared q)"
  shows "(c, s) \<in> set (members q) \<longleftrightarrow> (\<exists>g. (c, s) \<in> set (share_members (p_shared q) g))"
proof -
  have "(c, s) \<in> set (members q) \<longleftrightarrow> (\<exists>g xs. (g, xs) \<in> set (p_shared q) \<and> (c, s) \<in> set xs)"
    by (force simp: members_def)
  also have "\<dots> \<longleftrightarrow> (\<exists>g xs. map_of (p_shared q) g = Some xs \<and> (c, s) \<in> set xs)"
    using assms by (simp add: groups_ok_def)
  also have "\<dots> \<longleftrightarrow> (\<exists>g. (c, s) \<in> set (share_members (p_shared q) g))"
  proof -
    have "(c, s) \<in> set (share_members (p_shared q) g) \<longleftrightarrow>
      (\<exists>xs. map_of (p_shared q) g = Some xs \<and> (c, s) \<in> set xs)" for g
      by (cases "map_of (p_shared q) g") (simp_all add: share_members_def del: map_of_eq_Some_iff)
    then show ?thesis by simp
  qed
  finally show ?thesis .
qed

lemma stored_iff:
  assumes "index_inv x" "ok_filter f"
  shows "stored x f c = Some s \<longleftrightarrow> sub_Filter s = f \<and>
    (if is_share f then \<exists>g. (c, s) \<in> set (share_members (p_shared (content (x_root x) (slot_path f))) g)
     else (c, s) \<in> set (p_subs (content (x_root x) (slot_path f))))"
proof -
  from assms(1) have wf: "wf_node (x_root x)" and pl: "placed (pay (x_root x))" by (simp_all add: index_inv_def)
  note d = wf_pay_distinct[OF wf, of "slot_path f", folded content_fields]
  note p = placedD[OF pl, of _ _ "slot_path f", folded content_fields]
  show ?thesis
  proof (cases "is_share f")
    case False
    have "sub_Filter s = f" if "(c, s) \<in> set (p_subs (content (x_root x) (slot_path f)))"
      using p(1)[OF that] False by (auto simp: slot_path_def)
    then show ?thesis using False d(1) by (auto simp: stored_def)
  next
    case True
    have f: "sub_Filter s = f" if "(c, s) \<in> set (share_members (p_shared (content (x_root x) (slot_path f))) (share_group f))"
      using p(2)[OF that] True slot_inj[of "sub_Filter s" f] assms(2) by auto
    have g: "g = share_group (sub_Filter s)" if "(c, s) \<in> set (share_members (p_shared (content (x_root x) (slot_path f))) g)" for g
      using p(2)[OF that] by simp
    show ?thesis using True d(2) f g by (auto simp: stored_def shared_get_members)
  qed
qed

lemma content_groups_ok: "index_inv x \<Longrightarrow> groups_ok (p_shared (content (x_root x) path))"
  using wf_payload_ok[OF wf_content] by (simp add: index_inv_def payload_ok_def)

lemma matches_iff:
  assumes "index_inv x"
  shows "matches topic x c s \<longleftrightarrow>
    \<not> is_share (sub_Filter s) \<and> stored x (sub_Filter s) c = Some s \<and> covers (sub_Filter s) topic"
proof -
  have pl: "placed (pay (x_root x))" using assms by (simp add: index_inv_def)
  have m: "(c, s) \<in> set (p_subs (content (x_root x) path)) \<longleftrightarrow>
    \<not> is_share (sub_Filter s) \<and> path = slot_path (sub_Filter s) \<and> stored x (sub_Filter s) c = Some s" for path
    using placedD(1)[OF pl, of c s path, folded content_fields] stored_iff[OF assms, of "sub_Filter s" c s]
    by (auto simp: ok_filter_def)
  have d: "dollar_skip topic (filter_sub (sub_Filter s)) = dollar_skip topic s"
    by (rule dollar_skip_filter[symmetric])
  show ?thesis unfolding matches_def covers_def m d by auto
qed

lemma group_member_iff:
  assumes "index_inv x" "ok_filter f"
  shows "group_member topic x f c \<longleftrightarrow> is_share f \<and> stored x f c \<noteq> None \<and> covers f topic"
proof -
  have pl: "placed (pay (x_root x))" using assms by (simp add: index_inv_def)
  have m: "(c, s) \<in> set (members (content (x_root x) path)) \<and> sub_Filter s = f \<longleftrightarrow>
    is_share f \<and> path = slot_path f \<and> stored x f c = Some s" for path s
    using placedD(2)[OF pl, of c s path, folded content_fields] stored_iff[OF assms, of c s]
    unfolding members_share[OF content_groups_ok[OF assms(1)]] by auto
  have "group_member topic x f c \<longleftrightarrow> topic \<noteq> '''' \<and>
    (\<exists>s path. scan_match path (go_split CHR ''/'' topic) \<and>
       (c, s) \<in> set (members (content (x_root x) path)) \<and> sub_Filter s = f)"
    unfolding group_member_def shared_matches_def by blast
  then show ?thesis unfolding m covers_def by auto
qed

text \<open>The interface the router relies on: a table from (filter, client) to subscriptions, kept under
  an invariant for the filters it can tell apart.\<close>

datatype index_op = IxAdd string Subscription | IxRemove string string

fun op_filter :: "index_op \<Rightarrow> string" where
  "op_filter (IxAdd c s) = sub_Filter s"
| "op_filter (IxRemove f c) = f"

fun table_step :: "index_op \<Rightarrow> (string \<times> string \<rightharpoonup> Subscription) \<Rightarrow> (string \<times> string \<rightharpoonup> Subscription)" where
  "table_step (IxAdd c s) T = T((sub_Filter s, c) \<mapsto> s)"
| "table_step (IxRemove f c) T = T((f, c) := None)"

locale subscription_index =
  fixes new :: "'x"
    and add :: "string \<Rightarrow> Subscription \<Rightarrow> 'x \<Rightarrow> 'x"
    and remove :: "string \<Rightarrow> string \<Rightarrow> 'x \<Rightarrow> 'x"
    and entry :: "'x \<Rightarrow> string \<Rightarrow> string \<Rightarrow> Subscription option"
    and inv :: "'x \<Rightarrow> bool"
    and okf :: "string \<Rightarrow> bool"
  assumes inv_new: "inv new"
    and inv_add: "inv x \<Longrightarrow> okf (sub_Filter s) \<Longrightarrow> inv (add c s x)"
    and inv_remove: "inv x \<Longrightarrow> inv (remove f c x)"
    and entry_new: "entry new f c = None"
    and entry_add: "okf f \<Longrightarrow> okf (sub_Filter s) \<Longrightarrow>
      entry (add c s x) f d = (if f = sub_Filter s \<and> d = c then Some s else entry x f d)"
    and entry_remove: "okf f \<Longrightarrow> okf g \<Longrightarrow>
      entry (remove g c x) f d = (if f = g \<and> d = c then None else entry x f d)"
begin

lemma run_inv:
  "inv x \<Longrightarrow> \<forall>op\<in>set ops. okf (op_filter op) \<Longrightarrow>
   inv (fold (\<lambda>op x. case op of IxAdd c s \<Rightarrow> add c s x | IxRemove f c \<Rightarrow> remove f c x) ops x)"
  by (induction ops arbitrary: x) (auto simp: inv_add inv_remove split: index_op.splits)

lemma run_refines_table:
  assumes "\<forall>op\<in>set ops. okf (op_filter op)" "okf f" "\<And>f c. okf f \<Longrightarrow> entry x f c = T (f, c)"
  shows "entry (fold (\<lambda>op x. case op of IxAdd c s \<Rightarrow> add c s x | IxRemove f c \<Rightarrow> remove f c x) ops x) f c =
         fold table_step ops T (f, c)"
  using assms
proof (induction ops arbitrary: x T)
  case (Cons op ops)
  let ?x = "case op of IxAdd c s \<Rightarrow> add c s x | IxRemove f c \<Rightarrow> remove f c x"
  have "entry ?x f c = table_step op T (f, c)" if "okf f" for f c
    using that Cons.prems by (cases op) (auto simp: entry_add entry_remove)
  with Cons show ?case by simp
qed simp

end

interpretation trie: subscription_index
  NewTopicsIndex "\<lambda>c s x. fst (Subscribe c s x)" "\<lambda>f c x. fst (Unsubscribe f c x)" stored index_inv ok_filter
proof unfold_locales
  show "stored NewTopicsIndex f c = None" for f c
    by (simp add: stored_pay NewTopicsIndex_def shared_get_def)
qed (simp_all add: keel_inv stored_Subscribe stored_Unsubscribe)

definition apply_op :: "index_op \<Rightarrow> TopicsIndex \<Rightarrow> TopicsIndex" where
  "apply_op op x = (case op of IxAdd c s \<Rightarrow> fst (Subscribe c s x) | IxRemove f c \<Rightarrow> fst (Unsubscribe f c x))"

lemma run_ops_inv:
  "\<forall>op\<in>set ops. ok_filter (op_filter op) \<Longrightarrow> index_inv (fold apply_op ops NewTopicsIndex)"
  using trie.run_inv[OF trie.inv_new, of ops] by (simp add: apply_op_def[abs_def])

lemma run_ops_table:
  "\<forall>op\<in>set ops. ok_filter (op_filter op) \<Longrightarrow> ok_filter f \<Longrightarrow>
   stored (fold apply_op ops NewTopicsIndex) f c = fold table_step ops Map.empty (f, c)"
  using trie.run_refines_table[of ops f NewTopicsIndex Map.empty c]
  by (simp add: trie.entry_new apply_op_def[abs_def])

lemma go_split_hd:
  "s \<noteq> [] \<Longrightarrow> hd s \<noteq> c \<Longrightarrow> hd (go_split c s) \<noteq> [] \<and> hd (hd (go_split c s)) = hd s"
  "s \<noteq> [] \<Longrightarrow> hd s = c \<Longrightarrow> hd (go_split c s) = []"
  by (cases s; simp split: list.split)+

lemma first_level_char:
  assumes "s \<noteq> []" "k \<noteq> CHR ''/''"
  shows "hd s = k \<longleftrightarrow> (\<exists>r. hd (go_split CHR ''/'' s) = k # r)"
proof (cases "hd s = CHR ''/''")
  case True
  with assms go_split_hd(2)[of s "CHR ''/''"] show ?thesis by auto
next
  case False
  with assms go_split_hd(1)[of s "CHR ''/''"] show ?thesis
    by (cases "hd (go_split CHR ''/'' s)") auto
qed

lemma levels_match_first:
  "levels_match (f # fs) (t # ts) \<Longrightarrow> f = ''#'' \<or> f = ''+'' \<or> f = t"
  by (auto simp: match_segments_iff[symmetric] split: if_splits)

lemma dollar_rules_agree:
  assumes "topic \<noteq> ''''" "levels_match (go_split CHR ''/'' f) (go_split CHR ''/'' topic)"
  shows "dollar_skip topic (filter_sub f) \<longleftrightarrow> dollar_guard (go_split CHR ''/'' f) (go_split CHR ''/'' topic)"
proof -
  obtain fl fs tl ts where l: "go_split CHR ''/'' f = fl # fs" "go_split CHR ''/'' topic = tl # ts"
    using go_split_not_Nil by (metis neq_Nil_conv)
  have "fl = ''#'' \<or> fl = ''+'' \<or> fl = tl" using assms(2) levels_match_first l by metis
  moreover have "hd topic = CHR ''$'' \<longleftrightarrow> (\<exists>r. tl = CHR ''$'' # r)"
    using first_level_char[OF assms(1), of "CHR ''$''"] l by simp
  moreover have "f \<noteq> '''' \<and> hd f = CHR ''+'' \<longleftrightarrow> (\<exists>r. fl = CHR ''+'' # r)"
    "f \<noteq> '''' \<and> hd f = CHR ''#'' \<longleftrightarrow> (\<exists>r. fl = CHR ''#'' # r)"
    using first_level_char[of f "CHR ''+''"] first_level_char[of f "CHR ''#''"] l by (cases "f = ''''"; force)+
  ultimately show ?thesis
    unfolding dollar_skip_def dollar_guard_def filter_sub_def l has_prefix_iff by auto
qed

lemma covers_MatchTopic:
  assumes "\<not> is_share f" "topic \<noteq> ''''" "''#'' \<notin> set (go_split CHR ''/'' topic)" "''+'' \<notin> set (go_split CHR ''/'' topic)"
  shows "covers f topic \<longleftrightarrow> MatchTopic f topic \<and> \<not> plus_parent (go_split CHR ''/'' f) (go_split CHR ''/'' topic)"
proof -
  let ?fs = "go_split CHR ''/'' f" and ?ts = "go_split CHR ''/'' topic"
  have sm: "scan_match ?fs ?ts \<longleftrightarrow> levels_match ?fs ?ts \<and> \<not> plus_parent ?fs ?ts"
    using assms(3) by (intro scan_match_iff) simp_all
  have cov: "covers f topic \<longleftrightarrow> scan_match ?fs ?ts \<and> \<not> dollar_skip topic (filter_sub f)"
    using assms(1,2) by (simp add: covers_def slot_path_def)
  show ?thesis
  proof (cases "f = topic")
    case False
    then show ?thesis unfolding cov sm MatchTopic_iff using dollar_rules_agree[OF assms(2), of f] by blast
  next
    case True
    have "list_all2 level_match ?ts ?ts" by (simp add: list.rel_refl level_match_def)
    then have lm: "levels_match ?ts ?ts" using assms(3) by (simp add: levels_match_def)
    moreover have "\<not> dollar_guard ?ts ?ts" by (simp add: dollar_guard_def)
    moreover have "\<not> plus_parent ?ts ?ts" by (auto simp: plus_parent_def)
    ultimately show ?thesis using dollar_rules_agree[OF assms(2), of topic] cov sm by (simp add: True)
  qed
qed

lemma table_matches:
  assumes "\<forall>op\<in>set ops. ok_filter (op_filter op)"
  defines "x \<equiv> fold apply_op ops NewTopicsIndex" and "T \<equiv> fold table_step ops Map.empty"
  shows "(\<exists>s. matches topic x c s) \<longleftrightarrow> (\<exists>f. T (f, c) \<noteq> None \<and> \<not> is_share f \<and> covers f topic)"
    "ok_filter f \<Longrightarrow> group_member topic x f c \<longleftrightarrow> T (f, c) \<noteq> None \<and> is_share f \<and> covers f topic"
proof -
  have inv: "index_inv x" using run_ops_inv[OF assms(1)] by (simp add: x_def)
  have st: "stored x f c = T (f, c)" if "ok_filter f" for f c
    using run_ops_table[OF assms(1) that] by (simp add: x_def T_def)
  show "(\<exists>s. matches topic x c s) \<longleftrightarrow> (\<exists>f. T (f, c) \<noteq> None \<and> \<not> is_share f \<and> covers f topic)"
  proof
    assume "\<exists>s. matches topic x c s"
    then obtain s where "\<not> is_share (sub_Filter s)" "stored x (sub_Filter s) c = Some s" "covers (sub_Filter s) topic"
      using matches_iff[OF inv] by blast
    then show "\<exists>f. T (f, c) \<noteq> None \<and> \<not> is_share f \<and> covers f topic"
      using st[of "sub_Filter s" c] by (intro exI[of _ "sub_Filter s"]) (auto simp: ok_filter_def)
  next
    assume "\<exists>f. T (f, c) \<noteq> None \<and> \<not> is_share f \<and> covers f topic"
    then obtain f s where f: "stored x f c = Some s" "\<not> is_share f" "covers f topic"
      using st by (auto simp: ok_filter_def)
    then have "sub_Filter s = f" using stored_iff[OF inv, of f c s] by (auto simp: ok_filter_def)
    with f show "\<exists>s. matches topic x c s" using matches_iff[OF inv] by auto
  qed
  show "group_member topic x f c \<longleftrightarrow> T (f, c) \<noteq> None \<and> is_share f \<and> covers f topic" if "ok_filter f"
    using group_member_iff[OF inv that] st[OF that] by auto
qed

lemma Unsubscribe_other_payload:
  "fst (snd (snd (pay (x_root (fst (Unsubscribe f c x))) path))) = fst (snd (snd (pay (x_root x) path)))"
  "snd (snd (snd (pay (x_root (fst (Unsubscribe f c x))) path))) = snd (snd (snd (pay (x_root x) path)))"
  by (simp_all add: Unsubscribe_pay Let_def)

lemma Subscribe_other_payload:
  "fst (snd (snd (pay (x_root (fst (Subscribe c s x))) path))) = fst (snd (snd (pay (x_root x) path)))"
  "snd (snd (snd (pay (x_root (fst (Subscribe c s x))) path))) = snd (snd (snd (pay (x_root x) path)))"
  by (simp_all add: Subscribe_pay Let_def)

lemma run_ops_payload:
  "snd (snd (pay (x_root (fold apply_op ops NewTopicsIndex)) path)) = ([], '''')"
proof (induction ops rule: rev_induct)
  case Nil
  then show ?case by (simp add: NewTopicsIndex_def)
next
  case (snoc op ops)
  then show ?case
    by (cases op) (simp_all add: apply_op_def prod_eq_iff Subscribe_other_payload Unsubscribe_other_payload)
qed

lemma nonempty_pair:
  assumes "xs \<noteq> []"
  obtains a b where "(a, b) \<in> set xs"
  using assms by (cases xs) force+

lemma empty_table_empty_trie:
  assumes "\<forall>op\<in>set ops. ok_filter (op_filter op)" "fold table_step ops Map.empty = Map.empty"
  shows "p_children (x_root (fold apply_op ops NewTopicsIndex)) = []"
proof -
  let ?x = "fold apply_op ops NewTopicsIndex"
  have inv: "index_inv ?x" by (rule run_ops_inv[OF assms(1)])
  then have pl: "placed (pay (x_root ?x))" and wf: "wf_node (x_root ?x)" by (simp_all add: index_inv_def)
  have st: "stored ?x f c = None" if "ok_filter f" for f c
    using run_ops_table[OF assms(1) that] assms(2) by simp
  have "fst (pay (x_root ?x) path) = []" for path
  proof (rule ccontr)
    assume "fst (pay (x_root ?x) path) \<noteq> []"
    then obtain c s where cs: "(c, s) \<in> set (fst (pay (x_root ?x) path))" by (rule nonempty_pair)
    with placedD(1)[OF pl this] st[of "sub_Filter s" c] stored_iff[OF inv, of "sub_Filter s" c s]
    show False by (auto simp: ok_filter_def content_fields)
  qed
  moreover have "fst (snd (pay (x_root ?x) path)) = []" for path
  proof (rule ccontr)
    assume "fst (snd (pay (x_root ?x) path)) \<noteq> []"
    then have ne: "p_shared (content (x_root ?x) path) \<noteq> []" by (simp add: content_fields)
    then obtain g xs where "(g, xs) \<in> set (p_shared (content (x_root ?x) path))" by (rule nonempty_pair)
    moreover have ok: "groups_ok (p_shared (content (x_root ?x) path))" by (rule content_groups_ok[OF inv])
    ultimately have m: "map_of (p_shared (content (x_root ?x) path)) g = Some xs" by (simp add: groups_ok_def)
    then have "xs \<noteq> []" using groups_okD[OF ok] by blast
    then obtain c s where "(c, s) \<in> set xs" by (rule nonempty_pair)
    note this m
    then have cs: "(c, s) \<in> set (share_members (fst (snd (pay (x_root ?x) path))) g)"
      by (simp add: share_members_def content_fields)
    with placedD(2)[OF pl this] st[of "sub_Filter s" c] stored_iff[OF inv, of "sub_Filter s" c s]
    show False by (auto simp: content_fields)
  qed
  ultimately have "pay (x_root ?x) path = ([], [], [], '''')" for path
    using run_ops_payload[of ops path] by (simp add: prod_eq_iff)
  then show ?thesis by (rule wf_no_leak[OF wf])
qed

subsection \<open>Properties\<close>

definition example_ops :: "index_op list" where
  "example_ops = [IxAdd ''n1'' (filter_sub ''a/+''), IxAdd ''n2'' (filter_sub ''$share/g/a/b''),
     IxAdd ''n3'' (filter_sub ''$share/g/a/b''), IxAdd ''n1'' (filter_sub ''x''), IxRemove ''x'' ''n1'']"

lemma example_ops_ok: "\<forall>op\<in>set example_ops. ok_filter (op_filter op)"
proof -
  have "ok_filter (''$share/'' @ ''g'' @ CHR ''/'' # ''a/b'')" by (rule ok_share) simp
  moreover have "\<not> is_share ''a/+''" "\<not> is_share ''x''" by code_simp+
  ultimately show ?thesis by (simp add: example_ops_def filter_sub_def ok_filter_def)
qed

text \<open>The trie implements a table of subscriptions. After any sequence of subscriptions and
  unsubscriptions the routing query returns a client if and only if the table, kept by the same
  sequence, holds an ordinary filter of that client covering the topic, or the client is the member
  the plan chose for a shared filter whose group has no local member.\<close>

theorem index_plan_nodes:
  assumes "\<forall>op\<in>set ops. ok_filter (op_filter op)" "visits_all visit"
  defines "x \<equiv> fold apply_op ops NewTopicsIndex" and "T \<equiv> fold table_step ops Map.empty"
  shows "c \<in> fst (SubscriberRoutingPlan visit topic local x) \<longleftrightarrow>
     (\<exists>f. T (f, c) \<noteq> None \<and> \<not> is_share f \<and> covers f topic) \<or>
     (\<exists>f. snd (SubscriberRoutingPlan visit topic local x) f = Some c \<and> (local = '''' \<or> \<not> group_member topic x f local))"
  using plan_nodes[OF assms(2), of c topic local x] table_matches(1)[OF assms(1), of topic c, folded x_def T_def] by simp

theorem index_plan_nodes_witness:
  "''n1'' \<in> fst (SubscriberRoutingPlan id ''a/b'' '''' (fold apply_op example_ops NewTopicsIndex))"
proof -
  have "fold table_step example_ops Map.empty (''a/+'', ''n1'') \<noteq> None"
    by (simp add: example_ops_def filter_sub_def)
  moreover have "covers ''a/+'' ''a/b''" "\<not> is_share ''a/+''" by code_simp+
  moreover have "visits_all id" by (simp add: visits_all_def)
  ultimately show ?thesis
    using index_plan_nodes[OF example_ops_ok, of id "''n1''" "''a/b''" "''''"] by blast
qed

text \<open>A shared group gets a message exactly once: whatever order the members are visited in, the
  plan names a member for a shared filter if and only if the table holds a member of it covering the
  topic, the named client is such a member, and it is the local node whenever the local node is one.\<close>

theorem index_plan_shared:
  assumes "\<forall>op\<in>set ops. ok_filter (op_filter op)" "visits_all visit" "ok_filter f" "is_share f"
  defines "x \<equiv> fold apply_op ops NewTopicsIndex" and "T \<equiv> fold table_step ops Map.empty"
  shows "case snd (SubscriberRoutingPlan visit topic local x) f of
      None \<Rightarrow> \<not> (\<exists>c. T (f, c) \<noteq> None \<and> covers f topic)
    | Some c \<Rightarrow> T (f, c) \<noteq> None \<and> covers f topic \<and> (local \<noteq> '''' \<and> T (f, local) \<noteq> None \<longrightarrow> c = local)"
  using plan_choice[OF assms(2), where topic = topic and local = local and x = x and f = f] assms(4)
    table_matches(2)[OF assms(1,3), of topic, folded x_def T_def]
  by (auto split: option.splits)

theorem index_plan_shared_witness:
  "\<exists>c. snd (SubscriberRoutingPlan rev ''a/b'' ''n3'' (fold apply_op example_ops NewTopicsIndex)) ''$share/g/a/b'' = Some c \<and>
       c = ''n3''"
proof -
  let ?f = "''$share/'' @ ''g'' @ CHR ''/'' # ''a/b''"
  let ?p = "snd (SubscriberRoutingPlan rev ''a/b'' ''n3'' (fold apply_op example_ops NewTopicsIndex)) ?f"
  have v: "visits_all rev" by (simp add: visits_all_def)
  have f: "ok_filter ?f" "is_share ?f" by (rule ok_share; simp)+
  have T: "fold table_step example_ops Map.empty (?f, ''n3'') \<noteq> None"
    by (simp add: example_ops_def filter_sub_def)
  have "covers ?f ''a/b''" by code_simp
  with T index_plan_shared[OF example_ops_ok v f, where topic = "''a/b''" and local = "''n3''"]
  show ?thesis by (cases ?p) auto
qed



text \<open>Nothing leaks: when the table a sequence of subscriptions and unsubscriptions leaves is
  empty, the trie has no particle left but its root.\<close>

theorem index_no_leak:
  assumes "\<forall>op\<in>set ops. ok_filter (op_filter op)" "fold table_step ops Map.empty = Map.empty"
  shows "p_children (x_root (fold apply_op ops NewTopicsIndex)) = []"
  by (rule empty_table_empty_trie[OF assms])

theorem index_no_leak_witness:
  "p_children (x_root (fold apply_op [IxAdd ''n'' (filter_sub ''a/b/#''), IxRemove ''a/b/#'' ''n''] NewTopicsIndex)) = []"
proof -
  have "\<not> is_share ''a/b/#''" by code_simp
  then show ?thesis by (intro index_no_leak) (simp_all add: filter_sub_def ok_filter_def)
qed

text \<open>Overlapping subscriptions deliver once at the highest QoS: a client appears among the
  subscribers of a topic if and only if it holds a covering ordinary subscription, and the merged
  subscription carries the maximum QoS over all of them.\<close>

theorem index_subscribers_qos:
  assumes "index_inv x"
  shows "case s_Subscriptions (Subscribers_of topic x) c of
      None \<Rightarrow> \<not> (\<exists>f. \<not> is_share f \<and> stored x f c \<noteq> None \<and> covers f topic)
    | Some s \<Rightarrow> sub_Qos s = Max {q. \<exists>f t. \<not> is_share f \<and> stored x f c = Some t \<and> covers f topic \<and> q = sub_Qos t}"
proof -
  have m: "matches topic x c s \<longleftrightarrow> (\<exists>f. \<not> is_share f \<and> stored x f c = Some s \<and> covers f topic)" for s
    using matches_iff[OF assms, of topic c s] stored_iff[OF assms, of _ c s] by (auto simp: ok_filter_def)
  show ?thesis
  proof (cases "s_Subscriptions (Subscribers_of topic x) c")
    case None
    with Subscribers_dom[of topic x c] m show ?thesis by auto
  next
    case (Some s)
    have "sub_Qos ` {s. matches topic x c s} =
      {q. \<exists>f t. \<not> is_share f \<and> stored x f c = Some t \<and> covers f topic \<and> q = sub_Qos t}"
      unfolding m by auto
    with Subscribers_Qos[OF Some] Some show ?thesis by simp
  qed
qed

definition example_overlap :: TopicsIndex where
  "example_overlap = fst (Subscribe ''c'' ((filter_sub ''a/b'')\<lparr>sub_Qos := 2\<rparr>)
     (fst (Subscribe ''c'' ((filter_sub ''a/+'')\<lparr>sub_Qos := 1\<rparr>) NewTopicsIndex)))"

theorem index_subscribers_qos_witness:
  "\<exists>s. s_Subscriptions (Subscribers_of ''a/b'' example_overlap) ''c'' = Some s \<and> sub_Qos s = 2 \<and>
     Max {q. \<exists>f t. \<not> is_share f \<and> stored example_overlap f ''c'' = Some t \<and> covers f ''a/b'' \<and> q = sub_Qos t} = 2"
proof -
  have ok: "\<not> is_share ''a/b''" "\<not> is_share ''a/+''" by code_simp+
  have inv: "index_inv example_overlap"
    unfolding example_overlap_def using ok
    by (intro index_inv_Subscribe index_inv_new) (simp_all add: filter_sub_def ok_filter_def)
  have "map_option sub_Qos (s_Subscriptions (Subscribers_of ''a/b'' example_overlap) ''c'') = Some 2"
    by code_simp
  then obtain s where "s_Subscriptions (Subscribers_of ''a/b'' example_overlap) ''c'' = Some s" "sub_Qos s = 2"
    by auto
  with index_subscribers_qos[OF inv, where topic = "''a/b''" and c = "''c''"] show ?thesis by auto
qed

end
