(* ===== verification/Base64.thy ===== *)
theory Base64
  imports Prelude
begin

text \<open>
  The unpadded URL-safe base64 of \<open>encoding/base64\<close> (\<open>RawURLEncoding\<close>), which the router uses to pack
  a client and a filter into one opaque topic level: \<open>EncodeToString\<close> and \<open>DecodeString\<close>, where the
  decoder skips line breaks, ignores left-over bits of a short last quantum and rejects any other
  character and a quantum of length one. The round trip and the alphabet of the output are proved.
\<close>

definition b64_alphabet :: string where
  "b64_alphabet = ''ABCDEFGHIJKLMNOPQRSTUVWXYZabcdefghijklmnopqrstuvwxyz0123456789-_''"

definition b64_char :: "nat \<Rightarrow> char" where
  "b64_char i = b64_alphabet ! i"

definition b64_index :: "char \<Rightarrow> nat option" where
  "b64_index c = map_of (zip b64_alphabet [0..<64]) c"

fun b64_digits :: "nat list \<Rightarrow> nat list" where
  "b64_digits [] = []"
| "b64_digits [a] = [a div 4, a mod 4 * 16]"
| "b64_digits [a, b] = [a div 4, a mod 4 * 16 + b div 16, b mod 16 * 4]"
| "b64_digits (a # b # c # r) =
     a div 4 # (a mod 4 * 16 + b div 16) # (b mod 16 * 4 + c div 64) # c mod 64 # b64_digits r"

fun b64_bytes :: "nat list \<Rightarrow> nat list option" where
  "b64_bytes [] = Some []"
| "b64_bytes [w] = None"
| "b64_bytes [w, x] = Some [w * 4 + x div 16]"
| "b64_bytes [w, x, y] = Some [w * 4 + x div 16, x mod 16 * 16 + y div 4]"
| "b64_bytes (w # x # y # z # r) =
     map_option (\<lambda>bs. (w * 4 + x div 16) # (x mod 16 * 16 + y div 4) # (y mod 4 * 64 + z) # bs) (b64_bytes r)"

fun b64_values :: "string \<Rightarrow> nat list option" where
  "b64_values [] = Some []"
| "b64_values (c # s) =
     (if c = CHR 0x0A \<or> c = CHR 0x0D then b64_values s
      else case b64_index c of
        None \<Rightarrow> None
      | Some i \<Rightarrow> map_option (Cons i) (b64_values s))"

definition EncodeToString :: "string \<Rightarrow> string" where
  "EncodeToString s = map b64_char (b64_digits (map of_char s))"

definition DecodeString :: "string \<Rightarrow> string option" where
  "DecodeString s = Option.bind (b64_values s) (\<lambda>ds. map_option (map char_of) (b64_bytes ds))"

subsection \<open>Round trip\<close>

lemma b64_digit_bounds:
  fixes a b c :: nat
  assumes "a < 256" "b < 256" "c < 256"
  shows "a div 4 < 64" "a mod 4 * 16 + b div 16 < 64" "b mod 16 * 4 + c div 64 < 64" "c mod 64 < 64"
proof -
  have "a mod 4 < 4" "b div 16 < 16" "b mod 16 < 16" "c div 64 < 4"
    using assms by (simp_all add: less_mult_imp_div_less)
  then show "a mod 4 * 16 + b div 16 < 64" "b mod 16 * 4 + c div 64 < 64" by linarith+
qed (use assms in \<open>simp_all add: less_mult_imp_div_less\<close>)

lemma b64_digits_bound: "\<forall>b\<in>set bs. b < 256 \<Longrightarrow> \<forall>d\<in>set (b64_digits bs). d < 64"
proof (induction bs rule: b64_digits.induct)
  case (2 a)
  then show ?case using b64_digit_bounds[of a 0 0] by simp
next
  case (3 a b)
  then show ?case using b64_digit_bounds[of a b 0] by simp
next
  case (4 a b c r)
  then show ?case using b64_digit_bounds[of a b c] by simp
qed simp

lemma b64_quantum:
  fixes a b c :: nat
  assumes "a < 256" "b < 256" "c < 256"
  shows "a div 4 * 4 + (a mod 4 * 16 + b div 16) div 16 = a"
    "(a mod 4 * 16 + b div 16) mod 16 * 16 + (b mod 16 * 4 + c div 64) div 4 = b"
    "(b mod 16 * 4 + c div 64) mod 4 * 64 + c mod 64 = c"
proof -
  have "b div 16 < 16" "c div 64 < 4" using assms by (simp_all add: less_mult_imp_div_less)
  then show "a div 4 * 4 + (a mod 4 * 16 + b div 16) div 16 = a"
    "(a mod 4 * 16 + b div 16) mod 16 * 16 + (b mod 16 * 4 + c div 64) div 4 = b"
    "(b mod 16 * 4 + c div 64) mod 4 * 64 + c mod 64 = c"
    by simp_all
qed

lemma b64_bytes_digits: "\<forall>b\<in>set bs. b < 256 \<Longrightarrow> b64_bytes (b64_digits bs) = Some bs"
proof (induction bs rule: b64_digits.induct)
  case (2 a)
  then show ?case using b64_quantum(1)[of a 0 0] by simp
next
  case (3 a b)
  then show ?case using b64_quantum(1,2)[of a b 0] by simp
next
  case (4 a b c r)
  then show ?case using b64_quantum[of a b c] by simp
qed simp

lemma b64_index_char: "i < 64 \<Longrightarrow> b64_index (b64_char i) = Some i"
proof -
  have "list_all (\<lambda>i. b64_index (b64_char i) = Some i) [0..<64]" by code_simp
  then show "i < 64 \<Longrightarrow> b64_index (b64_char i) = Some i" by (simp add: list_all_iff)
qed

lemma b64_char_safe:
  "i < 64 \<Longrightarrow> b64_char i \<notin> {CHR 0x0A, CHR 0x0D, CHR 0x00, CHR ''/'', CHR ''+'', CHR ''#'', CHR ''$''}"
proof -
  have "list_all (\<lambda>i. b64_char i \<notin> set [CHR 0x0A, CHR 0x0D, CHR 0x00, CHR ''/'', CHR ''+'', CHR ''#'', CHR ''$'']) [0..<64]"
    by code_simp
  then show "i < 64 \<Longrightarrow> b64_char i \<notin> {CHR 0x0A, CHR 0x0D, CHR 0x00, CHR ''/'', CHR ''+'', CHR ''#'', CHR ''$''}"
    by (simp add: list_all_iff)
qed

lemma b64_values_chars: "\<forall>d\<in>set ds. d < 64 \<Longrightarrow> b64_values (map b64_char ds) = Some ds"
  using b64_char_safe b64_index_char by (induction ds) auto

lemma DecodeString_EncodeToString [simp]: "DecodeString (EncodeToString s) = Some s"
proof -
  have b: "\<forall>b\<in>set (map of_char s). (b::nat) < 256" by simp
  have "b64_values (EncodeToString s) = Some (b64_digits (map of_char s))"
    unfolding EncodeToString_def by (rule b64_values_chars[OF b64_digits_bound[OF b]])
  then show ?thesis by (simp add: DecodeString_def b64_bytes_digits[OF b] comp_def)
qed

lemma EncodeToString_inject: "EncodeToString s = EncodeToString t \<longleftrightarrow> s = t"
  by (metis DecodeString_EncodeToString option.inject)

lemma EncodeToString_safe:
  "c \<in> set (EncodeToString s) \<Longrightarrow> c \<notin> {CHR 0x0A, CHR 0x0D, CHR 0x00, CHR ''/'', CHR ''+'', CHR ''#'', CHR ''$''}"
  unfolding EncodeToString_def using b64_digits_bound[of "map of_char s"] b64_char_safe by fastforce

end
