(* ===== verification/Router.thy ===== *)
theory Router
  imports TopicsIndex Base64
begin

text \<open>
  The routing table every node keeps (\<open>internal/cluster/routing/router.go\<close> and \<open>reconciler.go\<close>): keys of
  the distributed store, the local cache (the topic index, the per-node inverse index and the index of
  offline shared owners), events, reconciliation, the delivery plans, and the re-assertion of live local
  filters. A Go map is a function to \<open>option\<close>, and a loop over one takes the order it happens to use as
  a parameter: a list of candidate keys, of which the loop visits those present. The store is a set of
  keys and the events published; each call of it takes the outcome it meets, success or a failure that
  may have taken effect on any part of its keys. The cache is proved to be a representation of one
  relation between topics and nodes, and the answers to queries are characterised by that relation.
\<close>

subsection \<open>Keys\<close>

definition keySep :: string where "keySep = [CHR 0x00]"

definition routeKey :: "string \<Rightarrow> string \<Rightarrow> string" where
  "routeKey topic nodeID = topic @ keySep @ nodeID"

definition parseRouteKey :: "string \<Rightarrow> (string \<times> string) option" where
  "parseRouteKey key = cut_last CHR 0x00 key"

definition offlineRoutePrefix :: string where "offlineRoutePrefix = ''$offlineroute/''"

definition OfflineRouteKey :: "string \<Rightarrow> string" where
  "OfflineRouteKey filt = offlineRoutePrefix @ filt"

definition ownershipKeyPrefix :: string where "ownershipKeyPrefix = ''$offline/''"

definition OwnershipKey :: "string \<Rightarrow> string \<Rightarrow> string" where
  "OwnershipKey clientID filt = ownershipKeyPrefix @ EncodeToString (clientID @ CHR 0x00 # filt)"

definition ownershipKeyParts :: "string \<Rightarrow> (string \<times> string) option" where
  "ownershipKeyParts key =
     (if \<not> has_prefix key ownershipKeyPrefix then None
      else case DecodeString (trim_prefix key ownershipKeyPrefix) of
        None \<Rightarrow> None
      | Some raw \<Rightarrow>
          (case cut_first CHR 0x00 raw of
             None \<Rightarrow> None
           | Some (clientID, filt) \<Rightarrow> if filt = '''' then None else Some (clientID, filt)))"

definition ownershipKeyClientID :: "string \<Rightarrow> string option" where
  "ownershipKeyClientID key = map_option fst (ownershipKeyParts key)"

definition sharedOwnerKey :: "string \<Rightarrow> string \<Rightarrow> string" where
  "sharedOwnerKey nodeID clientID = nodeID @ keySep @ clientID"

definition sharedOwnerNode :: "string \<Rightarrow> string option" where
  "sharedOwnerNode key =
     (case cut_first CHR 0x00 key of
        None \<Rightarrow> None
      | Some (n, _) \<Rightarrow> if n = '''' then None else Some n)"

subsection \<open>The local cache\<close>

record routeEvent =
  ev_Op :: string
  ev_Topic :: string
  ev_Topics :: "string list"
  ev_NodeID :: string

definition eventSubscribe :: string where "eventSubscribe = ''sub''"
definition eventUnsubscribe :: string where "eventUnsubscribe = ''unsub''"
definition eventUnsubscribeBatch :: string where "eventUnsubscribeBatch = ''unsub_batch''"
definition eventPurgeNode :: string where "eventPurgeNode = ''purge''"

record Router =
  rt_index :: TopicsIndex
  rt_byNode :: "string \<rightharpoonup> string set"
  rt_offlineShared :: "string \<rightharpoonup> TopicsIndex"
  rt_offlineSharedOwners :: "string \<rightharpoonup> string set"
  rt_storeUp :: bool
  rt_storeFailures :: nat

definition emptyRouter :: Router where
  "emptyRouter = \<lparr>rt_index = NewTopicsIndex, rt_byNode = Map.empty, rt_offlineShared = Map.empty,
     rt_offlineSharedOwners = Map.empty, rt_storeUp = False, rt_storeFailures = 0\<rparr>"

text \<open>The lookup of a nested map: a missing entry reads as the empty set.\<close>

definition set_at :: "(string \<rightharpoonup> string set) \<Rightarrow> string \<Rightarrow> string set" where
  "set_at m k = (case m k of None \<Rightarrow> {} | Some T \<Rightarrow> T)"

definition addOfflineSharedOwnershipLocked :: "string \<Rightarrow> string \<Rightarrow> Router \<Rightarrow> Router" where
  "addOfflineSharedOwnershipLocked topic nodeID r =
     (case ownershipKeyParts topic of
        None \<Rightarrow> r
      | Some (clientID, filt) \<Rightarrow>
          (case SharedFilter filt of
             None \<Rightarrow> r
           | Some (_, underlying) \<Rightarrow>
               let idx = (case rt_offlineShared r filt of None \<Rightarrow> NewTopicsIndex | Some idx \<Rightarrow> idx);
                   ownerKey = sharedOwnerKey nodeID clientID;
                   owners = set_at (rt_offlineSharedOwners r) filt
               in if ownerKey \<in> owners
                  then r\<lparr>rt_offlineShared := (rt_offlineShared r)(filt \<mapsto> idx),
                         rt_offlineSharedOwners := (rt_offlineSharedOwners r)(filt \<mapsto> owners)\<rparr>
                  else r\<lparr>rt_offlineShared := (rt_offlineShared r)
                           (filt \<mapsto> fst (Subscribe ownerKey (filter_sub underlying) idx)),
                         rt_offlineSharedOwners := (rt_offlineSharedOwners r)(filt \<mapsto> insert ownerKey owners)\<rparr>))"

definition removeOfflineSharedOwnershipLocked :: "string \<Rightarrow> string \<Rightarrow> Router \<Rightarrow> Router" where
  "removeOfflineSharedOwnershipLocked topic nodeID r =
     (case ownershipKeyParts topic of
        None \<Rightarrow> r
      | Some (clientID, filt) \<Rightarrow>
          (case SharedFilter filt of
             None \<Rightarrow> r
           | Some (_, underlying) \<Rightarrow>
               (case rt_offlineShared r filt of
                  None \<Rightarrow> r
                | Some idx \<Rightarrow>
                    let ownerKey = sharedOwnerKey nodeID clientID;
                        r' = r\<lparr>rt_offlineShared := (rt_offlineShared r)
                               (filt \<mapsto> fst (Unsubscribe underlying ownerKey idx))\<rparr>
                    in (case rt_offlineSharedOwners r filt of
                          None \<Rightarrow> r'
                        | Some owners \<Rightarrow>
                            if owners - {ownerKey} = {}
                            then r'\<lparr>rt_offlineSharedOwners := (rt_offlineSharedOwners r)(filt := None),
                                    rt_offlineShared := (rt_offlineShared r)(filt := None)\<rparr>
                            else r'\<lparr>rt_offlineSharedOwners :=
                                    (rt_offlineSharedOwners r)(filt \<mapsto> owners - {ownerKey})\<rparr>))))"

definition addLocalLocked :: "string \<Rightarrow> string \<Rightarrow> Router \<Rightarrow> Router" where
  "addLocalLocked topic nodeID r =
     addOfflineSharedOwnershipLocked topic nodeID
       (r\<lparr>rt_byNode := (rt_byNode r)(nodeID \<mapsto> insert topic (set_at (rt_byNode r) nodeID)),
          rt_index := fst (Subscribe nodeID (filter_sub topic) (rt_index r))\<rparr>)"

definition removeLocalLocked :: "string \<Rightarrow> string \<Rightarrow> Router \<Rightarrow> Router" where
  "removeLocalLocked topic nodeID r =
     (let byNode = (case rt_byNode r nodeID of
                      None \<Rightarrow> rt_byNode r
                    | Some topics \<Rightarrow>
                        if topics - {topic} = {} then (rt_byNode r)(nodeID := None)
                        else (rt_byNode r)(nodeID \<mapsto> topics - {topic}))
      in removeOfflineSharedOwnershipLocked topic nodeID
           (r\<lparr>rt_byNode := byNode, rt_index := fst (Unsubscribe topic nodeID (rt_index r))\<rparr>))"

definition topicsForNodeLocked :: "string list \<Rightarrow> string \<Rightarrow> Router \<Rightarrow> string list" where
  "topicsForNodeLocked order nodeID r = filter (\<lambda>t. t \<in> set_at (rt_byNode r) nodeID) order"

definition applyEvent :: "string list \<Rightarrow> routeEvent \<Rightarrow> Router \<Rightarrow> Router" where
  "applyEvent order ev r =
     (if ev_Op ev = eventSubscribe then addLocalLocked (ev_Topic ev) (ev_NodeID ev) r
      else if ev_Op ev = eventUnsubscribe then removeLocalLocked (ev_Topic ev) (ev_NodeID ev) r
      else if ev_Op ev = eventUnsubscribeBatch
        then fold (\<lambda>t. removeLocalLocked t (ev_NodeID ev)) (ev_Topics ev) r
      else if ev_Op ev = eventPurgeNode
        then fold (\<lambda>t. removeLocalLocked t (ev_NodeID ev)) (topicsForNodeLocked order (ev_NodeID ev) r) r
      else r)"

text \<open>One key of the scan \<open>reconcile\<close> makes, added to the tables it rebuilds from scratch.\<close>

definition reconcile_key :: "string \<Rightarrow> Router \<Rightarrow> Router" where
  "reconcile_key key r =
     (case parseRouteKey key of
        None \<Rightarrow> r
      | Some (topic, nodeID) \<Rightarrow>
          let r' = r\<lparr>rt_byNode := (rt_byNode r)(nodeID \<mapsto> insert topic (set_at (rt_byNode r) nodeID)),
                     rt_index := fst (Subscribe nodeID (filter_sub topic) (rt_index r))\<rparr>
          in (case ownershipKeyParts topic of
                None \<Rightarrow> r'
              | Some (clientID, filt) \<Rightarrow>
                  (case SharedFilter filt of
                     None \<Rightarrow> r'
                   | Some (_, underlying) \<Rightarrow>
                       let idx = (case rt_offlineShared r filt of None \<Rightarrow> NewTopicsIndex | Some idx \<Rightarrow> idx);
                           ownerKey = sharedOwnerKey nodeID clientID
                       in r'\<lparr>rt_offlineShared := (rt_offlineShared r)
                              (filt \<mapsto> fst (Subscribe ownerKey (filter_sub underlying) idx)),
                            rt_offlineSharedOwners := (rt_offlineSharedOwners r)
                              (filt \<mapsto> insert ownerKey (set_at (rt_offlineSharedOwners r) filt))\<rparr>)))"

definition reconcile :: "'e + string list \<Rightarrow> Router \<Rightarrow> Router \<times> 'e option" where
  "reconcile scanned r =
     (case scanned of
        Inl e \<Rightarrow> (r\<lparr>rt_storeFailures := rt_storeFailures r + 1, rt_storeUp := False\<rparr>, Some e)
      | Inr keys \<Rightarrow>
          ((fold reconcile_key keys emptyRouter)\<lparr>rt_storeFailures := 0, rt_storeUp := True\<rparr>, None))"

text \<open>\<open>New\<close>: the first reconciliation and the subscription to the event channel must both succeed.\<close>

definition NewRouter :: "'e + string list \<Rightarrow> 'e option \<Rightarrow> 'e + Router" where
  "NewRouter scanned subscribed =
     (case reconcile scanned emptyRouter of
        (_, Some e) \<Rightarrow> Inl e
      | (r, None) \<Rightarrow> (case subscribed of Some e \<Rightarrow> Inl e | None \<Rightarrow> Inr r))"

definition StoreHealthy :: "Router \<Rightarrow> bool" where
  "StoreHealthy r = rt_storeUp r"

definition ConsecutiveStoreFailures :: "Router \<Rightarrow> nat" where
  "ConsecutiveStoreFailures r = rt_storeFailures r"

subsection \<open>Queries\<close>

record LivePlan =
  lp_Nodes :: "string set"
  lp_SharedNodes :: "string \<rightharpoonup> string"

definition LiveDeliveryPlan ::
  "((string \<times> Subscription) list \<Rightarrow> (string \<times> Subscription) list) \<Rightarrow> string \<Rightarrow> string \<Rightarrow> Router \<Rightarrow> LivePlan" where
  "LiveDeliveryPlan visit topic localNodeID r =
     (let (nodes, sharedNodes) = SubscriberRoutingPlan visit topic localNodeID (rt_index r)
      in \<lparr>lp_Nodes = nodes, lp_SharedNodes = sharedNodes\<rparr>)"

definition NodesFor ::
  "((string \<times> Subscription) list \<Rightarrow> (string \<times> Subscription) list) \<Rightarrow> string \<Rightarrow> string \<Rightarrow> Router \<Rightarrow> string set" where
  "NodesFor visit topic localNodeID r = lp_Nodes (LiveDeliveryPlan visit topic localNodeID r)"

text \<open>The choice among the matching owners of one shared filter, as a pair of node and client; the
  empty node is the initial value.\<close>

definition choose_owner :: "string \<Rightarrow> string \<times> string \<Rightarrow> string \<times> string" where
  "choose_owner ownerKey choice =
     (case sharedOwnerNode ownerKey of
        None \<Rightarrow> choice
      | Some nodeID \<Rightarrow>
          let clientID = drop (length nodeID + length keySep) ownerKey in
          if fst choice = '''' \<or> nodeID < fst choice \<or> (nodeID = fst choice \<and> clientID < snd choice)
          then (nodeID, clientID) else choice)"

definition offlineSharedSelectionsLocked ::
  "string list \<Rightarrow> string \<Rightarrow> Router \<Rightarrow> (string \<rightharpoonup> string \<times> string)" where
  "offlineSharedSelectionsLocked order topic r = (\<lambda>filt.
     case rt_offlineShared r filt of
       None \<Rightarrow> None
     | Some sharedIndex \<Rightarrow>
         if map_of (s_Shared (Subscribers_of topic (rt_index r))) filt \<noteq> None then None
         else
           let matched = s_Subscriptions (Subscribers_of topic sharedIndex);
               choice = fold choose_owner (filter (\<lambda>k. matched k \<noteq> None) order) ('''', '''')
           in if fst choice \<noteq> '''' then Some choice else None)"

definition OfflineSharedClientsFor ::
  "string list \<Rightarrow> string \<Rightarrow> string \<Rightarrow> Router \<Rightarrow> (string \<rightharpoonup> string)" where
  "OfflineSharedClientsFor order topic nodeID r = (\<lambda>filt.
     case offlineSharedSelectionsLocked order topic r filt of
       None \<Rightarrow> None
     | Some (n, clientID) \<Rightarrow> if n = nodeID then Some clientID else None)"

definition OfflineNodesFor :: "string list \<Rightarrow> string list \<Rightarrow> string list \<Rightarrow> string \<Rightarrow> Router \<Rightarrow> string list" where
  "OfflineNodesFor nodes filters order topic r =
     (let subs = s_Subscriptions (Subscribers_of (OfflineRouteKey topic) (rt_index r));
          out = filter (\<lambda>n. subs n \<noteq> None) nodes
      in fold (\<lambda>filt out. case offlineSharedSelectionsLocked order topic r filt of
                None \<Rightarrow> out
              | Some (n, _) \<Rightarrow> if n \<in> set out then out else out @ [n]) filters out)"

definition add_client :: "string \<Rightarrow> string list \<Rightarrow> string list" where
  "add_client clientID clients = (if clientID \<in> set clients then clients else clients @ [clientID])"

definition OfflineDeliveryCandidates ::
  "string list \<Rightarrow> string list \<Rightarrow> string list \<Rightarrow> string \<Rightarrow> string \<Rightarrow> Router \<Rightarrow> string list \<times> (string \<rightharpoonup> string)" where
  "OfflineDeliveryCandidates topics filters order topic nodeID r =
     (let clients = fold (\<lambda>key clients.
            case ownershipKeyParts key of
              None \<Rightarrow> clients
            | Some (clientID, filt) \<Rightarrow>
                if SharedFilter filt \<noteq> None then clients
                else if MatchTopic filt topic then add_client clientID clients
                else clients) (topicsForNodeLocked topics nodeID r) []
      in (fold (\<lambda>filt clients. case OfflineSharedClientsFor order topic nodeID r filt of
                 None \<Rightarrow> clients
               | Some clientID \<Rightarrow> add_client clientID clients) filters clients,
          OfflineSharedClientsFor order topic nodeID r))"

definition OwnedClientIDs :: "string list \<Rightarrow> string \<Rightarrow> Router \<Rightarrow> string list" where
  "OwnedClientIDs order nodeID r =
     fold (\<lambda>t out. case ownershipKeyClientID t of None \<Rightarrow> out | Some clientID \<Rightarrow> add_client clientID out)
       (topicsForNodeLocked order nodeID r) []"

definition NodesWithRoutes :: "string list \<Rightarrow> Router \<Rightarrow> string list" where
  "NodesWithRoutes order r = filter (\<lambda>n. rt_byNode r n \<noteq> None) order"

definition Router_Snapshot :: "string list \<Rightarrow> Router \<Rightarrow> string \<Rightarrow> string list" where
  "Router_Snapshot order r topic = filter (\<lambda>n. topic \<in> set_at (rt_byNode r) n) (NodesWithRoutes order r)"

subsection \<open>Key round trips\<close>

lemma parse_routeKey [go_string]: "CHR 0x00 \<notin> set n \<Longrightarrow> parseRouteKey (routeKey t n) = Some (t, n)"
  by (simp add: parseRouteKey_def routeKey_def keySep_def go_string)

lemma parseRouteKey_Some: "parseRouteKey k = Some (t, n) \<longleftrightarrow> k = routeKey t n \<and> CHR 0x00 \<notin> set n"
  using cut_last_SomeD[of "CHR 0x00" k t n] parse_routeKey[of n t]
  by (auto simp: parseRouteKey_def routeKey_def keySep_def)

lemma routeKey_inject:
  "CHR 0x00 \<notin> set n \<Longrightarrow> CHR 0x00 \<notin> set m \<Longrightarrow> routeKey t n = routeKey u m \<longleftrightarrow> t = u \<and> n = m"
  by (metis parse_routeKey option.inject prod.inject)

lemma ownership_roundtrip [go_string]:
  "CHR 0x00 \<notin> set c \<Longrightarrow> f \<noteq> '''' \<Longrightarrow> ownershipKeyParts (OwnershipKey c f) = Some (c, f)"
  by (simp add: ownershipKeyParts_def OwnershipKey_def trim_prefix_append has_prefix_append cut_first_append)

lemma ownershipKeyParts_SomeD:
  assumes "ownershipKeyParts t = Some (c, f)"
  shows "CHR 0x00 \<notin> set c" "f \<noteq> ''''" "has_prefix t ownershipKeyPrefix"
  using assms by (auto simp: ownershipKeyParts_def split: if_splits option.splits dest: cut_first_SomeD)

lemma sharedOwnerKey_inject:
  assumes "CHR 0x00 \<notin> set n" "CHR 0x00 \<notin> set m"
  shows "sharedOwnerKey n c = sharedOwnerKey m d \<longleftrightarrow> n = m \<and> c = d"
proof
  assume "sharedOwnerKey n c = sharedOwnerKey m d"
  then have "cut_first CHR 0x00 (n @ CHR 0x00 # c) = cut_first CHR 0x00 (m @ CHR 0x00 # d)"
    by (simp add: sharedOwnerKey_def keySep_def)
  then show "n = m \<and> c = d" unfolding cut_first_append[OF assms(1)] cut_first_append[OF assms(2)] by simp
qed simp

lemma sharedOwnerNode_key:
  "CHR 0x00 \<notin> set n \<Longrightarrow> n \<noteq> '''' \<Longrightarrow> sharedOwnerNode (sharedOwnerKey n c) = Some n"
  by (simp add: sharedOwnerNode_def sharedOwnerKey_def keySep_def cut_first_append)

subsection \<open>The cache represents a relation\<close>

text \<open>Topics and nodes the tables tell apart: a topic the index accepts and, if it is the ownership key
  of a shared filter, the canonical encoding of it; a non-empty node name without the separator.\<close>

definition ok_topic :: "string \<Rightarrow> bool" where
  "ok_topic t \<longleftrightarrow> ok_filter t \<and>
     (\<forall>c f g u. ownershipKeyParts t = Some (c, f) \<and> SharedFilter f = Some (g, u) \<longrightarrow>
        t = OwnershipKey c f \<and> ok_filter u)"

definition ok_node :: "string \<Rightarrow> bool" where
  "ok_node n \<longleftrightarrow> n \<noteq> '''' \<and> CHR 0x00 \<notin> set n"

definition underlying :: "string \<Rightarrow> string" where
  "underlying f = (case SharedFilter f of None \<Rightarrow> '''' | Some (_, u) \<Rightarrow> u)"

definition owner_keys :: "(string \<times> string) set \<Rightarrow> string \<Rightarrow> string set" where
  "owner_keys R f = {k. SharedFilter f \<noteq> None \<and>
     (\<exists>t n c. (t, n) \<in> R \<and> ownershipKeyParts t = Some (c, f) \<and> k = sharedOwnerKey n c)}"

definition holds_exactly :: "TopicsIndex \<Rightarrow> (string \<times> string) set \<Rightarrow> bool" where
  "holds_exactly x R \<longleftrightarrow> index_inv x \<and>
     (\<forall>f c. ok_filter f \<longrightarrow> stored x f c = (if (f, c) \<in> R then Some (filter_sub f) else None))"

definition topics_of :: "(string \<times> string) set \<Rightarrow> string \<Rightarrow> string set" where
  "topics_of R n = {t. (t, n) \<in> R}"

definition nodes_inv :: "(string \<rightharpoonup> string set) \<Rightarrow> (string \<times> string) set \<Rightarrow> bool" where
  "nodes_inv m R \<longleftrightarrow> (\<forall>n. m n = (if topics_of R n = {} then None else Some (topics_of R n)))"

definition shared_at :: "string \<Rightarrow> TopicsIndex option \<Rightarrow> string set option \<Rightarrow> string set \<Rightarrow> bool" where
  "shared_at f ix ow K \<longleftrightarrow> ow = (if K = {} then None else Some K) \<and>
     (case ix of None \<Rightarrow> K = {} | Some x \<Rightarrow> K \<noteq> {} \<and> holds_exactly x ({underlying f} \<times> K))"

definition shared_inv ::
  "(string \<rightharpoonup> TopicsIndex) \<Rightarrow> (string \<rightharpoonup> string set) \<Rightarrow> (string \<Rightarrow> string set) \<Rightarrow> bool" where
  "shared_inv ix ow K \<longleftrightarrow> (\<forall>f. shared_at f (ix f) (ow f) (K f))"

definition router_inv :: "Router \<Rightarrow> (string \<times> string) set \<Rightarrow> bool" where
  "router_inv r R \<longleftrightarrow>
     (\<forall>(t, n)\<in>R. ok_topic t \<and> ok_node n) \<and> nodes_inv (rt_byNode r) R \<and> holds_exactly (rt_index r) R \<and>
     shared_inv (rt_offlineShared r) (rt_offlineSharedOwners r) (owner_keys R)"

lemma holds_exactly_new: "holds_exactly NewTopicsIndex {}"
  by (simp add: holds_exactly_def trie.inv_new trie.entry_new)

lemma holds_exactly_add:
  "holds_exactly x R \<Longrightarrow> ok_filter f \<Longrightarrow> holds_exactly (fst (Subscribe c (filter_sub f) x)) (insert (f, c) R)"
  using trie.inv_add[of x "filter_sub f" c] by (simp add: holds_exactly_def trie.entry_add filter_sub_def)

lemma holds_exactly_remove:
  "holds_exactly x R \<Longrightarrow> ok_filter f \<Longrightarrow> holds_exactly (fst (Unsubscribe f c x)) (R - {(f, c)})"
  using trie.inv_remove[of x f c] by (auto simp: holds_exactly_def trie.entry_remove)

lemma topics_of_simps [simp]:
  "topics_of {} n = {}"
  "topics_of (insert (t, m) R) n = (if n = m then insert t (topics_of R n) else topics_of R n)"
  "topics_of (R - {(t, m)}) n = (if n = m then topics_of R n - {t} else topics_of R n)"
  by (auto simp: topics_of_def)

lemma set_at_nodes: "nodes_inv m R \<Longrightarrow> set_at m n = topics_of R n"
  by (simp add: nodes_inv_def set_at_def)

lemma nodes_inv_add:
  "nodes_inv m R \<Longrightarrow> nodes_inv (m(n \<mapsto> insert t (set_at m n))) (insert (t, n) R)"
  by (simp add: set_at_nodes) (simp add: nodes_inv_def)

lemma nodes_inv_remove:
  assumes "nodes_inv m R"
  shows "nodes_inv (case m n of None \<Rightarrow> m | Some T \<Rightarrow> if T - {t} = {} then m(n := None) else m(n \<mapsto> T - {t})) (R - {(t, n)})"
  using assms by (simp add: nodes_inv_def)


lemma owner_keys_empty [simp]: "owner_keys {} f = {}"
  by (simp add: owner_keys_def)

lemma owner_keys_insert:
  "owner_keys (insert (t, n) R) f =
     (case ownershipKeyParts t of
        None \<Rightarrow> owner_keys R f
      | Some (c, f') \<Rightarrow> if f' = f \<and> SharedFilter f \<noteq> None then insert (sharedOwnerKey n c) (owner_keys R f)
                         else owner_keys R f)"
  by (auto simp: owner_keys_def split: option.splits)

lemma owner_keys_remove:
  assumes R: "\<forall>(t, n)\<in>R. ok_topic t \<and> ok_node n" and ok: "ok_topic t" "ok_node n"
  shows "owner_keys (R - {(t, n)}) f =
     (case ownershipKeyParts t of
        None \<Rightarrow> owner_keys R f
      | Some (c, f') \<Rightarrow> if f' = f then owner_keys R f - {sharedOwnerKey n c} else owner_keys R f)"
proof (cases "\<exists>c. ownershipKeyParts t = Some (c, f) \<and> SharedFilter f \<noteq> None")
  case False
  then have "(t', m) \<noteq> (t, n)" if "SharedFilter f \<noteq> None" "ownershipKeyParts t' = Some (d, f)" for t' m d
    using that by auto
  then have "owner_keys (R - {(t, n)}) f = owner_keys R f" unfolding owner_keys_def by blast
  moreover have "owner_keys R f = {}" if "ownershipKeyParts t = Some (c, f)" for c
    using False that by (simp add: owner_keys_def)
  ultimately show ?thesis by (auto split: option.split)
next
  case True
  then obtain c g u where t: "ownershipKeyParts t = Some (c, f)" and sf: "SharedFilter f = Some (g, u)" by auto
  have "k \<in> owner_keys (R - {(t, n)}) f \<longleftrightarrow> k \<in> owner_keys R f \<and> k \<noteq> sharedOwnerKey n c" for k
  proof
    assume "k \<in> owner_keys (R - {(t, n)}) f"
    then obtain t' m d where m: "(t', m) \<in> R" "(t', m) \<noteq> (t, n)" "ownershipKeyParts t' = Some (d, f)"
      and k: "k = sharedOwnerKey m d" by (auto simp: owner_keys_def)
    have "t' = OwnershipKey d f" "t = OwnershipKey c f" using m R ok t sf by (auto simp: ok_topic_def)
    with m R ok have "k \<noteq> sharedOwnerKey n c" by (auto simp: k ok_node_def sharedOwnerKey_inject)
    with m k sf show "k \<in> owner_keys R f \<and> k \<noteq> sharedOwnerKey n c" by (auto simp: owner_keys_def)
  next
    assume "k \<in> owner_keys R f \<and> k \<noteq> sharedOwnerKey n c"
    then obtain t' m d where m: "(t', m) \<in> R" "ownershipKeyParts t' = Some (d, f)" "k = sharedOwnerKey m d"
      "sharedOwnerKey m d \<noteq> sharedOwnerKey n c" by (auto simp: owner_keys_def)
    then have "(t', m) \<noteq> (t, n)" using t by auto
    with m sf show "k \<in> owner_keys (R - {(t, n)}) f" by (auto simp: owner_keys_def)
  qed
  then show ?thesis using t by auto
qed

lemma shared_at_empty [simp]: "shared_at f None None {}"
  by (simp add: shared_at_def)

lemma shared_invD: "shared_inv ix ow K \<Longrightarrow> shared_at f (ix f) (ow f) (K f)"
  by (simp add: shared_inv_def)

lemma shared_inv_update:
  "shared_inv ix ow K \<Longrightarrow> shared_at f i w S \<Longrightarrow> shared_inv (ix(f := i)) (ow(f := w)) (K(f := S))"
  by (simp add: shared_inv_def)

lemma shared_inv_owners: "shared_inv ix ow K \<Longrightarrow> set_at ow f = K f"
  using shared_invD[of ix ow K f] by (simp add: shared_at_def set_at_def)

lemma shared_inv_add:
  assumes "shared_inv ix ow K" "ok_filter (underlying f)"
  shows "shared_inv
     (ix(f \<mapsto> fst (Subscribe k (filter_sub (underlying f)) (case ix f of None \<Rightarrow> NewTopicsIndex | Some x \<Rightarrow> x))))
     (ow(f \<mapsto> insert k (set_at ow f))) (K(f := insert k (K f)))"
proof (rule shared_inv_update[OF assms(1)])
  have "holds_exactly (case ix f of None \<Rightarrow> NewTopicsIndex | Some x \<Rightarrow> x) ({underlying f} \<times> K f)"
    using shared_invD[OF assms(1), of f] by (cases "ix f") (simp_all add: shared_at_def holds_exactly_new)
  note holds_exactly_add[OF this assms(2), of k]
  moreover have "{underlying f} \<times> insert k (K f) = insert (underlying f, k) ({underlying f} \<times> K f)" by auto
  ultimately show "shared_at f (Some (fst (Subscribe k (filter_sub (underlying f))
       (case ix f of None \<Rightarrow> NewTopicsIndex | Some x \<Rightarrow> x)))) (Some (insert k (set_at ow f))) (insert k (K f))"
    by (simp add: shared_at_def shared_inv_owners[OF assms(1)])
qed

lemma shared_inv_present:
  assumes "shared_inv ix ow K" "k \<in> K f"
  shows "ix(f \<mapsto> (case ix f of None \<Rightarrow> NewTopicsIndex | Some x \<Rightarrow> x)) = ix" "ow(f \<mapsto> set_at ow f) = ow" "K(f := insert k (K f)) = K"
  using assms shared_invD[OF assms(1), of f]
  by (auto simp: shared_at_def set_at_def fun_eq_iff split: option.splits if_splits)

lemma shared_inv_absent:
  assumes "shared_inv ix ow K" "ix f = None"
  shows "K(f := K f - {k}) = K"
  using shared_invD[OF assms(1), of f] assms(2) by (auto simp: shared_at_def fun_eq_iff)

lemma shared_inv_remove:
  assumes "shared_inv ix ow K" "ok_filter (underlying f)" "ix f = Some x"
  shows "ow f = Some (K f)"
    "K f - {k} = {} \<Longrightarrow> shared_inv (ix(f := None)) (ow(f := None)) (K(f := K f - {k}))"
    "K f - {k} \<noteq> {} \<Longrightarrow> shared_inv (ix(f \<mapsto> fst (Unsubscribe (underlying f) k x))) (ow(f \<mapsto> K f - {k})) (K(f := K f - {k}))"
proof -
  note at = shared_invD[OF assms(1), of f, unfolded shared_at_def assms(3), simplified]
  then show "ow f = Some (K f)" by simp
  show "K f - {k} = {} \<Longrightarrow> shared_inv (ix(f := None)) (ow(f := None)) (K(f := K f - {k}))"
    by (simp only: shared_inv_update[OF assms(1) shared_at_empty, of f])
  have "{underlying f} \<times> (K f - {k}) = {underlying f} \<times> K f - {(underlying f, k)}" by auto
  with holds_exactly_remove[OF _ assms(2), of x "{underlying f} \<times> K f" k] at
  have "holds_exactly (fst (Unsubscribe (underlying f) k x)) ({underlying f} \<times> (K f - {k}))" by simp
  then show "K f - {k} \<noteq> {} \<Longrightarrow>
    shared_inv (ix(f \<mapsto> fst (Unsubscribe (underlying f) k x))) (ow(f \<mapsto> K f - {k})) (K(f := K f - {k}))"
    by (intro shared_inv_update[OF assms(1)]) (simp add: shared_at_def)
qed

lemma router_inv_empty: "router_inv emptyRouter {}"
  by (simp add: router_inv_def emptyRouter_def nodes_inv_def holds_exactly_new shared_inv_def)

lemma ok_topic_underlying:
  "ok_topic t \<Longrightarrow> ownershipKeyParts t = Some (c, f) \<Longrightarrow> SharedFilter f = Some (g, u) \<Longrightarrow>
   ok_filter (underlying f) \<and> underlying f = u"
  by (simp add: ok_topic_def underlying_def)

lemma owner_keys_insert_fun:
  "owner_keys (insert (t, n) R) =
     (case ownershipKeyParts t of
        None \<Rightarrow> owner_keys R
      | Some (c, f) \<Rightarrow> if SharedFilter f \<noteq> None then (owner_keys R)(f := insert (sharedOwnerKey n c) (owner_keys R f))
                        else owner_keys R)"
  by (auto simp: fun_eq_iff owner_keys_insert split: option.splits)

lemma owner_keys_remove_fun:
  assumes R: "\<forall>(t, n)\<in>R. ok_topic t \<and> ok_node n" and ok: "ok_topic t" "ok_node n"
  shows "owner_keys (R - {(t, n)}) =
     (case ownershipKeyParts t of
        None \<Rightarrow> owner_keys R
      | Some (c, f) \<Rightarrow> (owner_keys R)(f := owner_keys R f - {sharedOwnerKey n c}))"
  by (auto simp: fun_eq_iff owner_keys_remove[OF assms] split: option.splits)

lemma owner_keys_unshared: "SharedFilter f = None \<Longrightarrow> owner_keys R f = {}"
  by (simp add: owner_keys_def)

lemma ok_topicD: "ok_topic t \<Longrightarrow> ok_filter t"
  by (simp add: ok_topic_def)

lemma addLocal_inv [keel_inv]:
  assumes inv: "router_inv r R" and ok: "ok_topic t" "ok_node n"
  shows "router_inv (addLocalLocked t n r) (insert (t, n) R)"
proof -
  note i = inv[unfolded router_inv_def]
  let ?r = "r\<lparr>rt_byNode := (rt_byNode r)(n \<mapsto> insert t (set_at (rt_byNode r) n)),
          rt_index := fst (Subscribe n (filter_sub t) (rt_index r))\<rparr>"
  have base: "nodes_inv (rt_byNode ?r) (insert (t, n) R)" "holds_exactly (rt_index ?r) (insert (t, n) R)"
    "\<forall>(t, n)\<in>insert (t, n) R. ok_topic t \<and> ok_node n"
    using i ok nodes_inv_add holds_exactly_add[OF _ ok_topicD] by simp_all
  let ?q = "addOfflineSharedOwnershipLocked t n ?r"
  have same: "rt_byNode ?q = rt_byNode ?r" "rt_index ?q = rt_index ?r"
    by (simp_all add: addOfflineSharedOwnershipLocked_def Let_def split: option.split)
  have sh: "shared_inv (rt_offlineShared r) (rt_offlineSharedOwners r) (owner_keys R)" using i by simp
  have "shared_inv (rt_offlineShared ?q) (rt_offlineSharedOwners ?q) (owner_keys (insert (t, n) R))"
  proof (cases "\<exists>c f g u. ownershipKeyParts t = Some (c, f) \<and> SharedFilter f = Some (g, u)")
    case False
    then show ?thesis using sh
      by (auto simp: addOfflineSharedOwnershipLocked_def owner_keys_insert_fun split: option.split)
  next
    case True
    then obtain c f g u where t: "ownershipKeyParts t = Some (c, f)" "SharedFilter f = Some (g, u)" by blast
    then have u: "ok_filter (underlying f)" "underlying f = u" using ok_topic_underlying ok by blast+
    show ?thesis
      using shared_inv_add[OF sh u(1), of "sharedOwnerKey n c"] shared_inv_present[OF sh, of "sharedOwnerKey n c" f] sh t
      by (cases "sharedOwnerKey n c \<in> owner_keys R f")
        (simp_all add: addOfflineSharedOwnershipLocked_def Let_def owner_keys_insert_fun u(2) shared_inv_owners[OF sh])
  qed
  with base same show ?thesis unfolding router_inv_def addLocalLocked_def by simp
qed

lemma removeLocal_inv [keel_inv]:
  assumes inv: "router_inv r R" and ok: "ok_topic t" "ok_node n"
  shows "router_inv (removeLocalLocked t n r) (R - {(t, n)})"
proof -
  note i = inv[unfolded router_inv_def]
  let ?r = "r\<lparr>rt_byNode := (case rt_byNode r n of None \<Rightarrow> rt_byNode r
      | Some T \<Rightarrow> if T - {t} = {} then (rt_byNode r)(n := None) else (rt_byNode r)(n \<mapsto> T - {t})),
      rt_index := fst (Unsubscribe t n (rt_index r))\<rparr>"
  have base: "nodes_inv (rt_byNode ?r) (R - {(t, n)})" "holds_exactly (rt_index ?r) (R - {(t, n)})"
    "\<forall>(t, n)\<in>R - {(t, n)}. ok_topic t \<and> ok_node n"
    using i ok nodes_inv_remove[where m = "rt_byNode r" and n = n and t = t] holds_exactly_remove[OF _ ok_topicD] by simp_all
  let ?q = "removeOfflineSharedOwnershipLocked t n ?r"
  have same: "rt_byNode ?q = rt_byNode ?r" "rt_index ?q = rt_index ?r"
    by (simp_all add: removeOfflineSharedOwnershipLocked_def Let_def split: option.split)
  have sh: "shared_inv (rt_offlineShared r) (rt_offlineSharedOwners r) (owner_keys R)" using i by simp
  have keys: "owner_keys (R - {(t, n)}) =
     (case ownershipKeyParts t of
        None \<Rightarrow> owner_keys R
      | Some (c, f) \<Rightarrow> (owner_keys R)(f := owner_keys R f - {sharedOwnerKey n c}))"
    using i ok by (intro owner_keys_remove_fun) simp_all
  have "shared_inv (rt_offlineShared ?q) (rt_offlineSharedOwners ?q) (owner_keys (R - {(t, n)}))"
  proof (cases "\<exists>c f g u x. ownershipKeyParts t = Some (c, f) \<and> SharedFilter f = Some (g, u) \<and> rt_offlineShared r f = Some x")
    case False
    have "owner_keys (R - {(t, n)}) = owner_keys R"
    proof (cases "ownershipKeyParts t")
      case (Some p)
      obtain c f where p: "p = (c, f)" by (cases p)
      with Some False have "SharedFilter f = None \<or> rt_offlineShared r f = None" by (cases "SharedFilter f") auto
      then have "owner_keys R f = {}"
        using shared_invD[OF sh, of f] by (auto simp: owner_keys_unshared shared_at_def)
      then show ?thesis unfolding keys Some p by (simp add: fun_upd_idem)
    qed (simp add: keys)
    with False sh show ?thesis
      by (auto simp: removeOfflineSharedOwnershipLocked_def split: option.split)
  next
    case True
    then obtain c f g u x where t: "ownershipKeyParts t = Some (c, f)" "SharedFilter f = Some (g, u)"
      "rt_offlineShared r f = Some x" by blast
    then have u: "ok_filter (underlying f)" "underlying f = u" using ok_topic_underlying ok by blast+
    show ?thesis
      using shared_inv_remove(1)[OF sh u(1) t(3)] shared_inv_remove(2,3)[OF sh u(1) t(3), of "sharedOwnerKey n c"] t
      by (cases "owner_keys R f - {sharedOwnerKey n c} = {}")
        (simp_all add: removeOfflineSharedOwnershipLocked_def keys u(2) Let_def Diff_eq_empty_iff[THEN iffD2])
  qed
  with base same show ?thesis unfolding router_inv_def removeLocalLocked_def Let_def by simp
qed

definition key_rel :: "string list \<Rightarrow> (string \<times> string) set" where
  "key_rel keys = {p. \<exists>k\<in>set keys. parseRouteKey k = Some p}"

definition ok_keys :: "string list \<Rightarrow> bool" where
  "ok_keys keys \<longleftrightarrow> (\<forall>(t, n)\<in>key_rel keys. ok_topic t \<and> ok_node n)"

lemma reconcile_key_inv:
  assumes inv: "router_inv r R" and k: "parseRouteKey k = Some (t, n)" and ok: "ok_topic t" "ok_node n"
  shows "router_inv (reconcile_key k r) (insert (t, n) R)"
proof -
  note i = inv[unfolded router_inv_def]
  have sh: "shared_inv (rt_offlineShared r) (rt_offlineSharedOwners r) (owner_keys R)" using i by simp
  let ?q = "reconcile_key k r"
  have same: "rt_byNode ?q = (rt_byNode r)(n \<mapsto> insert t (set_at (rt_byNode r) n))"
    "rt_index ?q = fst (Subscribe n (filter_sub t) (rt_index r))"
    by (simp_all add: reconcile_key_def k Let_def split: option.split)
  have "shared_inv (rt_offlineShared ?q) (rt_offlineSharedOwners ?q) (owner_keys (insert (t, n) R))"
  proof (cases "\<exists>c f g u. ownershipKeyParts t = Some (c, f) \<and> SharedFilter f = Some (g, u)")
    case False
    then show ?thesis using sh
      by (auto simp: reconcile_key_def k Let_def owner_keys_insert_fun split: option.split)
  next
    case True
    then obtain c f g u where t: "ownershipKeyParts t = Some (c, f)" "SharedFilter f = Some (g, u)" by blast
    then have u: "ok_filter (underlying f)" "underlying f = u" using ok_topic_underlying ok by blast+
    show ?thesis using shared_inv_add[OF sh u(1), of "sharedOwnerKey n c"] t
      by (simp add: reconcile_key_def k Let_def owner_keys_insert_fun u(2))
  qed
  then show ?thesis
    using i ok nodes_inv_add holds_exactly_add[OF _ ok_topicD] unfolding router_inv_def same by simp
qed

lemma reconcile_keys_inv:
  assumes "ok_keys keys"
  shows "router_inv (fold reconcile_key keys emptyRouter) (key_rel keys)"
  using assms
proof (induction keys rule: rev_induct)
  case Nil
  then show ?case by (simp add: router_inv_empty key_rel_def)
next
  case (snoc k keys)
  have ok: "ok_keys keys" using snoc.prems by (auto simp: ok_keys_def key_rel_def)
  show ?case
  proof (cases "parseRouteKey k")
    case None
    then have "key_rel (keys @ [k]) = key_rel keys" by (auto simp: key_rel_def)
    with snoc.IH[OF ok] None show ?thesis by (simp add: reconcile_key_def)
  next
    case (Some p)
    obtain t n where p: "p = (t, n)" by (cases p)
    with Some have "key_rel (keys @ [k]) = insert (t, n) (key_rel keys)" by (auto simp: key_rel_def)
    moreover from this have "ok_topic t" "ok_node n" using snoc.prems by (auto simp: ok_keys_def)
    ultimately show ?thesis using reconcile_key_inv[OF snoc.IH[OF ok]] Some p by simp
  qed
qed

lemma removeLocal_fold_inv:
  "router_inv r R \<Longrightarrow> \<forall>t\<in>set ts. ok_topic t \<Longrightarrow> ok_node n \<Longrightarrow>
   router_inv (fold (\<lambda>t. removeLocalLocked t n) ts r) (R - set ts \<times> {n})"
proof (induction ts arbitrary: r R)
  case (Cons t ts)
  have e: "R - {(t, n)} - set ts \<times> {n} = R - set (t # ts) \<times> {n}" by auto
  have "router_inv (removeLocalLocked t n r) (R - {(t, n)})" using Cons.prems by (intro removeLocal_inv) simp_all
  then show ?case using Cons.IH[of "removeLocalLocked t n r" "R - {(t, n)}"] Cons.prems unfolding e by simp
qed simp

text \<open>The specification of an event on the relation, and the inputs for which it is implemented.\<close>

definition rel_event :: "routeEvent \<Rightarrow> (string \<times> string) set \<Rightarrow> (string \<times> string) set" where
  "rel_event ev R =
     (if ev_Op ev = eventSubscribe then insert (ev_Topic ev, ev_NodeID ev) R
      else if ev_Op ev = eventUnsubscribe then R - {(ev_Topic ev, ev_NodeID ev)}
      else if ev_Op ev = eventUnsubscribeBatch then R - set (ev_Topics ev) \<times> {ev_NodeID ev}
      else if ev_Op ev = eventPurgeNode then R - UNIV \<times> {ev_NodeID ev}
      else R)"

definition ok_event :: "routeEvent \<Rightarrow> bool" where
  "ok_event ev \<longleftrightarrow> ok_topic (ev_Topic ev) \<and> (\<forall>t\<in>set (ev_Topics ev). ok_topic t) \<and> ok_node (ev_NodeID ev)"

lemma event_ops_distinct [simp]:
  "eventSubscribe \<noteq> eventUnsubscribe" "eventSubscribe \<noteq> eventUnsubscribeBatch" "eventSubscribe \<noteq> eventPurgeNode"
  "eventUnsubscribe \<noteq> eventUnsubscribeBatch" "eventUnsubscribe \<noteq> eventPurgeNode"
  "eventUnsubscribeBatch \<noteq> eventPurgeNode"
  by (simp_all add: eventSubscribe_def eventUnsubscribe_def eventUnsubscribeBatch_def eventPurgeNode_def)

lemmas event_ops_distinct' [simp] = event_ops_distinct[symmetric]

lemma applyEvent_refines:
  assumes inv: "router_inv r R" and ok: "ok_event ev" and order: "topics_of R (ev_NodeID ev) \<subseteq> set order"
  shows "router_inv (applyEvent order ev r) (rel_event ev R)"
proof -
  have m: "set (topicsForNodeLocked order (ev_NodeID ev) r) = topics_of R (ev_NodeID ev)"
    using inv order by (auto simp: topicsForNodeLocked_def router_inv_def set_at_nodes)
  have oks: "\<forall>t\<in>topics_of R (ev_NodeID ev). ok_topic t"
    using inv by (auto simp: router_inv_def topics_of_def)
  have "R - topics_of R (ev_NodeID ev) \<times> {ev_NodeID ev} = R - UNIV \<times> {ev_NodeID ev}"
    by (auto simp: topics_of_def)
  with removeLocal_fold_inv[OF inv, of "topicsForNodeLocked order (ev_NodeID ev) r" "ev_NodeID ev"] oks ok
    removeLocal_fold_inv[OF inv, of "ev_Topics ev" "ev_NodeID ev"]
    addLocal_inv[OF inv, of "ev_Topic ev" "ev_NodeID ev"] removeLocal_inv[OF inv, of "ev_Topic ev" "ev_NodeID ev"] inv
  show ?thesis unfolding m by (simp add: applyEvent_def rel_event_def ok_event_def)
qed

text \<open>The life of a cache next to the relation it should represent: received events, successful scans
  and failed ones, in any order.\<close>

inductive router_run :: "Router \<Rightarrow> (string \<times> string) set \<Rightarrow> bool" where
  start: "router_run emptyRouter {}"
| event: "router_run r R \<Longrightarrow> ok_event ev \<Longrightarrow> topics_of R (ev_NodeID ev) \<subseteq> set order \<Longrightarrow>
    router_run (applyEvent order ev r) (rel_event ev R)"
| scanned: "router_run r R \<Longrightarrow> ok_keys keys \<Longrightarrow>
    router_run (fst (reconcile (Inr keys :: string + string list) r)) (key_rel keys)"
| scan_failed: "router_run r R \<Longrightarrow> router_run (fst (reconcile (Inl e :: string + string list) r)) R"

lemma router_inv_flags [simp]:
  "router_inv (r\<lparr>rt_storeFailures := a, rt_storeUp := b\<rparr>) R = router_inv r R"
  by (simp add: router_inv_def)

lemma router_run_inv [keel_inv]: "router_run r R \<Longrightarrow> router_inv r R"
  by (induction rule: router_run.induct)
    (simp_all add: router_inv_empty applyEvent_refines reconcile_def reconcile_keys_inv)

subsection \<open>What the queries return\<close>

lemma holds_exactly_matches:
  assumes "holds_exactly x R"
  shows "(\<exists>s. matches topic x c s) \<longleftrightarrow> (\<exists>f. (f, c) \<in> R \<and> \<not> is_share f \<and> covers f topic)"
proof
  note inv = assms[unfolded holds_exactly_def]
  assume "\<exists>s. matches topic x c s"
  then obtain s where s: "\<not> is_share (sub_Filter s)" "stored x (sub_Filter s) c = Some s" "covers (sub_Filter s) topic"
    using matches_iff inv by blast
  then have "ok_filter (sub_Filter s)" by (simp add: ok_filter_def)
  with inv s(2) have "(sub_Filter s, c) \<in> R" by (simp split: if_splits)
  with s show "\<exists>f. (f, c) \<in> R \<and> \<not> is_share f \<and> covers f topic" by blast
next
  note inv = assms[unfolded holds_exactly_def]
  assume "\<exists>f. (f, c) \<in> R \<and> \<not> is_share f \<and> covers f topic"
  then obtain f where f: "(f, c) \<in> R" "\<not> is_share f" "covers f topic" by blast
  then have "stored x f c = Some (filter_sub f)" using inv by (simp add: ok_filter_def)
  with f inv show "\<exists>s. matches topic x c s"
    by (intro exI[of _ "filter_sub f"]) (simp add: matches_iff filter_sub_def)
qed

lemma holds_exactly_group:
  assumes "holds_exactly x R" "ok_filter f"
  shows "group_member topic x f c \<longleftrightarrow> (f, c) \<in> R \<and> is_share f \<and> covers f topic"
  using group_member_iff[of x f topic c] assms by (auto simp: holds_exactly_def)

definition live_group :: "string \<Rightarrow> string \<Rightarrow> (string \<times> string) set \<Rightarrow> bool" where
  "live_group topic f R \<longleftrightarrow> is_share f \<and> covers f topic \<and> (\<exists>n. (f, n) \<in> R)"

lemma live_group_iff:
  assumes "holds_exactly x R" "ok_filter f"
  shows "map_of (s_Shared (Subscribers_of topic x)) f \<noteq> None \<longleftrightarrow> live_group topic f R"
proof -
  have "map_of (s_Shared (Subscribers_of topic x)) f \<noteq> None \<longleftrightarrow> f \<in> fst ` set (s_Shared (Subscribers_of topic x))"
    by (simp add: map_of_eq_None_iff)
  also have "\<dots> \<longleftrightarrow> (\<exists>c. group_member topic x f c)"
    unfolding Subscribers_Shared group_member_def by blast
  finally show ?thesis unfolding holds_exactly_group[OF assms] live_group_def by blast
qed

text \<open>The offline owners of a shared filter that the index offers for a topic, as pairs of node and
  client, and the order in which the selection prefers them.\<close>

definition offline_owners :: "string \<Rightarrow> string \<Rightarrow> (string \<times> string) set \<Rightarrow> (string \<times> string) set" where
  "offline_owners topic f R =
     {(n, c). SharedFilter f \<noteq> None \<and> \<not> is_share (underlying f) \<and> covers (underlying f) topic \<and>
        (\<exists>t. (t, n) \<in> R \<and> ownershipKeyParts t = Some (c, f))}"

definition owner_le :: "string \<times> string \<Rightarrow> string \<times> string \<Rightarrow> bool" where
  "owner_le p q \<longleftrightarrow> fst p < fst q \<or> (fst p = fst q \<and> snd p \<le> snd q)"

lemma choose_owner_key:
  "ok_node n \<Longrightarrow> choose_owner (sharedOwnerKey n c) p =
     (if fst p = '''' \<or> \<not> owner_le p (n, c) then (n, c) else p)"
proof -
  assume n: "ok_node n"
  then have "sharedOwnerNode (sharedOwnerKey n c) = Some n" by (simp add: sharedOwnerNode_key ok_node_def)
  moreover have "drop (length n + length keySep) (sharedOwnerKey n c) = c" by (simp add: sharedOwnerKey_def keySep_def)
  moreover have "\<not> owner_le p (n, c) \<longleftrightarrow> n < fst p \<or> n = fst p \<and> c < snd p" by (auto simp: owner_le_def)
  ultimately show "choose_owner (sharedOwnerKey n c) p = (if fst p = '''' \<or> \<not> owner_le p (n, c) then (n, c) else p)"
    by (simp add: choose_owner_def Let_def)
qed

lemma choose_owner_fold:
  assumes "\<forall>k\<in>set ks. \<exists>n c. k = sharedOwnerKey n c \<and> ok_node n"
  shows "let p = fold choose_owner ks ('''', '''') in
     (ks = [] \<longrightarrow> fst p = '''') \<and>
     (ks \<noteq> [] \<longrightarrow> ok_node (fst p) \<and> sharedOwnerKey (fst p) (snd p) \<in> set ks \<and>
        (\<forall>n c. sharedOwnerKey n c \<in> set ks \<and> ok_node n \<longrightarrow> owner_le p (n, c)))"
  using assms
proof (induction ks rule: rev_induct)
  case (snoc k ks)
  obtain n c where k: "k = sharedOwnerKey n c" "ok_node n" using snoc.prems by auto
  let ?p = "fold choose_owner ks ('''', '''')"
  note IH = snoc.IH[unfolded Let_def]
  have step: "fold choose_owner (ks @ [k]) ('''', '''') = (if fst ?p = '''' \<or> \<not> owner_le ?p (n, c) then (n, c) else ?p)"
    using k by (simp add: choose_owner_key)
  have inj: "sharedOwnerKey m d = k \<longleftrightarrow> m = n \<and> d = c" if "ok_node m" for m d
    using that k by (simp add: sharedOwnerKey_inject ok_node_def)
  have empty: "fst ?p = '''' \<longleftrightarrow> ks = []" using IH snoc.prems by (auto simp: ok_node_def)
  show ?case
  proof (cases "ks = []")
    case True
    then show ?thesis unfolding Let_def step using k inj by (auto simp: empty owner_le_def)
  next
    case False
    then have p: "ok_node (fst ?p)" "sharedOwnerKey (fst ?p) (snd ?p) \<in> set ks"
      "\<And>m d. sharedOwnerKey m d \<in> set ks \<Longrightarrow> ok_node m \<Longrightarrow> owner_le ?p (m, d)"
      using IH snoc.prems by auto
    show ?thesis
    proof (cases "owner_le ?p (n, c)")
      case True
      have "owner_le ?p (m, d)" if "sharedOwnerKey m d = k \<or> sharedOwnerKey m d \<in> set ks" "ok_node m" for m d
        using that p(3)[of m d] inj[of m d] True by (elim disjE) simp_all
      then show ?thesis unfolding Let_def step using False p(1,2) True by (simp add: empty)
    next
      case gt: False
      have "owner_le (n, c) (m, d)" if "sharedOwnerKey m d \<in> set ks" "ok_node m" for m d
        using p(3)[OF that] gt by (auto simp: owner_le_def)
      moreover have "owner_le (n, c) (n, c)" by (simp add: owner_le_def)
      ultimately have "owner_le (n, c) (m, d)" if "sharedOwnerKey m d = k \<or> sharedOwnerKey m d \<in> set ks" "ok_node m" for m d
        using that inj[of m d] by (elim disjE) simp_all
      then show ?thesis unfolding Let_def step using k gt by simp
    qed
  qed
qed simp

lemma offline_matched:
  assumes "router_inv r R" "rt_offlineShared r f = Some x"
  shows "s_Subscriptions (Subscribers_of topic x) k \<noteq> None \<longleftrightarrow>
    k \<in> owner_keys R f \<and> \<not> is_share (underlying f) \<and> covers (underlying f) topic"
proof -
  have "shared_at f (Some x) (rt_offlineSharedOwners r f) (owner_keys R f)"
    using assms shared_invD[of "rt_offlineShared r" _ _ f] by (auto simp: router_inv_def)
  then have "holds_exactly x ({underlying f} \<times> owner_keys R f)" by (simp add: shared_at_def)
  from holds_exactly_matches[OF this, of topic k] show ?thesis unfolding Subscribers_dom by auto
qed

lemma offline_owners_key:
  assumes "router_inv r R" "SharedFilter f \<noteq> None" "\<not> is_share (underlying f)" "covers (underlying f) topic"
  shows "ok_node n \<and> sharedOwnerKey n c \<in> owner_keys R f \<longleftrightarrow> (n, c) \<in> offline_owners topic f R"
proof
  assume a: "ok_node n \<and> sharedOwnerKey n c \<in> owner_keys R f"
  then obtain t m d where t: "(t, m) \<in> R" "ownershipKeyParts t = Some (d, f)" "sharedOwnerKey n c = sharedOwnerKey m d"
    by (auto simp: owner_keys_def)
  moreover have "ok_node m" using t(1) assms(1) by (auto simp: router_inv_def)
  ultimately have "n = m" "c = d" using a by (simp_all add: sharedOwnerKey_inject ok_node_def)
  with t assms show "(n, c) \<in> offline_owners topic f R" by (auto simp: offline_owners_def)
next
  assume "(n, c) \<in> offline_owners topic f R"
  then show "ok_node n \<and> sharedOwnerKey n c \<in> owner_keys R f"
    using assms(1) by (auto simp: offline_owners_def owner_keys_def router_inv_def)
qed

lemma owner_keys_shape:
  "router_inv r R \<Longrightarrow> k \<in> owner_keys R f \<Longrightarrow> \<exists>n c. k = sharedOwnerKey n c \<and> ok_node n"
  by (auto simp: owner_keys_def router_inv_def)

lemma owner_le_antisym: "owner_le p q \<Longrightarrow> owner_le q p \<Longrightarrow> p = q"
  by (cases p; cases q) (auto simp: owner_le_def)

lemma offline_owners_None:
  assumes "router_inv r R" "rt_offlineShared r f = None"
  shows "offline_owners topic f R = {}"
proof -
  have "shared_at f None (rt_offlineSharedOwners r f) (owner_keys R f)"
    using assms shared_invD[of "rt_offlineShared r" _ _ f] by (auto simp: router_inv_def)
  then have "owner_keys R f = {}" by (simp add: shared_at_def)
  then show ?thesis by (auto simp: offline_owners_def owner_keys_def)
qed

lemma offline_selection:
  assumes inv: "router_inv r R" and okf: "ok_filter f" and order: "owner_keys R f \<subseteq> set order"
  shows "offlineSharedSelectionsLocked order topic r f = Some p \<longleftrightarrow>
    \<not> live_group topic f R \<and> p \<in> offline_owners topic f R \<and> (\<forall>q\<in>offline_owners topic f R. owner_le p q)"
proof (cases "rt_offlineShared r f")
  case None
  then show ?thesis using offline_owners_None[OF inv] by (simp add: offlineSharedSelectionsLocked_def)
next
  case (Some x)
  define ks where "ks = filter (\<lambda>k. s_Subscriptions (Subscribers_of topic x) k \<noteq> None) order"
  define m where "m = fold choose_owner ks ('''', '''')"
  have live: "map_of (s_Shared (Subscribers_of topic (rt_index r))) f \<noteq> None \<longleftrightarrow> live_group topic f R"
    using inv okf by (intro live_group_iff) (simp_all add: router_inv_def)
  have sel: "offlineSharedSelectionsLocked order topic r f =
      (if live_group topic f R then None else if fst m \<noteq> '''' then Some m else None)"
    unfolding live[symmetric] by (simp add: offlineSharedSelectionsLocked_def Some Let_def m_def ks_def)
  have ne: "owner_keys R f \<noteq> {}"
    using inv Some shared_invD[of "rt_offlineShared r" _ _ f] by (fastforce simp: router_inv_def shared_at_def)
  then have sf: "SharedFilter f \<noteq> None" by (auto simp: owner_keys_def)
  show ?thesis
  proof (cases "\<not> is_share (underlying f) \<and> covers (underlying f) topic")
    case False
    then have "offline_owners topic f R = {}" "ks = []"
      unfolding ks_def offline_matched[OF inv Some] by (auto simp: offline_owners_def)
    then show ?thesis unfolding sel m_def by simp
  next
    case True
    then have ks: "set ks = owner_keys R f" unfolding ks_def offline_matched[OF inv Some] using order by auto
    then have "ks \<noteq> []" using ne by (metis set_empty)
    moreover have "\<forall>k\<in>set ks. \<exists>n c. k = sharedOwnerKey n c \<and> ok_node n"
      unfolding ks using owner_keys_shape[OF inv] by blast
    ultimately have p: "ok_node (fst m)" "sharedOwnerKey (fst m) (snd m) \<in> owner_keys R f"
      "\<And>n c. sharedOwnerKey n c \<in> owner_keys R f \<Longrightarrow> ok_node n \<Longrightarrow> owner_le m (n, c)"
      using choose_owner_fold[of ks, unfolded Let_def, folded m_def] by (simp_all add: ks)
    note key = offline_owners_key[OF inv sf, of topic]
    have mem: "m \<in> offline_owners topic f R" using key[of "fst m" "snd m"] p True by simp
    have least: "owner_le m q" if "q \<in> offline_owners topic f R" for q
      using that key[of "fst q" "snd q"] p(3)[of "fst q" "snd q"] True by simp
    have "fst m \<noteq> ''''" using p(1) by (auto simp: ok_node_def)
    moreover have "p = m" if "p \<in> offline_owners topic f R" "\<forall>q\<in>offline_owners topic f R. owner_le p q"
      using owner_le_antisym[of p m] least[OF that(1)] that(2) mem by blast
    ultimately show ?thesis unfolding sel using mem least by auto
  qed
qed

subsection \<open>The distributed store and the write path\<close>

text \<open>The store is the set of its keys, the events published on the channel, and what the calls to come
  will meet: a failed write or delete may have taken effect on some of its keys, a failed publish may
  have gone out (a non-empty set).\<close>

datatype fault = Done | Fault "string set"

record ClusterStore =
  cs_keys :: "string set"
  cs_events :: "routeEvent list"
  cs_faults :: "fault list"

definition next_fault :: "ClusterStore \<Rightarrow> fault \<times> ClusterStore" where
  "next_fault S = (case cs_faults S of [] \<Rightarrow> (Done, S) | f # fs \<Rightarrow> (f, S\<lparr>cs_faults := fs\<rparr>))"

definition store_put :: "string \<Rightarrow> ClusterStore \<Rightarrow> ClusterStore \<times> bool" where
  "store_put key S =
     (case next_fault S of
        (Done, S') \<Rightarrow> (S'\<lparr>cs_keys := insert key (cs_keys S')\<rparr>, True)
      | (Fault K, S') \<Rightarrow> (S'\<lparr>cs_keys := cs_keys S' \<union> ({key} \<inter> K)\<rparr>, False))"

definition store_delete :: "string list \<Rightarrow> ClusterStore \<Rightarrow> ClusterStore \<times> bool" where
  "store_delete keys S =
     (case next_fault S of
        (Done, S') \<Rightarrow> (S'\<lparr>cs_keys := cs_keys S' - set keys\<rparr>, True)
      | (Fault K, S') \<Rightarrow> (S'\<lparr>cs_keys := cs_keys S' - (set keys \<inter> K)\<rparr>, False))"

definition Router_publish :: "routeEvent \<Rightarrow> ClusterStore \<Rightarrow> ClusterStore \<times> bool" where
  "Router_publish ev S =
     (case next_fault S of
        (Done, S') \<Rightarrow> (S'\<lparr>cs_events := cs_events S' @ [ev]\<rparr>, True)
      | (Fault K, S') \<Rightarrow> (if K = {} then S' else S'\<lparr>cs_events := cs_events S' @ [ev]\<rparr>, False))"

definition Router_Subscribe :: "string \<Rightarrow> string \<Rightarrow> ClusterStore \<Rightarrow> ClusterStore \<times> bool" where
  "Router_Subscribe topic nodeID S =
     (case store_put (routeKey topic nodeID) S of
        (S', False) \<Rightarrow> (S', False)
      | (S', True) \<Rightarrow>
          Router_publish \<lparr>ev_Op = eventSubscribe, ev_Topic = topic, ev_Topics = [], ev_NodeID = nodeID\<rparr> S')"

definition Router_Unsubscribe :: "string \<Rightarrow> string \<Rightarrow> ClusterStore \<Rightarrow> ClusterStore \<times> bool" where
  "Router_Unsubscribe topic nodeID S =
     (case store_delete [routeKey topic nodeID] S of
        (S', False) \<Rightarrow> (S', False)
      | (S', True) \<Rightarrow>
          Router_publish \<lparr>ev_Op = eventUnsubscribe, ev_Topic = topic, ev_Topics = [], ev_NodeID = nodeID\<rparr> S')"

definition UnsubscribeBatch ::
  "string list \<Rightarrow> string list \<Rightarrow> string \<Rightarrow> Router \<Rightarrow> ClusterStore \<Rightarrow> ClusterStore \<times> bool" where
  "UnsubscribeBatch order topics nodeID r S =
     (let topics = (if topics = [] then topicsForNodeLocked order nodeID r else topics) in
      if topics = [] then (S, True)
      else case store_delete (map (\<lambda>t. routeKey t nodeID) topics) S of
             (S', False) \<Rightarrow> (S', False)
           | (S', True) \<Rightarrow>
               Router_publish \<lparr>ev_Op = eventUnsubscribeBatch, ev_Topic = '''', ev_Topics = topics, ev_NodeID = nodeID\<rparr> S')"

definition PurgeNode :: "string list \<Rightarrow> string \<Rightarrow> Router \<Rightarrow> ClusterStore \<Rightarrow> ClusterStore \<times> bool" where
  "PurgeNode order nodeID r S =
     (let topics = topicsForNodeLocked order nodeID r in
      if topics = [] then (S, True)
      else case store_delete (map (\<lambda>t. routeKey t nodeID) topics) S of
             (S', False) \<Rightarrow> (S', False)
           | (S', True) \<Rightarrow>
               Router_publish \<lparr>ev_Op = eventPurgeNode, ev_Topic = '''', ev_Topics = [], ev_NodeID = nodeID\<rparr> S')"

definition store_rel :: "ClusterStore \<Rightarrow> (string \<times> string) set" where
  "store_rel S = {p. \<exists>k\<in>cs_keys S. parseRouteKey k = Some p}"

lemma store_rel_iff: "(t, n) \<in> store_rel S \<longleftrightarrow> routeKey t n \<in> cs_keys S \<and> CHR 0x00 \<notin> set n"
  by (auto simp: store_rel_def parseRouteKey_Some)

lemma store_rel_flags [simp]:
  "store_rel (S\<lparr>cs_events := a\<rparr>) = store_rel S" "store_rel (S\<lparr>cs_faults := b\<rparr>) = store_rel S"
  by (simp_all add: store_rel_def)


lemma next_fault_cases:
  obtains "next_fault S = (Done, S)" "cs_faults S = []"
  | f fs where "next_fault S = (f, S\<lparr>cs_faults := fs\<rparr>)" "cs_faults S = f # fs"
  by (cases "cs_faults S") (simp_all add: next_fault_def)

lemma Router_publish_rel [simp]: "store_rel (fst (Router_publish ev S)) = store_rel S"
  by (cases S rule: next_fault_cases) (simp_all add: Router_publish_def split: fault.split)

text \<open>A write of the registry, and what it should do to the relation the store holds.\<close>

datatype route_write = WSubscribe string string | WUnsubscribe string string | WBatch "string list" string | WPurge string

fun write_node :: "route_write \<Rightarrow> string" where
  "write_node (WSubscribe t n) = n"
| "write_node (WUnsubscribe t n) = n"
| "write_node (WBatch ts n) = n"
| "write_node (WPurge n) = n"

fun write_topics :: "route_write \<Rightarrow> string list" where
  "write_topics (WSubscribe t n) = [t]"
| "write_topics (WUnsubscribe t n) = [t]"
| "write_topics (WBatch ts n) = ts"
| "write_topics (WPurge n) = []"

fun run_write :: "string list \<Rightarrow> route_write \<Rightarrow> Router \<Rightarrow> ClusterStore \<Rightarrow> ClusterStore \<times> bool" where
  "run_write order (WSubscribe t n) r S = Router_Subscribe t n S"
| "run_write order (WUnsubscribe t n) r S = Router_Unsubscribe t n S"
| "run_write order (WBatch ts n) r S = UnsubscribeBatch order ts n r S"
| "run_write order (WPurge n) r S = PurgeNode order n r S"

fun rel_write :: "route_write \<Rightarrow> (string \<times> string) set \<Rightarrow> (string \<times> string) set" where
  "rel_write (WSubscribe t n) R = insert (t, n) R"
| "rel_write (WUnsubscribe t n) R = R - {(t, n)}"
| "rel_write (WBatch ts n) R = R - (if ts = [] then UNIV else set ts) \<times> {n}"
| "rel_write (WPurge n) R = R - UNIV \<times> {n}"

lemma no_fault: "cs_faults S = [] \<Longrightarrow> next_fault S = (Done, S)"
  by (simp add: next_fault_def)

lemma delete_keys:
  "CHR 0x00 \<notin> set n \<Longrightarrow>
   store_rel (S\<lparr>cs_keys := cs_keys S - set (map (\<lambda>t. routeKey t n) ts), cs_events := es\<rparr>) = store_rel S - set ts \<times> {n}"
  by (auto simp: store_rel_iff routeKey_inject)

lemma ok_topic_empty: "ok_topic ''''"
proof -
  have "\<not> is_share ''''" by code_simp
  then show ?thesis by (simp add: ok_topic_def ok_filter_def ownershipKeyParts_def ownershipKeyPrefix_def has_prefix_iff)
qed

lemma topicsForNode_set:
  assumes "router_inv r R" "topics_of R n \<subseteq> set order"
  shows "set (topicsForNodeLocked order n r) = topics_of R n"
  using assms by (auto simp: topicsForNodeLocked_def router_inv_def set_at_nodes)

lemma purge_rel: "R - topics_of R n \<times> {n} = R - UNIV \<times> {n}"
  by (auto simp: topics_of_def)

lemma batch_write:
  assumes "cs_faults S = []" "CHR 0x00 \<notin> set n"
  shows "(case store_delete (map (\<lambda>t. routeKey t n) ts) S of (S', False) \<Rightarrow> (S', False) | (S', True) \<Rightarrow> Router_publish ev S') =
      (S\<lparr>cs_keys := cs_keys S - set (map (\<lambda>t. routeKey t n) ts), cs_events := cs_events S @ [ev]\<rparr>, True)"
  using assms by (simp add: store_delete_def no_fault Router_publish_def)

text \<open>The events a successful write publishes and the keys it leaves describe the same change.\<close>

lemma run_write_refines:
  assumes inv: "router_inv r (store_rel S)" and nf: "cs_faults S = []" and n: "ok_node (write_node w)"
    and order: "topics_of (store_rel S) (write_node w) \<subseteq> set order"
  obtains S' evs where "run_write order w r S = (S', True)" "store_rel S' = rel_write w (store_rel S)"
    "cs_events S' = cs_events S @ evs" "fold rel_event evs (store_rel S) = store_rel S'"
    "\<forall>ev\<in>set evs. ev_NodeID ev = write_node w \<and>
       set (ev_Topic ev # ev_Topics ev) \<subseteq> insert '''' (set (write_topics w) \<union> topics_of (store_rel S) (write_node w))"
    "length evs \<le> 1"
proof -
  let ?R = "store_rel S"
  define n where "n = write_node w"
  have nul: "CHR 0x00 \<notin> set n" using assms(3) by (simp add: n_def ok_node_def)
  define ts where "ts = topicsForNodeLocked order n r"
  have ts: "set ts = topics_of ?R n" using topicsForNode_set[OF inv, of n order] order by (simp add: ts_def n_def)
  have none: "ts = [] \<Longrightarrow> ?R - UNIV \<times> {n} = ?R" using ts by (auto simp: topics_of_def)
  have all: "?R - set ts \<times> {n} = ?R - UNIV \<times> {n}" unfolding ts by (rule purge_rel)
  note events = rel_event_def n_def[symmetric]
  consider (sub) t where "w = WSubscribe t n" | (unsub) t where "w = WUnsubscribe t n"
    | (batch) us where "w = WBatch us n" | (purge) "w = WPurge n"
    by (cases w) (simp_all add: n_def)
  then show thesis
  proof cases
    case sub
    let ?ev = "\<lparr>ev_Op = eventSubscribe, ev_Topic = t, ev_Topics = [], ev_NodeID = n\<rparr>"
    let ?S = "S\<lparr>cs_keys := insert (routeKey t n) (cs_keys S), cs_events := cs_events S @ [?ev]\<rparr>"
    have "store_rel ?S = insert (t, n) ?R"
      using nul by (auto simp: store_rel_iff routeKey_inject)
    then show thesis using nf sub
      by (intro that[of ?S "[?ev]"]) (simp_all add: Router_Subscribe_def store_put_def Router_publish_def no_fault events)
  next
    case unsub
    let ?ev = "\<lparr>ev_Op = eventUnsubscribe, ev_Topic = t, ev_Topics = [], ev_NodeID = n\<rparr>"
    let ?S = "S\<lparr>cs_keys := cs_keys S - set (map (\<lambda>t. routeKey t n) [t]), cs_events := cs_events S @ [?ev]\<rparr>"
    have "store_rel ?S = ?R - {(t, n)}" using delete_keys[OF nul, where S = S and ts = "[t]"] by simp
    then show thesis using nf unsub
      by (intro that[of ?S "[?ev]"]) (simp_all add: Router_Unsubscribe_def store_delete_def Router_publish_def no_fault events)
  next
    case batch
    define vs where "vs = (if us = [] then ts else us)"
    let ?ev = "\<lparr>ev_Op = eventUnsubscribeBatch, ev_Topic = '''', ev_Topics = vs, ev_NodeID = n\<rparr>"
    have rel: "?R - set vs \<times> {n} = rel_write w ?R" using batch all by (simp add: vs_def)
    show thesis
    proof (cases "vs = []")
      case True
      then show thesis using batch none by (intro that[of S "[]"]) (auto simp: UnsubscribeBatch_def vs_def ts_def split: if_splits)
    next
      case False
      then have run: "run_write order w r S =
          (S\<lparr>cs_keys := cs_keys S - set (map (\<lambda>t. routeKey t n) vs), cs_events := cs_events S @ [?ev]\<rparr>, True)"
        unfolding batch_write[OF nf nul, symmetric] batch vs_def ts_def by (simp add: UnsubscribeBatch_def Let_def)
      moreover have "set vs \<subseteq> insert '''' (set us \<union> topics_of ?R n)" using ts by (auto simp: vs_def)
      ultimately show thesis
        using batch rel delete_keys[OF nul, where S = S and ts = vs] by (intro that[OF run, of "[?ev]"]) (simp_all add: events)
    qed
  next
    case purge
    let ?ev = "\<lparr>ev_Op = eventPurgeNode, ev_Topic = '''', ev_Topics = [], ev_NodeID = n\<rparr>"
    show thesis
    proof (cases "ts = []")
      case True
      then show thesis using purge none by (intro that[of S "[]"]) (simp_all add: PurgeNode_def ts_def)
    next
      case False
      then show thesis
        using purge all batch_write[OF nf nul, where ts = ts and ev = ?ev] delete_keys[OF nul, where S = S and ts = ts]
        by (intro that[of "S\<lparr>cs_keys := cs_keys S - set (map (\<lambda>t. routeKey t n) ts), cs_events := cs_events S @ [?ev]\<rparr>" "[?ev]"])
          (simp_all add: PurgeNode_def Let_def ts_def[symmetric] events)
    qed
  qed
qed

subsection \<open>Properties\<close>

lemma group_member_ok:
  assumes "index_inv x" "group_member topic x f c"
  shows "ok_filter f"
proof -
  obtain s path where s: "(c, s) \<in> set (members (content (x_root x) path))" "sub_Filter s = f"
    using assms(2) by (auto simp: group_member_def shared_matches_def)
  then obtain g where "(c, s) \<in> set (share_members (p_shared (content (x_root x) path)) g)"
    using members_share[OF content_groups_ok[OF assms(1)]] by blast
  with placedD(2)[of "pay (x_root x)" c s path g] assms(1) s(2) show ?thesis
    by (simp add: index_inv_def content_fields)
qed

lemma router_group_member:
  assumes "router_inv r R"
  shows "group_member topic (rt_index r) f c \<longleftrightarrow> (f, c) \<in> R \<and> is_share f \<and> covers f topic"
proof (cases "ok_filter f")
  case True
  with assms show ?thesis by (simp add: router_inv_def holds_exactly_group)
next
  case False
  have "index_inv (rt_index r)" using assms by (simp add: router_inv_def holds_exactly_def)
  moreover have "(f, c) \<notin> R" using False assms by (auto simp: router_inv_def dest: ok_topicD)
  ultimately show ?thesis using group_member_ok False by blast
qed

lemma ok_event_of_write:
  assumes "router_inv r R" "ok_node (write_node w)" "\<forall>t\<in>set (write_topics w). ok_topic t"
    "ev_NodeID ev = write_node w"
    "set (ev_Topic ev # ev_Topics ev) \<subseteq> insert '''' (set (write_topics w) \<union> topics_of R (write_node w))"
  shows "ok_event ev"
proof -
  have "\<forall>t\<in>topics_of R (write_node w). ok_topic t" using assms(1) by (auto simp: router_inv_def topics_of_def)
  with assms(2-5) ok_topic_empty show ?thesis by (auto simp: ok_event_def)
qed

definition sub_event :: "string \<Rightarrow> string \<Rightarrow> routeEvent" where
  "sub_event t n = \<lparr>ev_Op = eventSubscribe, ev_Topic = t, ev_Topics = [], ev_NodeID = n\<rparr>"

lemma rel_sub_event [simp]: "rel_event (sub_event t n) R = insert (t, n) R"
  by (simp add: rel_event_def sub_event_def)

lemma router_run_sub:
  "router_run r R \<Longrightarrow> ok_topic t \<Longrightarrow> ok_node n \<Longrightarrow> topics_of R n \<subseteq> set order \<Longrightarrow>
   router_run (applyEvent order (sub_event t n) r) (insert (t, n) R)"
  using router_run.event[of r R "sub_event t n" order] by (simp add: ok_event_def sub_event_def) (simp add: rel_event_def)

lemma plain_topic_ok:
  "\<not> is_share t \<Longrightarrow> \<not> has_prefix t ownershipKeyPrefix \<Longrightarrow> ok_topic t"
  by (auto simp: ok_topic_def ok_filter_def dest: ownershipKeyParts_SomeD)

lemma shared_topic_ok: "CHR ''/'' \<notin> set g \<Longrightarrow> ok_topic (''$share/'' @ g @ CHR ''/'' # t)"
  using ok_share[of g t] by (auto simp: ok_topic_def ownershipKeyPrefix_def has_prefix_iff dest!: ownershipKeyParts_SomeD(3))

lemma first_level: "CHR ''/'' \<notin> set l \<Longrightarrow> go_split CHR ''/'' (l @ CHR ''/'' # s) = l # go_split CHR ''/'' s"
  using go_split_append_sep[of "CHR ''/''" l s] by (simp add: go_split_free)

lemma ownership_levels:
  "go_split CHR ''/'' (OwnershipKey c f) = [''$offline'', EncodeToString (c @ CHR 0x00 # f)]"
proof -
  have "CHR ''/'' \<notin> set (EncodeToString (c @ CHR 0x00 # f))" using EncodeToString_safe by blast
  then have "go_split CHR ''/'' (EncodeToString (c @ CHR 0x00 # f)) = [EncodeToString (c @ CHR 0x00 # f)]"
    by (rule go_split_free)
  then show ?thesis using first_level[of "''$offline''" "EncodeToString (c @ CHR 0x00 # f)"]
    by (simp add: OwnershipKey_def ownershipKeyPrefix_def)
qed

lemma ownership_not_share [simp]: "\<not> is_share (OwnershipKey c f)"
proof -
  have "\<not> equal_fold_ascii ''$offline'' SharePrefix" by code_simp
  then show ?thesis by (simp add: is_share_levels ownership_levels)
qed

lemma ownership_ok:
  assumes "CHR 0x00 \<notin> set c" "f \<noteq> ''''" "\<And>g u. SharedFilter f = Some (g, u) \<Longrightarrow> ok_filter u"
  shows "ok_topic (OwnershipKey c f)"
  using assms by (auto simp: ok_topic_def ok_filter_def ownership_roundtrip)

lemma run_write_run:
  assumes q: "router_run q (store_rel S)" and r: "router_run r (store_rel S)" and nf: "cs_faults S = []"
    and ok: "ok_node (write_node w)" "\<forall>t\<in>set (write_topics w). ok_topic t"
    and order: "topics_of (store_rel S) (write_node w) \<subseteq> set order"
  obtains S' evs where "run_write order w r S = (S', True)" "store_rel S' = rel_write w (store_rel S)"
    "cs_events S' = cs_events S @ evs" "router_run (fold (applyEvent order) evs q) (store_rel S')"
proof -
  obtain S' evs where w: "run_write order w r S = (S', True)" "store_rel S' = rel_write w (store_rel S)"
    "cs_events S' = cs_events S @ evs" "fold rel_event evs (store_rel S) = store_rel S'"
    "\<forall>ev\<in>set evs. ev_NodeID ev = write_node w \<and>
       set (ev_Topic ev # ev_Topics ev) \<subseteq> insert '''' (set (write_topics w) \<union> topics_of (store_rel S) (write_node w))"
    "length evs \<le> 1"
    by (rule run_write_refines[OF router_run_inv[OF r] nf ok(1) order])
  have "router_run (fold (applyEvent order) evs q) (store_rel S')"
  proof (cases evs)
    case Nil
    then show ?thesis using w(4) q by simp
  next
    case (Cons ev es)
    then have es: "evs = [ev]" using w(6) by simp
    then have "ev_NodeID ev = write_node w" "ok_event ev"
      using w(5) ok_event_of_write[OF router_run_inv[OF r] ok] by simp_all
    then show ?thesis using router_run.event[OF q, of ev order] w(4) order es by simp
  qed
  then show thesis by (rule that[OF w(1-3)])
qed

definition example_router :: Router where
  "example_router = applyEvent [''$share/g/a/b''] (sub_event (OwnershipKey ''c1'' ''$share/g/a'') ''n2'')
     (applyEvent [] (sub_event ''$share/g/a/b'' ''n2'')
       (applyEvent [] (sub_event ''a/+'' ''n1'') emptyRouter))"

definition example_rel :: "(string \<times> string) set" where
  "example_rel = {(OwnershipKey ''c1'' ''$share/g/a'', ''n2''), (''$share/g/a/b'', ''n2''), (''a/+'', ''n1'')}"

lemma example_run: "router_run example_router example_rel"
proof -
  have a: "ok_topic ''a/+''"
    by (rule plain_topic_ok) (code_simp, simp add: ownershipKeyPrefix_def has_prefix_iff)
  have s: "ok_topic ''$share/g/a/b''" using shared_topic_ok[of "''g''" "''a/b''"] by simp
  have u: "SharedFilter ''$share/g/a'' = Some (''g'', ''a'')" "\<not> is_share ''a''" by code_simp+
  have o: "ok_topic (OwnershipKey ''c1'' ''$share/g/a'')"
    by (rule ownership_ok) (simp_all add: u ok_filter_def)
  have n: "ok_node ''n1''" "ok_node ''n2''" by (simp_all add: ok_node_def)
  show ?thesis unfolding example_router_def example_rel_def
    by (intro router_run_sub router_run.start a s o n) simp_all
qed

lemma router_plan:
  fixes topic local n f :: string
  assumes run: "router_run r R" and visit: "visits_all visit"
  defines "plan \<equiv> LiveDeliveryPlan visit topic local r"
  shows "(n \<in> lp_Nodes plan \<longleftrightarrow>
      (\<exists>t. (t, n) \<in> R \<and> \<not> is_share t \<and> covers t topic) \<or>
      (\<exists>f. lp_SharedNodes plan f = Some n \<and> (local = '''' \<or> (f, local) \<notin> R))) \<and>
    (case lp_SharedNodes plan f of
      None \<Rightarrow> \<not> live_group topic f R
    | Some m \<Rightarrow> (f, m) \<in> R \<and> is_share f \<and> covers f topic \<and> (local \<noteq> '''' \<and> (f, local) \<in> R \<longrightarrow> m = local))"
proof -
  note inv = router_run_inv[OF run]
  have plan: "lp_Nodes plan = fst (SubscriberRoutingPlan visit topic local (rt_index r))"
    "lp_SharedNodes plan = snd (SubscriberRoutingPlan visit topic local (rt_index r))"
    by (simp_all add: plan_def LiveDeliveryPlan_def split_beta)
  have hx: "holds_exactly (rt_index r) R" using inv by (simp add: router_inv_def)
  have shared: "case lp_SharedNodes plan f of
      None \<Rightarrow> \<not> live_group topic f R
    | Some m \<Rightarrow> (f, m) \<in> R \<and> is_share f \<and> covers f topic \<and> (local \<noteq> '''' \<and> (f, local) \<in> R \<longrightarrow> m = local)" for f
    using plan_choice[OF visit, where topic = topic and local = local and x = "rt_index r" and f = f]
    by (simp add: plan(2) router_group_member[OF inv] live_group_def split: option.splits) blast+
  have "lp_SharedNodes plan f = Some n \<Longrightarrow> is_share f \<and> covers f topic" for f using shared[of f] by simp
  then have "n \<in> lp_Nodes plan \<longleftrightarrow>
      (\<exists>t. (t, n) \<in> R \<and> \<not> is_share t \<and> covers t topic) \<or>
      (\<exists>f. lp_SharedNodes plan f = Some n \<and> (local = '''' \<or> (f, local) \<notin> R))"
    using plan_nodes[OF visit, of n topic local "rt_index r"]
    unfolding plan[symmetric] router_group_member[OF inv] holds_exactly_matches[OF hx] by blast
  with shared[of f] show ?thesis by blast
qed



text \<open>For a shared filter with offline owners every node makes the same choice: unless a live member
  covers the topic, the selection is the least pair of node and client among the owners whose filter
  covers the topic, and there is none only if there is no such owner. It does not depend on the order
  in which the maps are visited.\<close>

theorem router_offline_selection:
  assumes "router_run r R" "ok_filter f" "owner_keys R f \<subseteq> set order"
  shows "offlineSharedSelectionsLocked order topic r f = Some p \<longleftrightarrow>
    \<not> live_group topic f R \<and> p \<in> offline_owners topic f R \<and> (\<forall>q\<in>offline_owners topic f R. owner_le p q)"
  by (rule offline_selection[OF router_run_inv[OF assms(1)] assms(2,3)])

theorem router_offline_selection_witness:
  "offlineSharedSelectionsLocked [sharedOwnerKey ''n2'' ''c1''] ''a'' example_router ''$share/g/a'' = Some (''n2'', ''c1'')"
proof -
  let ?f = "''$share/'' @ ''g'' @ CHR ''/'' # ''a''"
  have f: "ok_filter ?f" by (rule ok_share) simp
  have s: "SharedFilter ?f = Some (''g'', ''a'')" "\<not> is_share ''a''" "covers ''a'' ''a''" by code_simp+
  have p: "ownershipKeyParts ''$share/g/a/b'' = None" "ownershipKeyParts ''a/+'' = None"
    by (simp_all add: ownershipKeyParts_def ownershipKeyPrefix_def has_prefix_iff)
  have k: "ownershipKeyParts (OwnershipKey ''c1'' ?f) = Some (''c1'', ?f)" by (rule ownership_roundtrip) simp_all
  have "owner_keys example_rel ?f = {sharedOwnerKey ''n2'' ''c1''}"
    using k p s(1) by (auto simp: owner_keys_def example_rel_def)
  moreover have "offline_owners ''a'' ?f example_rel = {(''n2'', ''c1'')}"
    using k p s by (auto simp: offline_owners_def example_rel_def underlying_def)
  moreover have "\<not> live_group ''a'' ?f example_rel"
  proof -
    have "is_share ?f" by code_simp
    then have "?f \<noteq> OwnershipKey ''c1'' ?f" using ownership_not_share[of "''c1''" ?f] by metis
    then show ?thesis by (simp add: live_group_def example_rel_def)
  qed
  ultimately show ?thesis
    using router_offline_selection[OF example_run f, of "[sharedOwnerKey ''n2'' ''c1'']" "''a''" "(''n2'', ''c1'')"]
    by (simp add: owner_le_def)
qed



end
