(* ===== verification/Ownership.thy ===== *)
theory Ownership
  imports Router
begin

text \<open>
  Clients of the routing registry: the ownership of offline sessions
  (\<open>internal/cluster/raft/offline_ownership.go\<close>), which registers the owner of a client's filter under an
  opaque topic, and the reconciler of \<open>internal/cluster/routing/reconciler.go\<close>, which re-asserts the filters
  of connected clients after the store lost them. Both are written over the registry interface the code
  declares, which is a record of operations here, and a locale states the laws they rely on; the router is
  shown to provide them.
\<close>

subsection \<open>Offline ownership\<close>

record 's offlineOwnerRegistry =
  reg_Subscribe :: "string \<Rightarrow> string \<Rightarrow> 's \<Rightarrow> 's \<times> bool"
  reg_Unsubscribe :: "string \<Rightarrow> string \<Rightarrow> 's \<Rightarrow> 's \<times> bool"
  reg_NodesFor :: "string \<Rightarrow> string \<Rightarrow> 's \<Rightarrow> string list"

definition CurrentOwner :: "'s offlineOwnerRegistry \<Rightarrow> string \<Rightarrow> string \<Rightarrow> 's \<Rightarrow> string option" where
  "CurrentOwner reg clientID filt s =
     (case reg_NodesFor reg (OwnershipKey clientID filt) '''' s of [] \<Rightarrow> None | n # _ \<Rightarrow> Some n)"

text \<open>\<open>Place\<close> returns the states after each of its registry calls, in order, and whether it succeeded.\<close>

definition Place :: "'s offlineOwnerRegistry \<Rightarrow> string \<Rightarrow> string \<Rightarrow> string \<Rightarrow> 's \<Rightarrow> 's list \<times> bool" where
  "Place reg clientID filt newOwner s =
     (let key = OwnershipKey clientID filt;
          old = CurrentOwner reg clientID filt s
      in case reg_Subscribe reg key newOwner s of
           (s1, False) \<Rightarrow> ([s1], False)
         | (s1, True) \<Rightarrow>
             (case reg_Subscribe reg (OfflineRouteKey filt) newOwner s1 of
                (s2, False) \<Rightarrow> ([s1, s2], False)
              | (s2, True) \<Rightarrow>
                  (case old of
                     None \<Rightarrow> ([s1, s2], True)
                   | Some n \<Rightarrow>
                       if n \<noteq> newOwner then ([s1, s2, fst (reg_Unsubscribe reg key n s2)], True)
                       else ([s1, s2], True))))"

definition Clear :: "'s offlineOwnerRegistry \<Rightarrow> string \<Rightarrow> string \<Rightarrow> 's \<Rightarrow> 's \<times> bool" where
  "Clear reg clientID filt s =
     (case CurrentOwner reg clientID filt s of
        None \<Rightarrow> (s, True)
      | Some old \<Rightarrow> reg_Unsubscribe reg (OwnershipKey clientID filt) old s)"

text \<open>The registry of a node: writes go to the store, lookups to the local cache.\<close>

definition router_registry ::
  "((string \<times> Subscription) list \<Rightarrow> (string \<times> Subscription) list) \<Rightarrow> string list \<Rightarrow> (Router \<times> ClusterStore) offlineOwnerRegistry" where
  "router_registry visit order =
     \<lparr>reg_Subscribe = (\<lambda>t n (r, S). map_prod (Pair r) id (Router_Subscribe t n S)),
      reg_Unsubscribe = (\<lambda>t n (r, S). map_prod (Pair r) id (Router_Unsubscribe t n S)),
      reg_NodesFor = (\<lambda>t l (r, S). filter (\<lambda>n. n \<in> NodesFor visit t l r) order)\<rparr>"

text \<open>What \<open>Place\<close> relies on: a subscribe removes nothing and, when it reports success, has registered
  the pair; an unsubscribe removes no other pair.\<close>

locale owner_registry =
  fixes reg :: "'s offlineOwnerRegistry"
    and registered :: "'s \<Rightarrow> (string \<times> string) set"
    and okt okn :: "string \<Rightarrow> bool"
  assumes subscribe_keeps: "registered s \<subseteq> registered (fst (reg_Subscribe reg t n s))"
    and subscribe_adds: "okn n \<Longrightarrow> snd (reg_Subscribe reg t n s) \<Longrightarrow> (t, n) \<in> registered (fst (reg_Subscribe reg t n s))"
    and unsubscribe_only: "okt t \<Longrightarrow> okt u \<Longrightarrow> (u, m) \<in> registered s \<Longrightarrow> (u, m) \<noteq> (t, n) \<Longrightarrow>
      (u, m) \<in> registered (fst (reg_Unsubscribe reg t n s))"
    and key_ok: "okt (OwnershipKey clientID filt)"
begin

lemma place_no_gap:
  assumes "okn newOwner" "s' \<in> set (fst (Place reg clientID filt newOwner s))"
    "(OwnershipKey clientID filt, n) \<in> registered s"
  shows "\<exists>m. (OwnershipKey clientID filt, m) \<in> registered s'"
proof -
  let ?k = "OwnershipKey clientID filt"
  obtain s1 b1 where 1: "reg_Subscribe reg ?k newOwner s = (s1, b1)" by fastforce
  obtain s2 b2 where 2: "reg_Subscribe reg (OfflineRouteKey filt) newOwner s1 = (s2, b2)" by fastforce
  have s1: "(?k, n) \<in> registered s1" using subscribe_keeps[of s ?k newOwner] 1 assms(3) by auto
  have s2: "(?k, n) \<in> registered s2" using subscribe_keeps[of s1 "OfflineRouteKey filt" newOwner] 2 s1 by auto
  have new: "(?k, newOwner) \<in> registered s2" if b1
    using subscribe_adds[OF assms(1), of ?k s] subscribe_keeps[of s1 "OfflineRouteKey filt" newOwner] 1 2 that by auto
  have s3: "(?k, newOwner) \<in> registered (fst (reg_Unsubscribe reg ?k m s2))" if b1 "m \<noteq> newOwner" for m
    using unsubscribe_only[OF key_ok key_ok new[OF that(1)], where n = m] that(2) by simp
  from assms(2) have "s' = s1 \<or> s' = s2 \<or> b1 \<and> (\<exists>m. m \<noteq> newOwner \<and> s' = fst (reg_Unsubscribe reg ?k m s2))"
    using 1 2 by (auto simp: Place_def Let_def split: bool.splits option.splits if_splits)
  with s1 s2 s3 show ?thesis by blast
qed

lemma place_done:
  assumes "okn newOwner" "Place reg clientID filt newOwner s = (ss, True)"
  shows "(OwnershipKey clientID filt, newOwner) \<in> registered (last ss)"
proof -
  let ?k = "OwnershipKey clientID filt"
  obtain s1 b1 where 1: "reg_Subscribe reg ?k newOwner s = (s1, b1)" by fastforce
  obtain s2 b2 where 2: "reg_Subscribe reg (OfflineRouteKey filt) newOwner s1 = (s2, b2)" by fastforce
  from assms(2) have b: b1 and l: "last ss = s2 \<or> (\<exists>m. m \<noteq> newOwner \<and> last ss = fst (reg_Unsubscribe reg ?k m s2))"
    using 1 2 by (auto simp: Place_def Let_def split: bool.splits option.splits if_splits)
  have new: "(?k, newOwner) \<in> registered s2"
    using subscribe_adds[OF assms(1), of ?k s] subscribe_keeps[of s1 "OfflineRouteKey filt" newOwner] 1 2 b by auto
  from l show ?thesis
  proof
    assume "\<exists>m. m \<noteq> newOwner \<and> last ss = fst (reg_Unsubscribe reg ?k m s2)"
    then obtain m where m: "m \<noteq> newOwner" "last ss = fst (reg_Unsubscribe reg ?k m s2)" by blast
    then show ?thesis using unsubscribe_only[OF key_ok key_ok new, where n = m] by simp
  qed (use new in simp)
qed


end

lemma store_put_rel:
  "store_rel S \<subseteq> store_rel (fst (store_put k S))"
  "snd (store_put (routeKey t n) S) \<Longrightarrow> CHR 0x00 \<notin> set n \<Longrightarrow> (t, n) \<in> store_rel (fst (store_put (routeKey t n) S))"
  by (cases S rule: next_fault_cases; auto simp: store_put_def store_rel_iff split: fault.splits)+

lemma routeKey_other:
  assumes "CHR 0x00 \<notin> set t" "CHR 0x00 \<notin> set u" "routeKey u m = routeKey t n"
  shows "u = t \<and> m = n"
proof -
  have "cut_first CHR 0x00 (routeKey u m) = Some (u, m)" "cut_first CHR 0x00 (routeKey t n) = Some (t, n)"
    using assms(1,2) by (simp_all add: routeKey_def keySep_def cut_first_append)
  then have "Some (u, m) = Some (t, n)" unfolding assms(3) by (rule trans[OF sym])
  then show ?thesis by simp
qed

lemma store_delete_rel:
  assumes "CHR 0x00 \<notin> set t" "CHR 0x00 \<notin> set u" "(u, m) \<in> store_rel S" "(u, m) \<noteq> (t, n)"
  shows "(u, m) \<in> store_rel (fst (store_delete [routeKey t n] S))"
proof -
  have "routeKey u m \<noteq> routeKey t n" using routeKey_other[OF assms(1,2)] assms(4) by blast
  with assms(3) show ?thesis
    by (cases S rule: next_fault_cases) (auto simp: store_delete_def store_rel_iff split: fault.split)
qed

lemma Router_Subscribe_rel:
  "store_rel S \<subseteq> store_rel (fst (Router_Subscribe t n S))"
  "snd (Router_Subscribe t n S) \<Longrightarrow> CHR 0x00 \<notin> set n \<Longrightarrow> (t, n) \<in> store_rel (fst (Router_Subscribe t n S))"
  using store_put_rel(1)[of S "routeKey t n"] store_put_rel(2)[of t n S]
  by (auto simp: Router_Subscribe_def split: prod.splits bool.splits)

lemma Router_Unsubscribe_rel:
  "CHR 0x00 \<notin> set t \<Longrightarrow> CHR 0x00 \<notin> set u \<Longrightarrow> (u, m) \<in> store_rel S \<Longrightarrow> (u, m) \<noteq> (t, n) \<Longrightarrow>
   (u, m) \<in> store_rel (fst (Router_Unsubscribe t n S))"
  using store_delete_rel[of t u m S n] by (auto simp: Router_Unsubscribe_def split: prod.splits bool.splits)

interpretation routes: owner_registry "router_registry visit order" "store_rel \<circ> snd"
  "\<lambda>t. CHR 0x00 \<notin> set t" "\<lambda>n. CHR 0x00 \<notin> set n" for visit order
proof unfold_locales
  show "CHR 0x00 \<notin> set (OwnershipKey clientID filt)" for clientID filt
    using EncodeToString_safe by (auto simp: OwnershipKey_def ownershipKeyPrefix_def)
qed (use Router_Subscribe_rel Router_Unsubscribe_rel in \<open>auto simp: router_registry_def split: prod.splits\<close>)

subsection \<open>What a lookup of an ownership key finds\<close>

lemma slot_path_plain: "\<not> is_share t \<Longrightarrow> slot_path t = go_split CHR ''/'' t"
  by (simp add: slot_path_def)

lemma first_level_wild:
  assumes "go_split CHR ''/'' t = l # ls" "l = ''#'' \<or> l = ''+''"
  shows "t \<noteq> '''' \<and> (hd t = CHR ''+'' \<or> hd t = CHR ''#'')"
  using assms first_level_char[of t "CHR ''+''"] first_level_char[of t "CHR ''#''"] by (cases "t = ''''") auto

lemma covers_ownership:
  assumes "\<not> is_share t" "covers t (OwnershipKey c f)"
  shows "\<exists>ls. go_split CHR ''/'' t = ''$offline'' # ls"
proof -
  have "scan_match (go_split CHR ''/'' t) [''$offline'', EncodeToString (c @ CHR 0x00 # f)]"
    and skip: "\<not> dollar_skip (OwnershipKey c f) (filter_sub t)"
    using assms by (simp_all add: covers_def ownership_levels slot_path_plain)
  then obtain l ls where l: "go_split CHR ''/'' t = l # ls" "l = ''#'' \<or> l = ''+'' \<or> l = ''$offline''"
    using scan_match_Cons2[of "go_split CHR ''/'' t" "''$offline''" "EncodeToString (c @ CHR 0x00 # f)" "[]"] by auto
  moreover have "\<not> (l = ''#'' \<or> l = ''+'')"
  proof
    assume "l = ''#'' \<or> l = ''+''"
    from first_level_wild[OF l(1) this] skip show False
      by (auto simp: dollar_skip_def filter_sub_def OwnershipKey_def ownershipKeyPrefix_def)
  qed
  ultimately show ?thesis by blast
qed

lemma covers_ownership_iff: "covers (OwnershipKey d g) (OwnershipKey c f) \<longleftrightarrow> OwnershipKey d g = OwnershipKey c f"
proof -
  let ?e = "\<lambda>c f. EncodeToString (c @ CHR 0x00 # f)"
  have "CHR ''#'' \<notin> set (?e d g)" "CHR ''+'' \<notin> set (?e d g)" using EncodeToString_safe by blast+
  then have "?e d g \<noteq> ''#''" "?e d g \<noteq> ''+''" by auto
  then have "scan_match [''$offline'', ?e d g] [''$offline'', ?e c f] \<longleftrightarrow> ?e d g = ?e c f" by auto
  moreover have "\<not> dollar_skip (OwnershipKey c f) (filter_sub (OwnershipKey d g))"
    by (simp add: dollar_skip_def filter_sub_def OwnershipKey_def ownershipKeyPrefix_def)
  moreover have "OwnershipKey c f \<noteq> ''''" by (simp add: OwnershipKey_def ownershipKeyPrefix_def)
  ultimately show ?thesis
    by (simp add: covers_def slot_path_plain ownership_levels) (simp add: OwnershipKey_def)
qed

definition offline_reserved :: "(string \<times> string) set \<Rightarrow> bool" where
  "offline_reserved R \<longleftrightarrow> (\<forall>(t, n)\<in>R. \<not> is_share t \<and>
     (\<forall>ls. go_split CHR ''/'' t = ''$offline'' # ls \<longrightarrow> (\<exists>d g. t = OwnershipKey d g)))"

lemma NodesFor_ownership:
  assumes run: "router_run r R" and visit: "visits_all visit" and res: "offline_reserved R"
  shows "n \<in> NodesFor visit (OwnershipKey c f) '''' r \<longleftrightarrow> (OwnershipKey c f, n) \<in> R"
proof -
  note plan = router_plan[OF run visit, where topic = "OwnershipKey c f" and local = "''''"]
  have "\<not> (\<exists>g. lp_SharedNodes (LiveDeliveryPlan visit (OwnershipKey c f) '''' r) g = Some n)"
  proof
    assume "\<exists>g. lp_SharedNodes (LiveDeliveryPlan visit (OwnershipKey c f) '''' r) g = Some n"
    then obtain g where "(g, n) \<in> R" "is_share g" using plan by (fastforce split: option.splits)
    with res show False by (auto simp: offline_reserved_def)
  qed
  moreover have "(\<exists>t. (t, n) \<in> R \<and> \<not> is_share t \<and> covers t (OwnershipKey c f)) \<longleftrightarrow> (OwnershipKey c f, n) \<in> R"
  proof
    assume "\<exists>t. (t, n) \<in> R \<and> \<not> is_share t \<and> covers t (OwnershipKey c f)"
    then obtain t where t: "(t, n) \<in> R" "\<not> is_share t" "covers t (OwnershipKey c f)" by blast
    then obtain d g where "t = OwnershipKey d g" using covers_ownership res by (fastforce simp: offline_reserved_def)
    with t show "(OwnershipKey c f, n) \<in> R" by (simp add: covers_ownership_iff)
  qed (use covers_ownership_iff[of c f c f] in auto)
  ultimately show ?thesis using plan by (simp add: NodesFor_def)
qed

lemma covers_shared_hash:
  assumes "CHR ''/'' \<notin> set g"
  shows "is_share (''$share/'' @ g @ ''/#'')" "covers (''$share/'' @ g @ ''/#'') (OwnershipKey c f)"
proof -
  have l: "go_split CHR ''/'' (''$share/'' @ g @ CHR ''/'' # ''#'') = [''$share'', g, ''#'']"
    using share_levels[OF assms, of "''#''"] by simp
  show s: "is_share (''$share/'' @ g @ ''/#'')" using l share_prefix_fold by (simp add: is_share_levels)
  have "slot_path (''$share/'' @ g @ ''/#'') = [''#'']"
    using s l index_path_drop[of 2 "''$share/'' @ g @ ''/#''"] by (simp add: slot_path_def)
  then show "covers (''$share/'' @ g @ ''/#'') (OwnershipKey c f)"
    using s by (simp add: covers_def ownership_levels) (simp add: OwnershipKey_def ownershipKeyPrefix_def)
qed

subsection \<open>Re-assertion of live filters\<close>

text \<open>\<open>LocalSubscriptions\<close>: the distinct filters of the connected clients, each client given by its
  filters.\<close>

definition LocalSubscriptions :: "string list list \<Rightarrow> string list" where
  "LocalSubscriptions clients = remdups (concat clients)"

definition reconcileOnce :: "string list \<Rightarrow> string list \<Rightarrow> string \<Rightarrow> ClusterStore \<Rightarrow> ClusterStore" where
  "reconcileOnce local known nodeID S =
     (if local = [] then S
      else
        let missing = filter (\<lambda>t. t \<notin> set known) local in
        if missing = [] then S
        else fold (\<lambda>t S. fst (Router_Subscribe t nodeID S)) missing S)"

text \<open>A tick whose view of the registry is up to date: the node knows the filters of its clients that the
  store holds for it.\<close>

definition reconcile_tick :: "string list \<Rightarrow> string \<Rightarrow> ClusterStore \<Rightarrow> ClusterStore" where
  "reconcile_tick local nodeID S =
     reconcileOnce local (filter (\<lambda>t. routeKey t nodeID \<in> cs_keys S) local) nodeID S"

lemma Router_Subscribe_faults:
  "length (cs_faults (fst (Router_Subscribe t n S))) \<le> length (cs_faults S) - 1"
  "cs_faults S = [] \<Longrightarrow> snd (Router_Subscribe t n S) \<and> cs_faults (fst (Router_Subscribe t n S)) = []"
proof -
  have p: "length (cs_faults (fst (Router_publish ev S))) \<le> length (cs_faults S)" for ev and S :: ClusterStore
    by (cases S rule: next_fault_cases) (auto simp: Router_publish_def split: fault.split)
  have "length (cs_faults (fst (store_put k S))) \<le> length (cs_faults S) - 1" for k
    by (cases S rule: next_fault_cases) (auto simp: store_put_def split: fault.split)
  with p show "length (cs_faults (fst (Router_Subscribe t n S))) \<le> length (cs_faults S) - 1"
    by (auto simp: Router_Subscribe_def split: prod.splits bool.splits) (metis fst_conv le_trans)+
  show "cs_faults S = [] \<Longrightarrow> snd (Router_Subscribe t n S) \<and> cs_faults (fst (Router_Subscribe t n S)) = []"
    by (simp add: Router_Subscribe_def store_put_def Router_publish_def no_fault)
qed

lemma subscribe_all_rel:
  "store_rel S \<subseteq> store_rel (fold (\<lambda>t S. fst (Router_Subscribe t n S)) ts S)"
  by (induction ts arbitrary: S) (use Router_Subscribe_rel(1) in \<open>auto dest!: subsetD\<close>)

lemma subscribe_all_done:
  "cs_faults S = [] \<Longrightarrow> CHR 0x00 \<notin> set n \<Longrightarrow> t \<in> set ts \<Longrightarrow>
   (t, n) \<in> store_rel (fold (\<lambda>t S. fst (Router_Subscribe t n S)) ts S)"
proof (induction ts arbitrary: S)
  case (Cons u ts)
  let ?S = "fst (Router_Subscribe u n S)"
  have ok: "cs_faults ?S = []" "(u, n) \<in> store_rel ?S"
    using Router_Subscribe_faults(2)[OF Cons.prems(1)] Router_Subscribe_rel(2) Cons.prems(2) by blast+
  show ?case
  proof (cases "t = u")
    case True
    then show ?thesis using ok(2) subscribe_all_rel[of ?S n ts] by auto
  next
    case False
    then show ?thesis using Cons.IH[OF ok(1) Cons.prems(2)] Cons.prems(3) by simp
  qed
qed simp

lemma subscribe_all_faults:
  "ts \<noteq> [] \<Longrightarrow> length (cs_faults (fold (\<lambda>t S. fst (Router_Subscribe t n S)) ts S)) \<le> length (cs_faults S) - 1"
proof (induction ts arbitrary: S)
  case (Cons u ts)
  have le: "length (cs_faults (fst (Router_Subscribe u n S))) \<le> length (cs_faults S) - 1"
    by (rule Router_Subscribe_faults(1))
  show ?case
  proof (cases "ts = []")
    case False
    from Cons.IH[OF this, of "fst (Router_Subscribe u n S)"] le show ?thesis by simp
  qed (use le in simp)
qed simp

definition all_asserted :: "string list \<Rightarrow> string \<Rightarrow> ClusterStore \<Rightarrow> bool" where
  "all_asserted local n S \<longleftrightarrow> (\<forall>t\<in>set local. routeKey t n \<in> cs_keys S)"

lemma tick_idle: "all_asserted local n S \<Longrightarrow> reconcile_tick local n S = S"
  by (simp add: reconcile_tick_def reconcileOnce_def all_asserted_def)

lemma tick_busy:
  assumes "\<not> all_asserted local n S" "CHR 0x00 \<notin> set n"
  shows "if cs_faults S = [] then all_asserted local n (reconcile_tick local n S)
     else length (cs_faults (reconcile_tick local n S)) < length (cs_faults S)"
proof -
  define ts where "ts = filter (\<lambda>t. routeKey t n \<notin> cs_keys S) local"
  have ne: "ts \<noteq> []" "local \<noteq> []" using assms(1) by (auto simp: all_asserted_def ts_def filter_empty_conv)
  have "filter (\<lambda>t. t \<notin> set (filter (\<lambda>t. routeKey t n \<in> cs_keys S) local)) local = ts"
    unfolding ts_def by (rule filter_cong) auto
  then have tick: "reconcile_tick local n S = fold (\<lambda>t S. fst (Router_Subscribe t n S)) ts S"
    using ne by (simp add: reconcile_tick_def reconcileOnce_def Let_def)
  have "routeKey t n \<in> cs_keys (reconcile_tick local n S)" if "cs_faults S = []" "t \<in> set local" for t
  proof (cases "t \<in> set ts")
    case True
    from subscribe_all_done[OF that(1) assms(2) this] show ?thesis by (simp add: store_rel_iff tick)
  next
    case False
    then have "(t, n) \<in> store_rel S" using that(2) assms(2) by (simp add: ts_def store_rel_iff)
    then have "(t, n) \<in> store_rel (reconcile_tick local n S)" using subscribe_all_rel[of S n ts] by (auto simp: tick)
    then show ?thesis by (simp add: store_rel_iff)
  qed
  moreover have "length (cs_faults (reconcile_tick local n S)) < length (cs_faults S)" if "cs_faults S \<noteq> []"
    using subscribe_all_faults[OF ne(1), of n S] that by (cases "cs_faults S") (auto simp: tick)
  ultimately show ?thesis by (simp add: all_asserted_def)
qed

lemma ticks_idle: "all_asserted local n S \<Longrightarrow> (reconcile_tick local n ^^ k) S = S"
  by (induction k) (simp_all add: tick_idle)

lemma ticks_assert:
  assumes "CHR 0x00 \<notin> set n" "length (cs_faults S) < k"
  shows "all_asserted local n ((reconcile_tick local n ^^ k) S)"
  using assms(2)
proof (induction k arbitrary: S)
  case (Suc k)
  show ?case
  proof (cases "all_asserted local n S")
    case True
    then show ?thesis using ticks_idle by metis
  next
    case False
    note b = tick_busy[OF False assms(1)]
    show ?thesis
    proof (cases "cs_faults S = []")
      case True
      with b ticks_idle[of local n "reconcile_tick local n S" k] show ?thesis by (simp add: funpow_swap1)
    next
      case False
      with b Suc show ?thesis by (simp add: funpow_swap1)
    qed
  qed
qed simp

subsection \<open>Properties\<close>

text \<open>C30. A handoff of an offline session leaves no gap: whatever calls of the store fail, and whatever the
  local cache says the old owner is, a client's filter that has a registered owner when \<open>Place\<close> starts has
  one after each of its steps; and if \<open>Place\<close> reports success the new owner is registered.\<close>

theorem ownership_place_no_gap:
  assumes "CHR 0x00 \<notin> set newOwner"
    "Place (router_registry visit order) clientID filt newOwner (r, S) = (trace, ok)"
  shows "(\<forall>s\<in>set trace. (\<exists>n. (OwnershipKey clientID filt, n) \<in> store_rel S) \<longrightarrow>
       (\<exists>m. (OwnershipKey clientID filt, m) \<in> store_rel (snd s))) \<and>
     (ok \<longrightarrow> (OwnershipKey clientID filt, newOwner) \<in> store_rel (snd (last trace)))"
  using routes.place_no_gap[where s = "(r, S)" and newOwner = newOwner and clientID = clientID and filt = filt
      and visit = visit and order = order] assms
    routes.place_done[where s = "(r, S)" and newOwner = newOwner and clientID = clientID and filt = filt
      and visit = visit and order = order and ss = trace]
  by auto

definition example_store :: ClusterStore where
  "example_store = \<lparr>cs_keys = {routeKey (OwnershipKey ''c'' ''a'') ''n1''}, cs_events = [], cs_faults = [Fault {}]\<rparr>"

theorem ownership_place_no_gap_witness:
  "\<exists>m. (OwnershipKey ''c'' ''a'', m) \<in>
     store_rel (snd (hd (fst (Place (router_registry id []) ''c'' ''a'' ''n2'' (emptyRouter, example_store)))))"
proof -
  let ?p = "Place (router_registry id []) ''c'' ''a'' ''n2'' (emptyRouter, example_store)"
  have "hd (fst ?p) \<in> set (fst ?p)"
    by (rule list.set_sel(1)) (simp add: Place_def Let_def split: prod.split bool.split option.split)
  moreover have "(OwnershipKey ''c'' ''a'', ''n1'') \<in> store_rel example_store"
    by (simp add: store_rel_iff example_store_def)
  moreover have "Place (router_registry id []) ''c'' ''a'' ''n2'' (emptyRouter, example_store) = (fst ?p, snd ?p)" by simp
  ultimately show ?thesis using ownership_place_no_gap[of "''n2''" id "[]" "''c''" "''a''" emptyRouter example_store]
    by fastforce
qed

text \<open>Where no shared filter is registered and the first level \<open>$offline\<close> is used for ownership keys
  only, the lookup of an ownership key finds exactly the nodes registered under it.\<close>

theorem ownership_lookup_exact:
  assumes "router_run r R" "visits_all visit" "offline_reserved R"
  shows "n \<in> NodesFor visit (OwnershipKey clientID filt) '''' r \<longleftrightarrow> (OwnershipKey clientID filt, n) \<in> R"
  by (rule NodesFor_ownership[OF assms])

lemma example_owner_run:
  "router_run (applyEvent [] (sub_event (OwnershipKey ''c'' ''a'') ''n1'') emptyRouter) {(OwnershipKey ''c'' ''a'', ''n1'')}"
proof -
  have "SharedFilter ''a'' = None" by code_simp
  then have "ok_topic (OwnershipKey ''c'' ''a'')" by (intro ownership_ok) simp_all
  then show ?thesis by (intro router_run_sub router_run.start) (simp_all add: ok_node_def)
qed

theorem ownership_lookup_exact_witness:
  "''n1'' \<in> NodesFor id (OwnershipKey ''c'' ''a'') '''' (applyEvent [] (sub_event (OwnershipKey ''c'' ''a'') ''n1'') emptyRouter)"
proof -
  have "visits_all id" "offline_reserved {(OwnershipKey ''c'' ''a'', ''n1'')}"
    by (auto simp: visits_all_def offline_reserved_def)
  from ownership_lookup_exact[OF example_owner_run this] show ?thesis by simp
qed

text \<open>A live shared subscription to everything captures ownership lookups: the member of \<open>$share/g/#\<close>
  is returned for every ownership key, registered under it or not, because shared filters are matched
  without the rule that keeps wildcards off topics starting with \<open>$\<close>.\<close>

theorem ownership_shared_wildcard:
  assumes "router_run r R" "visits_all visit" "CHR ''/'' \<notin> set g"
    "(''$share/'' @ g @ ''/#'', n) \<in> R" "\<forall>m. (''$share/'' @ g @ ''/#'', m) \<in> R \<longrightarrow> m = n"
  shows "n \<in> NodesFor visit (OwnershipKey clientID filt) '''' r"
proof -
  define f where "f = ''$share/'' @ g @ ''/#''"
  have f: "is_share f" "covers f (OwnershipKey clientID filt)" "(f, n) \<in> R" "\<And>m. (f, m) \<in> R \<Longrightarrow> m = n"
    unfolding f_def by (rule covers_shared_hash[OF assms(3)] assms(4) assms(5)[rule_format], assumption?)+
  note p = router_plan[OF assms(1,2), where topic = "OwnershipKey clientID filt" and local = "''''" and n = n and f = f]
  then obtain m where m: "lp_SharedNodes (LiveDeliveryPlan visit (OwnershipKey clientID filt) '''' r) f = Some m"
    using f(1-3) by (auto simp: live_group_def split: option.splits)
  with p have "(f, m) \<in> R" by simp
  then have "m = n" by (rule f(4))
  with m p show ?thesis by (auto simp: NodesFor_def)
qed

theorem ownership_shared_wildcard_witness:
  "CurrentOwner (router_registry id [''n9'', ''n1'']) ''c'' ''a''
     (applyEvent [] (sub_event ''$share/g/#'' ''n9'') (applyEvent [] (sub_event (OwnershipKey ''c'' ''a'') ''n1'') emptyRouter), example_store) =
   Some ''n9''"
proof -
  let ?r = "applyEvent [] (sub_event ''$share/g/#'' ''n9'') (applyEvent [] (sub_event (OwnershipKey ''c'' ''a'') ''n1'') emptyRouter)"
  have "ok_topic ''$share/g/#''" using shared_topic_ok[of "''g''" "''#''"] by simp
  then have run: "router_run ?r {(''$share/g/#'', ''n9''), (OwnershipKey ''c'' ''a'', ''n1'')}"
    by (intro router_run_sub[OF example_owner_run]) (simp_all add: ok_node_def)
  have "is_share ''$share/g/#''" by code_simp
  then have "''$share/g/#'' \<noteq> OwnershipKey ''c'' ''a''" using ownership_not_share by metis
  moreover have "visits_all id" by (simp add: visits_all_def)
  ultimately have "''n9'' \<in> NodesFor id (OwnershipKey ''c'' ''a'') '''' ?r"
    using ownership_shared_wildcard[OF run, of id "''g''" "''n9''" "''c''" "''a''"] by simp
  then show ?thesis by (simp add: CurrentOwner_def router_registry_def)
qed



end
