(* ===== verification/Placement.thy ===== *)
theory Placement
  imports Main "HOL-Library.Word"
begin

text \<open>
  The placement of offline sessions (\<open>internal/session/placement.go\<close>): the 64-bit FNV-1a hash of
  \<open>hash/fnv\<close>, the rendezvous score that mixes two of them, and the owner of a client among the live edge
  nodes. The mixing is shown to be injective, so that two nodes score the same for a client only if their
  names collide under FNV, and the owner is characterised as the best scorer.
\<close>

unbundle bit_operations_syntax

definition fnvHash64 :: "string \<Rightarrow> 64 word" where
  "fnvHash64 s = fold (\<lambda>c h. (h XOR word_of_nat (of_char c)) * 1099511628211) s 14695981039346656037"

definition rendezvousScore :: "string \<Rightarrow> string \<Rightarrow> 64 word" where
  "rendezvousScore clientID nodeID =
     (let x = fnvHash64 clientID XOR fnvHash64 nodeID;
          x = x XOR drop_bit 30 x;
          x = x * 0xbf58476d1ce4e5b9;
          x = x XOR drop_bit 27 x;
          x = x * 0x94d049bb133111eb
      in x XOR drop_bit 31 x)"

text \<open>The loop of \<open>Owner\<close>: the index is 0 exactly while no node has been visited.\<close>

fun owner_loop :: "string \<Rightarrow> string list \<Rightarrow> (string \<times> 64 word) option \<Rightarrow> (string \<times> 64 word) option" where
  "owner_loop clientID [] best = best"
| "owner_loop clientID (nodeID # nodes) best =
     (let score = rendezvousScore clientID nodeID in
      owner_loop clientID nodes
        (case best of
           None \<Rightarrow> Some (nodeID, score)
         | Some (b, bestScore) \<Rightarrow> if score > bestScore then Some (nodeID, score) else best))"

definition Owner :: "string \<Rightarrow> string list \<Rightarrow> string option" where
  "Owner clientID liveEdgeNodeIDs =
     (if liveEdgeNodeIDs = [] then None else map_option fst (owner_loop clientID liveEdgeNodeIDs None))"

subsection \<open>The finalizer is injective\<close>

lemma bit_xor_shift:
  fixes x :: "64 word"
  shows "bit (x XOR drop_bit k x) i \<longleftrightarrow> bit x i \<noteq> bit x (i + k)"
  by (simp add: bit_xor_iff bit_drop_bit_eq add.commute)

lemma xor_shift_inject:
  fixes x y :: "64 word"
  assumes "0 < k" "x XOR drop_bit k x = y XOR drop_bit k y"
  shows "x = y"
proof (rule bit_word_eqI)
  have step: "bit x i = bit y i" if "bit x (i + k) = bit y (i + k)" for i
    using assms(2) bit_xor_shift[of x k i] bit_xor_shift[of y k i] that by auto
  have "\<forall>i. 64 - i \<le> m \<longrightarrow> bit x i = bit y i" for m
  proof (induction m)
    case 0
    have "\<not> bit x i" "\<not> bit y i" if "64 \<le> i" for i
      using that bit_imp_le_length[of x i] bit_imp_le_length[of y i] by auto
    then show ?case by auto
  next
    case (Suc m)
    show ?case
    proof (intro allI impI)
      fix i assume "64 - i \<le> Suc m"
      then have "64 - (i + k) \<le> m" using assms(1) by simp
      with Suc have "bit x (i + k) = bit y (i + k)" by blast
      then show "bit x i = bit y i" by (rule step)
    qed
  qed
  then show "bit x i = bit y i" for i by blast
qed

lemma mult_inject:
  fixes x y c d :: "64 word"
  assumes "c * d = 1" "x * c = y * c"
  shows "x = y"
proof -
  have "x * c * d = y * c * d" using assms(2) by simp
  then show ?thesis using assms(1) by (simp add: mult.assoc)
qed

lemma rendezvousScore_inject:
  "rendezvousScore c n = rendezvousScore c m \<longleftrightarrow> fnvHash64 n = fnvHash64 m"
proof
  have i1: "(0xbf58476d1ce4e5b9 :: 64 word) * 10871156337175269513 = 1" by simp
  have i2: "(0x94d049bb133111eb :: 64 word) * 3573116690164977347 = 1" by simp
  have shift: "inj (\<lambda>x :: 64 word. x XOR drop_bit k x)" if "0 < k" for k
    using xor_shift_inject[OF that] by (rule injI)
  have mult: "inj (\<lambda>x :: 64 word. x * 0xbf58476d1ce4e5b9)" "inj (\<lambda>x :: 64 word. x * 0x94d049bb133111eb)"
    using mult_inject[OF i1] mult_inject[OF i2] by (blast intro: injI)+
  let ?mix = "(\<lambda>x :: 64 word. x XOR drop_bit 31 x) \<circ> (\<lambda>x. x * 0x94d049bb133111eb) \<circ> (\<lambda>x. x XOR drop_bit 27 x)
    \<circ> (\<lambda>x. x * 0xbf58476d1ce4e5b9) \<circ> (\<lambda>x. x XOR drop_bit 30 x)"
  have "inj ?mix" by (intro inj_compose shift mult) simp_all
  moreover have "rendezvousScore c k = ?mix (fnvHash64 c XOR fnvHash64 k)" for k
    unfolding rendezvousScore_def Let_def comp_def ..
  moreover assume "rendezvousScore c n = rendezvousScore c m"
  ultimately have "fnvHash64 c XOR fnvHash64 n = fnvHash64 c XOR fnvHash64 m" by (simp only: inj_eq)
  then have "fnvHash64 c XOR (fnvHash64 c XOR fnvHash64 n) = fnvHash64 c XOR (fnvHash64 c XOR fnvHash64 m)" by simp
  then show "fnvHash64 n = fnvHash64 m" by (simp add: xor.assoc[symmetric])
qed (simp add: rendezvousScore_def)

subsection \<open>The owner is the best scorer\<close>

lemma owner_loop_best:
  assumes "b \<in> N" "s = rendezvousScore c b" "\<forall>n\<in>N. rendezvousScore c n \<le> s"
  shows "\<exists>b' s'. owner_loop c nodes (Some (b, s)) = Some (b', s') \<and> b' \<in> N \<union> set nodes \<and>
     s' = rendezvousScore c b' \<and> (\<forall>n\<in>N \<union> set nodes. rendezvousScore c n \<le> s')"
  using assms
proof (induction nodes arbitrary: b s N)
  case Nil
  then show ?case by auto
next
  case (Cons n nodes)
  show ?case
  proof (cases "rendezvousScore c n > s")
    case True
    with Cons.prems have "\<forall>m\<in>insert n N. rendezvousScore c m \<le> rendezvousScore c n" by auto
    with Cons.IH[of n "insert n N" "rendezvousScore c n"] True show ?thesis by (simp add: Un_commute)
  next
    case False
    with Cons.prems have "\<forall>m\<in>insert n N. rendezvousScore c m \<le> s" by (auto simp: not_less)
    with Cons.IH[of b "insert n N" s] Cons.prems(1,2) False show ?thesis by (simp add: Let_def)
  qed
qed

lemma Owner_None: "Owner c [] = None"
  by (simp add: Owner_def)

lemma Owner_best:
  assumes "nodes \<noteq> []"
  obtains b where "Owner c nodes = Some b" "b \<in> set nodes" "\<And>n. n \<in> set nodes \<Longrightarrow> rendezvousScore c n \<le> rendezvousScore c b"
proof -
  from assms obtain n ns where ns: "nodes = n # ns" by (cases nodes) auto
  have "\<exists>b s. owner_loop c ns (Some (n, rendezvousScore c n)) = Some (b, s) \<and> b \<in> {n} \<union> set ns \<and>
     s = rendezvousScore c b \<and> (\<forall>m\<in>{n} \<union> set ns. rendezvousScore c m \<le> s)"
    by (rule owner_loop_best) auto
  then obtain b where "owner_loop c ns (Some (n, rendezvousScore c n)) = Some (b, rendezvousScore c b)"
    "b \<in> set nodes" "\<forall>m\<in>set nodes. rendezvousScore c m \<le> rendezvousScore c b"
    using ns by auto
  then show thesis by (intro that[of b]) (auto simp: Owner_def ns)
qed

lemma Owner_unique:
  assumes "inj_on fnvHash64 (set nodes)" "b \<in> set nodes" "\<And>n. n \<in> set nodes \<Longrightarrow> rendezvousScore c n \<le> rendezvousScore c b"
  shows "Owner c nodes = Some b"
proof -
  have "nodes \<noteq> []" using assms(2) by auto
  then obtain d where d: "Owner c nodes = Some d" "d \<in> set nodes" "rendezvousScore c b \<le> rendezvousScore c d"
    using Owner_best[of nodes c] assms(2) by metis
  then have "rendezvousScore c b = rendezvousScore c d" using assms(3) by (simp add: antisym)
  then have "b = d" using rendezvousScore_inject assms(1,2) d(2) by (auto dest: inj_onD)
  with d show ?thesis by simp
qed

text \<open>Removing nodes that do not own a session, or adding nodes that score below its owner, moves nothing.\<close>

lemma Owner_subset:
  assumes "inj_on fnvHash64 (set nodes)" "Owner c nodes = Some b" "b \<in> set nodes'" "set nodes' \<subseteq> set nodes"
  shows "Owner c nodes' = Some b"
proof (rule Owner_unique)
  show "inj_on fnvHash64 (set nodes')" using assms(1,4) by (rule inj_on_subset)
  have "nodes \<noteq> []" using assms(3,4) by auto
  then show "rendezvousScore c n \<le> rendezvousScore c b" if "n \<in> set nodes'" for n
    using Owner_best[of nodes c] assms(2,4) that by (metis option.inject subsetD)
qed (rule assms(3))

subsection \<open>Properties\<close>

text \<open>C35. Rendezvous placement is a pure function of the set of live nodes and moves as little as possible.
  Where no two node names collide under FNV, the owner does not depend on the order of the list, a session
  whose owner stays alive keeps it when other nodes leave, and when nodes join it keeps it or moves to one
  of them.\<close>

theorem owner_minimal_reassignment:
  assumes "inj_on fnvHash64 (set nodes \<union> set nodes')" "Owner c nodes = Some b"
  shows "(set nodes' = set nodes \<longrightarrow> Owner c nodes' = Some b) \<and>
    (set nodes' \<subseteq> set nodes \<and> b \<in> set nodes' \<longrightarrow> Owner c nodes' = Some b) \<and>
    (set nodes \<subseteq> set nodes' \<longrightarrow> (\<exists>d. Owner c nodes' = Some d \<and> (d = b \<or> d \<in> set nodes' - set nodes)))"
proof (intro conjI impI)
  have ne: "nodes \<noteq> []" using assms(2) by (auto simp: Owner_None)
  then have b: "b \<in> set nodes" using Owner_best[OF ne, of c] assms(2) by (metis option.inject)
  have inj: "inj_on fnvHash64 (set nodes)" "inj_on fnvHash64 (set nodes')"
    using assms(1) by (auto simp: inj_on_Un)
  show "Owner c nodes' = Some b" if "set nodes' = set nodes"
    using Owner_subset[OF inj(1) assms(2), of nodes'] that b by simp
  show "Owner c nodes' = Some b" if "set nodes' \<subseteq> set nodes \<and> b \<in> set nodes'"
    using Owner_subset[OF inj(1) assms(2), of nodes'] that by simp
  show "\<exists>d. Owner c nodes' = Some d \<and> (d = b \<or> d \<in> set nodes' - set nodes)" if sub: "set nodes \<subseteq> set nodes'"
  proof -
    have "nodes' \<noteq> []" using sub b by auto
    then obtain d where d: "Owner c nodes' = Some d" "d \<in> set nodes'" by (rule Owner_best)
    have "d = b" if "d \<in> set nodes"
      using Owner_subset[OF inj(2) d(1) that sub] assms(2) by simp
    with d show ?thesis by blast
  qed
qed

theorem owner_minimal_reassignment_witness:
  "Owner ''dev-7'' [''edge-1'', ''edge-2'', ''edge-3''] = Owner ''dev-7'' [''edge-3'', ''edge-1'', ''edge-2'']"
proof -
  have "inj_on fnvHash64 {''edge-1'', ''edge-2'', ''edge-3''}"
    by (simp add: inj_on_def fnvHash64_def)
  moreover obtain b where "Owner ''dev-7'' [''edge-1'', ''edge-2'', ''edge-3''] = Some b"
    by (rule Owner_best[of "[''edge-1'', ''edge-2'', ''edge-3'']" "''dev-7''"]) auto
  moreover have "set [''edge-3'', ''edge-1'', ''edge-2''] = set [''edge-1'', ''edge-2'', ''edge-3'']" by auto
  ultimately show ?thesis
    using owner_minimal_reassignment[of "[''edge-1'', ''edge-2'', ''edge-3'']" "[''edge-3'', ''edge-1'', ''edge-2'']" "''dev-7''" b]
    by (simp add: insert_commute)
qed

end
