(* ===== verification/Redis.thy ===== *)
theory Redis
  imports Prelude Base64 "HOL-Library.AList"
begin

text \<open>
  What the session store uses of Redis and of \<open>strconv\<close>: decimal numbers as strings, one key space of
  strings, hashes and sets, the commands, and calls made from a gateway. Before a call is served any other
  client may have changed the key space, and a call may be lost before or after it took effect; the state
  carries what the coming calls meet. A log of the changes the calls made is kept as a history variable.
\<close>

subsection \<open>Decimal numbers\<close>

definition digit_char :: "nat \<Rightarrow> char" where
  "digit_char d = ''0123456789'' ! d"

definition digit_value :: "char \<Rightarrow> nat option" where
  "digit_value c = map_of (zip ''0123456789'' [0..<10]) c"

function itoa :: "nat \<Rightarrow> string" where
  "itoa n = (if n < 10 then [digit_char n] else itoa (n div 10) @ [digit_char (n mod 10)])"
  by auto
termination by (relation "measure id") auto

declare itoa.simps [simp del]

fun digits_value :: "string \<Rightarrow> nat \<Rightarrow> nat option" where
  "digits_value [] n = Some n"
| "digits_value (c # s) n = (case digit_value c of None \<Rightarrow> None | Some d \<Rightarrow> digits_value s (10 * n + d))"

definition parse_digits :: "string \<Rightarrow> nat option" where
  "parse_digits s = (if s = '''' then None else digits_value s 0)"

text \<open>\<open>strconv.Atoi\<close>: an optional sign, at least one digit, leading zeros allowed, 64-bit range.\<close>

definition go_atoi :: "string \<Rightarrow> int option" where
  "go_atoi s =
     Option.bind
       (case s of
          c # r \<Rightarrow>
            if c = CHR ''-'' then map_option (\<lambda>n. - int n) (parse_digits r)
            else if c = CHR ''+'' then map_option int (parse_digits r)
            else map_option int (parse_digits s)
        | [] \<Rightarrow> None)
       (\<lambda>i. if - (2 ^ 63) \<le> i \<and> i < 2 ^ 63 then Some i else None)"

lemma digit_value_char: "d < 10 \<Longrightarrow> digit_value (digit_char d) = Some d"
proof -
  have "list_all (\<lambda>d. digit_value (digit_char d) = Some d) [0..<10]" by code_simp
  then show "d < 10 \<Longrightarrow> digit_value (digit_char d) = Some d" by (simp add: list_all_iff)
qed

lemma digits_value_append:
  "digits_value (s @ t) n = Option.bind (digits_value s n) (digits_value t)"
  by (induction s arbitrary: n) (auto split: option.split)

lemma digits_value_itoa: "\<exists>k. \<forall>m. digits_value (itoa n) m = Some (m * 10 ^ k + n)"
proof (induction n rule: itoa.induct)
  case (1 n)
  show ?case
  proof (cases "n < 10")
    case True
    then show ?thesis by (intro exI[of _ 1]) (simp add: itoa.simps[of n] digit_value_char)
  next
    case False
    with 1 obtain k where k: "\<forall>m. digits_value (itoa (n div 10)) m = Some (m * 10 ^ k + n div 10)" by auto
    have "digits_value (itoa n) m = Some (m * 10 ^ Suc k + n)" for m
      using False k by (simp add: itoa.simps[of n] digits_value_append digit_value_char)
    then show ?thesis by blast
  qed
qed

lemma itoa_not_empty [simp]: "itoa n \<noteq> ''''"
  by (subst itoa.simps) simp

lemma parse_itoa [simp]: "parse_digits (itoa n) = Some n"
  using digits_value_itoa[of n] by (auto simp: parse_digits_def)

lemma itoa_inject [simp]: "itoa n = itoa m \<longleftrightarrow> n = m"
  by (metis parse_itoa option.inject)

lemma itoa_digits: "c \<in> set (itoa n) \<Longrightarrow> c \<in> set ''0123456789''"
proof (induction n rule: itoa.induct)
  case (1 n)
  have d: "digit_char d \<in> set ''0123456789''" if "d < 10" for d
    unfolding digit_char_def by (rule nth_mem) (use that in simp)
  show ?case
  proof (cases "n < 10")
    case True
    then show ?thesis using 1(2) d[of n] by (simp add: itoa.simps[of n])
  next
    case False
    then show ?thesis using 1 d[of "n mod 10"] by (auto simp: itoa.simps[of n])
  qed
qed

lemma go_atoi_itoa: "n < 2 ^ 63 \<Longrightarrow> go_atoi (itoa n) = Some (int n)"
proof -
  assume n: "n < 2 ^ 63"
  obtain c r where c: "itoa n = c # r" by (cases "itoa n") auto
  then have "c \<noteq> CHR ''-''" "c \<noteq> CHR ''+''" using itoa_digits[of c n] by auto
  then have "go_atoi (itoa n) = Option.bind (map_option int (parse_digits (itoa n)))
      (\<lambda>i. if - (2 ^ 63) \<le> i \<and> i < 2 ^ 63 then Some i else None)"
    by (simp add: go_atoi_def c)
  moreover have "int n < 2 ^ 63" using n by (metis of_nat_less_iff of_nat_numeral of_nat_power)
  ultimately show ?thesis by simp
qed

definition itoa_int :: "int \<Rightarrow> string" where
  "itoa_int i = (if i < 0 then ''-'' @ itoa (nat (- i)) else itoa (nat i))"

text \<open>The strings Redis reads as integers are exactly the ones it prints.\<close>

definition redis_integer :: "string \<Rightarrow> int option" where
  "redis_integer s = Option.bind (go_atoi s) (\<lambda>i. if itoa_int i = s then Some i else None)"

subsection \<open>The key space and its commands\<close>

text \<open>Values are byte strings; the records the gateway stores as JSON appear decoded, and any other byte
  string is one no record can be decoded from.\<close>

record StoredMessage =
  sm_ID :: string
  sm_Client :: string
  sm_Type :: nat
  sm_Qos :: nat
  sm_TopicName :: string
  sm_Payload :: string
  sm_PacketID :: nat
  sm_Sent :: int
  sm_Created :: int

record StoredSubscription =
  st_Client :: string
  st_Filter :: string
  st_Qos :: nat

record StoredClient =
  sc_ID :: string
  sc_Username :: string
  sc_Clean :: bool

datatype rvalue = VStr string | VMsg StoredMessage | VSub StoredSubscription | VClient StoredClient
  | VTime int \<comment> \<open>an instant in the RFC 3339 format\<close>

text \<open>Decoding JSON into a record of another kind takes the fields the two have in common and leaves the
  others at their zero value; an empty value decodes to the zero record.\<close>

definition zero_message :: StoredMessage where
  "zero_message = \<lparr>sm_ID = '''', sm_Client = '''', sm_Type = 0, sm_Qos = 0, sm_TopicName = '''', sm_Payload = '''',
                   sm_PacketID = 0, sm_Sent = 0, sm_Created = 0\<rparr>"

definition decode_message :: "rvalue \<Rightarrow> StoredMessage option" where
  "decode_message v =
     (case v of
        VMsg m \<Rightarrow> Some m
      | VSub s \<Rightarrow> Some (zero_message\<lparr>sm_ID := st_Filter s, sm_Client := st_Client s\<rparr>)
      | VClient c \<Rightarrow> Some (zero_message\<lparr>sm_ID := sc_ID c\<rparr>)
      | VStr s \<Rightarrow> if s = '''' then Some zero_message else None
      | VTime _ \<Rightarrow> None)"

definition decode_subscription :: "rvalue \<Rightarrow> StoredSubscription option" where
  "decode_subscription v =
     (case v of
        VSub s \<Rightarrow> Some s
      | VMsg m \<Rightarrow> Some \<lparr>st_Client = sm_Client m, st_Filter = '''', st_Qos = 0\<rparr>
      | VClient c \<Rightarrow> Some \<lparr>st_Client = '''', st_Filter = '''', st_Qos = 0\<rparr>
      | VStr s \<Rightarrow> if s = '''' then Some \<lparr>st_Client = '''', st_Filter = '''', st_Qos = 0\<rparr> else None
      | VTime _ \<Rightarrow> None)"

definition decode_client :: "rvalue \<Rightarrow> StoredClient option" where
  "decode_client v =
     (case v of
        VClient c \<Rightarrow> Some c
      | VMsg m \<Rightarrow> Some \<lparr>sc_ID = sm_ID m, sc_Username = '''', sc_Clean = False\<rparr>
      | VSub s \<Rightarrow> Some \<lparr>sc_ID = st_Filter s, sc_Username = '''', sc_Clean = False\<rparr>
      | VStr s \<Rightarrow> if s = '''' then Some \<lparr>sc_ID = '''', sc_Username = '''', sc_Clean = False\<rparr> else None
      | VTime _ \<Rightarrow> None)"

datatype robj = RString rvalue | RHash "(string \<times> rvalue) list" | RSet "string list"

type_synonym keyspace = "string \<rightharpoonup> robj"

datatype rerr =
    RNet \<comment> \<open>connection, timeout or cancelled context\<close>
  | RWrongType
  | RSchemaChanged | RSchemaConflict | RBadMarker | RBadMode | RRepeated
  | RAlreadyDelivered | RQuota | RTxFailed | RContention
  | RBadValue | RInUse | RCannotActivate | RPanic

definition hash_at :: "keyspace \<Rightarrow> string \<Rightarrow> (string \<times> rvalue) list option" where
  "hash_at k key = (case k key of None \<Rightarrow> Some [] | Some (RHash h) \<Rightarrow> Some h | _ \<Rightarrow> None)"

text \<open>A hash or set that becomes empty disappears.\<close>

definition put_hash :: "string \<Rightarrow> (string \<times> rvalue) list \<Rightarrow> keyspace \<Rightarrow> keyspace" where
  "put_hash key h k = k(key := if h = [] then None else Some (RHash h))"

type_synonym 'a command = "keyspace \<Rightarrow> (rerr + 'a) \<times> keyspace"

definition cmd_GET :: "string \<Rightarrow> rvalue option command" where
  "cmd_GET key k =
     (case k key of None \<Rightarrow> (Inr None, k) | Some (RString v) \<Rightarrow> (Inr (Some v), k) | _ \<Rightarrow> (Inl RWrongType, k))"

definition cmd_SET :: "string \<Rightarrow> rvalue \<Rightarrow> unit command" where
  "cmd_SET key v k = (Inr (), k(key \<mapsto> RString v))"

definition cmd_SETNX :: "string \<Rightarrow> rvalue \<Rightarrow> bool command" where
  "cmd_SETNX key v k = (if k key = None then (Inr True, k(key \<mapsto> RString v)) else (Inr False, k))"

definition cmd_EXISTS :: "string \<Rightarrow> bool command" where
  "cmd_EXISTS key k = (Inr (k key \<noteq> None), k)"

definition cmd_DEL :: "string list \<Rightarrow> unit command" where
  "cmd_DEL keys k = (Inr (), \<lambda>key. if key \<in> set keys then None else k key)"

definition cmd_HGETALL :: "string \<Rightarrow> (string \<times> rvalue) list command" where
  "cmd_HGETALL key k = (case hash_at k key of None \<Rightarrow> (Inl RWrongType, k) | Some h \<Rightarrow> (Inr h, k))"

definition cmd_HSET :: "string \<Rightarrow> string \<Rightarrow> rvalue \<Rightarrow> unit command" where
  "cmd_HSET key field v k =
     (case hash_at k key of
        None \<Rightarrow> (Inl RWrongType, k)
      | Some h \<Rightarrow> (Inr (), put_hash key (AList.update field v h) k))"

definition cmd_HDEL :: "string \<Rightarrow> string list \<Rightarrow> unit command" where
  "cmd_HDEL key fs k =
     (case hash_at k key of
        None \<Rightarrow> (Inl RWrongType, k)
      | Some h \<Rightarrow> (Inr (), put_hash key (filter (\<lambda>(f, _). f \<notin> set fs) h) k))"

definition cmd_SADD :: "string \<Rightarrow> string \<Rightarrow> unit command" where
  "cmd_SADD key m k =
     (case k key of
        None \<Rightarrow> (Inr (), k(key \<mapsto> RSet [m]))
      | Some (RSet ms) \<Rightarrow> (Inr (), k(key \<mapsto> RSet (if m \<in> set ms then ms else ms @ [m])))
      | _ \<Rightarrow> (Inl RWrongType, k))"

definition cmd_SREM :: "string \<Rightarrow> string \<Rightarrow> unit command" where
  "cmd_SREM key m k =
     (case k key of
        None \<Rightarrow> (Inr (), k)
      | Some (RSet ms) \<Rightarrow>
          (Inr (), k(key := let ms' = filter (\<lambda>x. x \<noteq> m) ms in if ms' = [] then None else Some (RSet ms')))
      | _ \<Rightarrow> (Inl RWrongType, k))"

text \<open>\<open>INCR\<close> fails on a value that is not an integer and on the largest one.\<close>

definition cmd_INCR :: "string \<Rightarrow> int command" where
  "cmd_INCR key k =
     (case k key of
        None \<Rightarrow> (Inr 1, k(key \<mapsto> RString (VStr (itoa_int 1))))
      | Some (RString (VStr s)) \<Rightarrow>
          (case redis_integer s of
             None \<Rightarrow> (Inl RBadValue, k)
           | Some n \<Rightarrow>
               if n = 2 ^ 63 - 1 then (Inl RBadValue, k)
               else (Inr (n + 1), k(key \<mapsto> RString (VStr (itoa_int (n + 1))))))
      | Some (RString _) \<Rightarrow> (Inl RBadValue, k)
      | _ \<Rightarrow> (Inl RWrongType, k))"

text \<open>\<open>HLEN\<close>, and \<open>SSCAN\<close>, whose paging is the server's choice: a function of the members and the cursor
  to a page and the next cursor.\<close>

definition cmd_HLEN :: "string \<Rightarrow> nat command" where
  "cmd_HLEN key k = (case hash_at k key of None \<Rightarrow> (Inl RWrongType, k) | Some h \<Rightarrow> (Inr (length h), k))"

type_synonym sscan = "string list \<Rightarrow> nat \<Rightarrow> string list \<times> nat"

definition cmd_SSCAN :: "sscan \<Rightarrow> string \<Rightarrow> nat \<Rightarrow> (string list \<times> nat) command" where
  "cmd_SSCAN scn key cursor k =
     (case k key of
        None \<Rightarrow> (Inr ([], 0), k)
      | Some (RSet ms) \<Rightarrow> (Inr (scn ms cursor), k)
      | _ \<Rightarrow> (Inl RWrongType, k))"

text \<open>\<open>MULTI\<close> and \<open>EXEC\<close>: all commands run, the first error is reported.\<close>

definition cmd_then :: "unit command \<Rightarrow> unit command \<Rightarrow> unit command" where
  "cmd_then a b k =
     (case a k of (ra, k') \<Rightarrow> (case b k' of (rb, k'') \<Rightarrow> (case ra of Inl e \<Rightarrow> Inl e | Inr _ \<Rightarrow> rb, k'')))"

subsection \<open>Calls\<close>

datatype rfault = Served | Lost | ReplyLost

record redis =
  rd_ks :: keyspace
  rd_world :: "(rfault \<times> (keyspace \<Rightarrow> keyspace)) list"
  rd_touched :: "string \<Rightarrow> bool"
  rd_log :: "(keyspace \<times> keyspace) list"

text \<open>A call pops what it meets. Keys that other clients changed are recorded, which is what \<open>WATCH\<close>
  observes; the command may look at them (\<open>EXEC\<close> does).\<close>

definition redis_step :: "((string \<Rightarrow> bool) \<Rightarrow> 'a command) \<Rightarrow> 's redis_scheme \<Rightarrow> (rerr + 'a) \<times> 's redis_scheme" where
  "redis_step cmd s =
     (let (fault, others, world) = (case rd_world s of [] \<Rightarrow> (Served, id, []) | (f, e) # w \<Rightarrow> (f, e, w));
          k = others (rd_ks s);
          touched = (\<lambda>key. rd_touched s key \<or> k key \<noteq> rd_ks s key);
          (r, k') = cmd touched k;
          s' = s\<lparr>rd_world := world, rd_touched := touched\<rparr>
      in case fault of
           Served \<Rightarrow> (r, s'\<lparr>rd_ks := k', rd_log := rd_log s @ [(k, k')]\<rparr>)
         | Lost \<Rightarrow> (Inl RNet, s'\<lparr>rd_ks := k\<rparr>)
         | ReplyLost \<Rightarrow> (Inl RNet, s'\<lparr>rd_ks := k', rd_log := rd_log s @ [(k, k')]\<rparr>))"

definition redis_call :: "'a command \<Rightarrow> 's redis_scheme \<Rightarrow> (rerr + 'a) \<times> 's redis_scheme" where
  "redis_call cmd = redis_step (\<lambda>_. cmd)"

definition redis_watch :: "'s redis_scheme \<Rightarrow> (rerr + unit) \<times> 's redis_scheme" where
  "redis_watch s =
     (case redis_call (\<lambda>k. (Inr (), k)) s of
        (Inl e, s') \<Rightarrow> (Inl e, s')
      | (Inr u, s') \<Rightarrow> (Inr u, s'\<lparr>rd_touched := \<lambda>_. False\<rparr>))"

definition redis_exec :: "string list \<Rightarrow> 'a command \<Rightarrow> 's redis_scheme \<Rightarrow> (rerr + 'a) \<times> 's redis_scheme" where
  "redis_exec keys cmd = redis_step (\<lambda>touched k. if list_ex touched keys then (Inl RTxFailed, k) else cmd k)"

definition rbind :: "('s \<Rightarrow> (rerr + 'a) \<times> 's) \<Rightarrow> ('a \<Rightarrow> 's \<Rightarrow> (rerr + 'b) \<times> 's) \<Rightarrow> 's \<Rightarrow> (rerr + 'b) \<times> 's" where
  "rbind m f s = (case m s of (Inl e, s') \<Rightarrow> (Inl e, s') | (Inr a, s') \<Rightarrow> f a s')"

definition rreturn :: "'a \<Rightarrow> 's \<Rightarrow> (rerr + 'a) \<times> 's" where
  "rreturn a s = (Inr a, s)"

definition rfail :: "rerr \<Rightarrow> 's \<Rightarrow> (rerr + 'a) \<times> 's" where
  "rfail e s = (Inl e, s)"

text \<open>An error that the caller only logs.\<close>

definition rignore :: "('s \<Rightarrow> (rerr + 'a) \<times> 's) \<Rightarrow> 's \<Rightarrow> (rerr + unit) \<times> 's" where
  "rignore m s = (Inr (), snd (m s))"

named_theorems redis_wp

text \<open>The changes a computation makes: every entry it adds to the log satisfies a predicate.\<close>

definition logs_only :: "(keyspace \<times> keyspace \<Rightarrow> bool) \<Rightarrow> ('s redis_scheme \<Rightarrow> 'r \<times> 's redis_scheme) \<Rightarrow> bool" where
  "logs_only P m \<longleftrightarrow> (\<forall>s. \<exists>l. rd_log (snd (m s)) = rd_log s @ l \<and> (\<forall>e\<in>set l. P e))"

lemma logs_onlyE:
  assumes "logs_only P m" "m s = (r, s')"
  obtains l where "rd_log s' = rd_log s @ l" "\<forall>e\<in>set l. P e"
  using assms by (metis logs_only_def snd_conv)

lemma redis_step_cases:
  fixes cmd s
  defines "t k \<equiv> (\<lambda>key. rd_touched s key \<or> k key \<noteq> rd_ks s key)"
  obtains (served) k w where "redis_step cmd s = (fst (cmd (t k) k), s\<lparr>rd_world := w,
      rd_touched := t k, rd_ks := snd (cmd (t k) k), rd_log := rd_log s @ [(k, snd (cmd (t k) k))]\<rparr>)"
  | (lost) k w where "redis_step cmd s = (Inl RNet, s\<lparr>rd_world := w, rd_touched := t k, rd_ks := k\<rparr>)"
  | (reply_lost) k w where "redis_step cmd s = (Inl RNet, s\<lparr>rd_world := w,
      rd_touched := t k, rd_ks := snd (cmd (t k) k), rd_log := rd_log s @ [(k, snd (cmd (t k) k))]\<rparr>)"
proof (cases "rd_world s")
  case Nil
  show thesis
    by (rule served[of "rd_ks s" "[]"]) (simp add: redis_step_def t_def Nil split_beta Let_def)
next
  case (Cons fe w)
  obtain f e where fe: "fe = (f, e)" by (cases fe)
  show thesis
  proof (cases f)
    case Served
    show thesis by (rule served[of "e (rd_ks s)" w]) (simp add: redis_step_def t_def Cons fe Served split_beta Let_def)
  next
    case Lost
    show thesis by (rule lost[of "e (rd_ks s)" w]) (simp add: redis_step_def t_def Cons fe Lost split_beta Let_def)
  next
    case ReplyLost
    show thesis by (rule reply_lost[of "e (rd_ks s)" w]) (simp add: redis_step_def t_def Cons fe ReplyLost split_beta Let_def)
  qed
qed

lemma logs_only_step:
  assumes "\<And>t k. P (k, snd (cmd t k))"
  shows "logs_only P (redis_step cmd)"
  unfolding logs_only_def
proof
  fix s :: "'b redis_scheme"
  show "\<exists>l. rd_log (snd (redis_step cmd s)) = rd_log s @ l \<and> (\<forall>e\<in>set l. P e)"
    by (cases s rule: redis_step_cases[of cmd]) (simp_all add: assms)
qed

lemma logs_only_call [redis_wp]: "(\<And>k. P (k, snd (cmd k))) \<Longrightarrow> logs_only P (redis_call cmd)"
  unfolding redis_call_def by (rule logs_only_step)

lemma logs_only_exec [redis_wp]:
  "(\<And>k. P (k, snd (cmd k))) \<Longrightarrow> (\<And>k. P (k, k)) \<Longrightarrow> logs_only P (redis_exec keys cmd)"
  unfolding redis_exec_def by (rule logs_only_step) simp

lemma logs_only_watch [redis_wp]:
  assumes "\<And>k. P (k, k)"
  shows "logs_only P redis_watch"
  unfolding logs_only_def
proof
  fix s :: "'b redis_scheme"
  have "logs_only P (redis_call (\<lambda>k. (Inr (), k)))" by (rule logs_only_call) (simp add: assms)
  then show "\<exists>l. rd_log (snd (redis_watch s)) = rd_log s @ l \<and> (\<forall>e\<in>set l. P e)"
    by (auto simp: redis_watch_def split: prod.split sum.split elim!: logs_onlyE)
qed

lemma logs_only_bind [redis_wp]:
  assumes "logs_only P m" "\<And>a. logs_only P (f a)"
  shows "logs_only P (rbind m f)"
  unfolding logs_only_def
proof
  fix s
  obtain r s1 where 1: "m s = (r, s1)" by fastforce
  then obtain l where l: "rd_log s1 = rd_log s @ l" "\<forall>e\<in>set l. P e" by (rule logs_onlyE[OF assms(1)])
  show "\<exists>l. rd_log (snd (rbind m f s)) = rd_log s @ l \<and> (\<forall>e\<in>set l. P e)"
  proof (cases r)
    case (Inl e)
    then show ?thesis using 1 l by (simp add: rbind_def)
  next
    case (Inr a)
    obtain r2 s2 where 2: "f a s1 = (r2, s2)" by fastforce
    then obtain l2 where "rd_log s2 = rd_log s1 @ l2" "\<forall>e\<in>set l2. P e" by (rule logs_onlyE[OF assms(2)])
    then show ?thesis using 1 2 l Inr by (intro exI[of _ "l @ l2"]) (auto simp: rbind_def)
  qed
qed

lemma logs_only_return [redis_wp]: "logs_only P (rreturn a)" "logs_only P (rfail e)"
  by (simp_all add: logs_only_def rreturn_def rfail_def)

lemma logs_only_if [redis_wp]: "logs_only P a \<Longrightarrow> logs_only P b \<Longrightarrow> logs_only P (if c then a else b)"
  by simp

subsection \<open>Reads and optimistic transactions\<close>

definition reads :: "'a command \<Rightarrow> bool" where
  "reads cmd \<longleftrightarrow> (\<forall>k. snd (cmd k) = k)"

lemma reads_commands [simp]:
  "reads (cmd_GET key)" "reads (cmd_EXISTS key)" "reads (cmd_HGETALL key)" "reads (cmd_HLEN key)" "reads (cmd_SSCAN scn key c)"
  by (auto simp: reads_def cmd_GET_def cmd_EXISTS_def cmd_HGETALL_def cmd_HLEN_def cmd_SSCAN_def
      split: option.split robj.split)

text \<open>A computation that changes nothing: what it adds to the log are reads, keys that others did not touch
  keep their value, and the caller's own fields stay.\<close>

definition log_reads :: "'s redis_scheme \<Rightarrow> 's redis_scheme \<Rightarrow> bool" where
  "log_reads s s' \<longleftrightarrow> (\<exists>l. rd_log s' = rd_log s @ l \<and> (\<forall>(k, k')\<in>set l. k' = k))"

definition reading :: "'s redis_scheme \<Rightarrow> 's redis_scheme \<Rightarrow> bool" where
  "reading s s' \<longleftrightarrow>
     log_reads s s' \<and> (\<forall>key. \<not> rd_touched s' key \<longrightarrow> \<not> rd_touched s key \<and> rd_ks s' key = rd_ks s key)"

lemma log_reads_refl: "log_reads s s"
  by (simp add: log_reads_def)

lemma log_reads_trans: "log_reads s s' \<Longrightarrow> log_reads s' s'' \<Longrightarrow> log_reads s s''"
  unfolding log_reads_def by (elim exE conjE) (auto intro!: exI)

lemma reading_refl: "reading s s"
  by (simp add: reading_def log_reads_refl)

lemma reading_trans: "reading s s' \<Longrightarrow> reading s' s'' \<Longrightarrow> reading s s''"
  by (auto simp: reading_def intro: log_reads_trans)

lemma reading_log: "reading s s' \<Longrightarrow> log_reads s s'"
  by (simp add: reading_def)

lemma read_call:
  assumes "reads cmd" "redis_call cmd s = (r, s')"
  shows "reading s s'" and "redis.more s' = redis.more s"
    and "r = Inr a \<Longrightarrow> cmd (rd_ks s') = (Inr a, rd_ks s') \<and> rd_log s' = rd_log s @ [(rd_ks s', rd_ks s')]"
proof -
  have same: "snd (cmd k) = k" for k using assms(1) by (simp add: reads_def)
  have *: "reading s s' \<and> redis.more s' = redis.more s
      \<and> (r = Inr a \<longrightarrow> cmd (rd_ks s') = (Inr a, rd_ks s') \<and> rd_log s' = rd_log s @ [(rd_ks s', rd_ks s')])"
  proof (cases s rule: redis_step_cases[of "\<lambda>_. cmd"])
    case (served k w)
    moreover have "fst (cmd k) = Inr a \<Longrightarrow> cmd k = (Inr a, k)" using same[of k] by (cases "cmd k") simp
    ultimately show ?thesis using assms(2) by (auto simp: redis_call_def reading_def log_reads_def same)
  next
    case (lost k w)
    then show ?thesis using assms(2) by (auto simp: redis_call_def reading_def log_reads_def)
  next
    case (reply_lost k w)
    then show ?thesis using assms(2) by (auto simp: redis_call_def reading_def log_reads_def same)
  qed
  then show "reading s s'" "redis.more s' = redis.more s"
    "r = Inr a \<Longrightarrow> cmd (rd_ks s') = (Inr a, rd_ks s') \<and> rd_log s' = rd_log s @ [(rd_ks s', rd_ks s')]"
    by auto
qed

lemma call_error: "redis_call cmd s = (Inl e, s') \<Longrightarrow> e = RNet \<or> (\<exists>k. fst (cmd k) = Inl e)"
  by (cases s rule: redis_step_cases[of "\<lambda>_. cmd"]) (auto simp: redis_call_def)

lemma watch_call:
  assumes "redis_watch s = (r, s')"
  shows "log_reads s s'" "redis.more s' = redis.more s" "r = Inl e \<Longrightarrow> e = RNet"
    "r = Inr u \<Longrightarrow> rd_touched s' = (\<lambda>_. False)"
proof -
  obtain r1 s1 where 1: "redis_call (\<lambda>k. (Inr (), k)) s = (r1, s1)" by fastforce
  have c: "reads (\<lambda>k. (Inr (), k))" by (simp add: reads_def)
  have n: "r1 = Inl e \<Longrightarrow> e = RNet" for e
    using 1 by (cases s rule: redis_step_cases[of "\<lambda>_ k. (Inr (), k)"]) (auto simp: redis_call_def)
  have s': "s' = s1 \<or> s' = s1\<lparr>rd_touched := \<lambda>_. False\<rparr>"
    using assms 1 by (auto simp: redis_watch_def split: sum.splits)
  show "log_reads s s'" "redis.more s' = redis.more s"
    using s' read_call(1,2)[OF c 1] by (auto simp: reading_def log_reads_def)
  show "r = Inl e \<Longrightarrow> e = RNet" "r = Inr u \<Longrightarrow> rd_touched s' = (\<lambda>_. False)"
    using assms 1 n by (auto simp: redis_watch_def split: sum.splits)
qed

lemma exec_cases:
  assumes "redis_exec keys cmd s = (r, s')"
  obtains (failed) "r = Inl RNet \<or> r = Inl RTxFailed" "log_reads s s'" "redis.more s' = redis.more s"
  | (ran) k k' r0 where "\<And>key. key \<in> set keys \<Longrightarrow> \<not> rd_touched s key \<and> k key = rd_ks s key" "cmd k = (r0, k')"
      "rd_log s' = rd_log s @ [(k, k')]" "r = r0 \<or> r = Inl RNet" "redis.more s' = redis.more s"
proof -
  define cmd' where "cmd' = (\<lambda>touched k. if list_ex touched keys then (Inl RTxFailed, k) else cmd k)"
  define t where "t k = (\<lambda>key. rd_touched s key \<or> k key \<noteq> rd_ks s key)" for k
  have r: "redis_exec keys cmd s = redis_step cmd' s" by (simp add: redis_exec_def cmd'_def)
  have yes: "cmd' (t k) k = (Inl RTxFailed, k)" if "list_ex (t k) keys" for k using that by (simp add: cmd'_def)
  have no: "cmd' (t k) k = cmd k" "\<And>key. key \<in> set keys \<Longrightarrow> \<not> rd_touched s key \<and> k key = rd_ks s key"
    if "\<not> list_ex (t k) keys" for k using that by (auto simp: cmd'_def list_ex_iff t_def)
  show thesis
  proof (cases s rule: redis_step_cases[of cmd'])
    case (served k w)
    note eq = this[folded t_def]
    show thesis
    proof (cases "list_ex (t k) keys")
      case True
      then show thesis using assms eq by (intro failed) (auto simp: r yes log_reads_def)
    next
      case False
      then show thesis using assms eq
        by (intro ran[where k = k and k' = "snd (cmd k)" and ?r0.0 = "fst (cmd k)"]) (auto simp: r no)
    qed
  next
    case (lost k w)
    then show thesis using assms by (intro failed) (auto simp: r log_reads_def)
  next
    case (reply_lost k w)
    note eq = this[folded t_def]
    show thesis
    proof (cases "list_ex (t k) keys")
      case True
      then show thesis using assms eq by (intro failed) (auto simp: r yes log_reads_def)
    next
      case False
      then show thesis using assms eq
        by (intro ran[where k = k and k' = "snd (cmd k)" and ?r0.0 = "fst (cmd k)"]) (auto simp: r no)
    qed
  qed
qed

lemma rbind_Inr:
  assumes "rbind m f s = (Inr b, s')"
  obtains a s1 where "m s = (Inr a, s1)" "f a s1 = (Inr b, s')"
  using assms by (auto simp: rbind_def split: prod.splits sum.splits)

lemma rbind_cases:
  assumes "rbind m f s = (r, s')"
  obtains (stop) e where "m s = (Inl e, s')" "r = Inl e"
  | (go) a s1 where "m s = (Inr a, s1)" "f a s1 = (r, s')"
  using assms by (auto simp: rbind_def split: prod.splits sum.splits)

end
