(* ===== verification/Session.thy ===== *)
theory Session
  imports Ownership Placement Redis
begin

text \<open>
  Offline sessions (\<open>internal/session\<close>): their construction from stored rows, the delivery of a publish to
  the sessions a node owns, the reconciler that keeps every session registered at its rendezvous owner, and
  the inventory cache. The queue a delivery writes to and the registry the reconciler writes to are
  parameters, as the code has them; the reconciler is composed with the ownership and router models.
\<close>

subsection \<open>Sessions\<close>

record OfflineSubscription =
  os_Filter :: string
  os_QoS :: nat

record OfflineSession =
  os_ClientID :: string
  os_Subscriptions :: "OfflineSubscription list"
  os_LastSeenAt :: int

definition FromStorage :: "string \<Rightarrow> StoredSubscription list \<Rightarrow> OfflineSession" where
  "FromStorage clientID subs =
     \<lparr>os_ClientID = clientID,
      os_Subscriptions = map (\<lambda>s. \<lparr>os_Filter = st_Filter s, os_QoS = st_Qos s\<rparr>) (filter (\<lambda>s. st_Client s = clientID) subs),
      os_LastSeenAt = 0\<rparr>"

definition AllFromStorage :: "string list \<Rightarrow> StoredSubscription list \<Rightarrow> OfflineSession list" where
  "AllFromStorage clients subs =
     (let byClient = fold (\<lambda>s m. m(st_Client s := m (st_Client s) @ [s])) subs (\<lambda>_. [])
      in map (\<lambda>c. FromStorage c (byClient c)) clients)"

definition FilterOffline :: "OfflineSession list \<Rightarrow> (string \<rightharpoonup> string) \<Rightarrow> OfflineSession list" where
  "FilterOffline sessions liveClaimed = filter (\<lambda>s. liveClaimed (os_ClientID s) = None) sessions"

subsection \<open>Delivery\<close>

record InflightMessage =
  im_Topic :: string
  im_Payload :: string
  im_QoS :: nat

text \<open>The filter a subscription is matched with: a shared filter counts only for the client selected for it.\<close>

definition match_filter :: "string \<Rightarrow> (string \<rightharpoonup> string) \<Rightarrow> OfflineSubscription \<Rightarrow> string option" where
  "match_filter clientID sharedSelected sub =
     (case SharedFilter (os_Filter sub) of
        None \<Rightarrow> Some (os_Filter sub)
      | Some (_, sharedFilter) \<Rightarrow>
          if (case sharedSelected (os_Filter sub) of None \<Rightarrow> '''' | Some c \<Rightarrow> c) \<noteq> clientID then None
          else Some sharedFilter)"

definition bestMatchQoS :: "OfflineSession \<Rightarrow> string \<Rightarrow> nat \<Rightarrow> (string \<rightharpoonup> string) \<Rightarrow> nat \<times> bool" where
  "bestMatchQoS s topic publishQoS sharedSelected =
     fold (\<lambda>sub (qos, matched).
        case match_filter (os_ClientID s) sharedSelected sub of
          None \<Rightarrow> (qos, matched)
        | Some filt \<Rightarrow>
            if \<not> MatchTopic filt topic then (qos, matched)
            else
              let effective = (if publishQoS < os_QoS sub then publishQoS else os_QoS sub)
              in (if effective > qos then effective else qos, True)) (os_Subscriptions s) (0, False)"

definition shared_candidates :: "OfflineSession list \<Rightarrow> string \<Rightarrow> string \<Rightarrow> string list" where
  "shared_candidates owned topic filt =
     concat (map (\<lambda>s. concat (map (\<lambda>sub.
        case SharedFilter (os_Filter sub) of
          None \<Rightarrow> []
        | Some (_, f) \<Rightarrow> if \<not> MatchTopic f topic \<or> os_Filter sub \<noteq> filt then [] else [os_ClientID s])
        (os_Subscriptions s))) owned)"

definition selectSharedSessions :: "OfflineSession list \<Rightarrow> string \<Rightarrow> (string \<rightharpoonup> string)" where
  "selectSharedSessions owned topic = (\<lambda>filt.
     case sort (shared_candidates owned topic filt) of [] \<Rightarrow> None | c # _ \<Rightarrow> Some c)"

text \<open>One delivery over the state of the queue: \<open>Queue\<close> returns the new state and an error or whether it
  queued the message (with its packet identifier).\<close>

definition Deliver ::
  "(string \<Rightarrow> InflightMessage \<Rightarrow> 'q \<Rightarrow> 'q \<times> ('e + nat \<times> bool)) \<Rightarrow> (string \<rightharpoonup> string) option \<Rightarrow>
   OfflineSession list \<Rightarrow> string \<Rightarrow> string \<Rightarrow> nat \<Rightarrow> 'q \<Rightarrow> 'q \<times> nat" where
  "Deliver queue selected owned topic payload publishQoS q =
     (let sharedSelected = (case selected of None \<Rightarrow> selectSharedSessions owned topic | Some m \<Rightarrow> m)
      in fold (\<lambda>s (q, delivered).
           let (qos, matched) = bestMatchQoS s topic publishQoS sharedSelected in
           if \<not> matched \<or> qos = 0 then (q, delivered)
           else case queue (os_ClientID s) \<lparr>im_Topic = topic, im_Payload = payload, im_QoS = qos\<rparr> q of
                  (q', Inl _) \<Rightarrow> (q', delivered)
                | (q', Inr (_, queued)) \<Rightarrow> (q', if queued then delivered + 1 else delivered)) owned (q, 0))"

subsection \<open>Reconciliation of ownership\<close>

definition place_sub ::
  "'s offlineOwnerRegistry \<Rightarrow> string \<Rightarrow> string \<Rightarrow> OfflineSubscription \<Rightarrow> 's \<times> nat \<Rightarrow> 's \<times> nat" where
  "place_sub reg clientID newOwner sub st =
     (let (s, moved) = st in
      if CurrentOwner reg clientID (os_Filter sub) s = Some newOwner then (s, moved)
      else let (trace, ok) = Place reg clientID (os_Filter sub) newOwner s
           in (last trace, if ok then moved + 1 else moved))"

definition ReconcileOnce ::
  "'s offlineOwnerRegistry \<Rightarrow> string list \<Rightarrow> 'e + OfflineSession list \<Rightarrow> 's \<Rightarrow> 's \<times> nat" where
  "ReconcileOnce reg liveEdges inventory s =
     (if liveEdges = [] then (s, 0)
      else case inventory of
        Inl _ \<Rightarrow> (s, 0)
      | Inr sessions \<Rightarrow>
          fold (\<lambda>sess st.
            case Owner (os_ClientID sess) liveEdges of
              None \<Rightarrow> st
            | Some newOwner \<Rightarrow> fold (place_sub reg (os_ClientID sess) newOwner) (os_Subscriptions sess) st)
            sessions (s, 0))"

subsection \<open>The inventory cache\<close>

record InventoryCache =
  ic_sessions :: "OfflineSession list"
  ic_updatedAt :: int
  ic_ready :: bool

definition NewInventoryCache :: InventoryCache where
  "NewInventoryCache = \<lparr>ic_sessions = [], ic_updatedAt = 0, ic_ready = False\<rparr>"

text \<open>A nil cache is \<open>None\<close>.\<close>

definition InventoryCache_Set :: "OfflineSession list \<Rightarrow> int \<Rightarrow> InventoryCache option \<Rightarrow> InventoryCache option" where
  "InventoryCache_Set sessions now c =
     map_option (\<lambda>c. c\<lparr>ic_sessions := sessions, ic_updatedAt := now, ic_ready := True\<rparr>) c"

definition InventoryCache_Snapshot :: "InventoryCache option \<Rightarrow> OfflineSession list \<times> int \<times> bool" where
  "InventoryCache_Snapshot c =
     (case c of None \<Rightarrow> ([], 0, False) | Some c \<Rightarrow> (ic_sessions c, ic_updatedAt c, ic_ready c))"

subsection \<open>The effective quality of service\<close>

definition sub_matches :: "string \<Rightarrow> string \<Rightarrow> (string \<rightharpoonup> string) \<Rightarrow> OfflineSubscription \<Rightarrow> bool" where
  "sub_matches clientID topic sharedSelected sub \<longleftrightarrow>
     (\<exists>filt. match_filter clientID sharedSelected sub = Some filt \<and> MatchTopic filt topic)"

definition matched_qos :: "OfflineSession \<Rightarrow> string \<Rightarrow> nat \<Rightarrow> (string \<rightharpoonup> string) \<Rightarrow> nat set" where
  "matched_qos s topic publishQoS sharedSelected =
     (\<lambda>sub. min publishQoS (os_QoS sub)) ` {sub \<in> set (os_Subscriptions s). sub_matches (os_ClientID s) topic sharedSelected sub}"

lemma matched_qos_filter:
  "matched_qos s topic p m =
     set (map (\<lambda>sub. min p (os_QoS sub)) (filter (sub_matches (os_ClientID s) topic m) (os_Subscriptions s)))"
  by (auto simp: matched_qos_def)

lemma finite_matched_qos [simp]: "finite (matched_qos s topic p m)"
  by (simp add: matched_qos_def)

lemma bestMatchQoS_spec:
  "bestMatchQoS s topic p m = (Max (insert 0 (matched_qos s topic p m)), matched_qos s topic p m \<noteq> {})"
proof -
  let ?step = "\<lambda>sub (qos, matched).
        case match_filter (os_ClientID s) m sub of
          None \<Rightarrow> (qos, matched)
        | Some filt \<Rightarrow>
            if \<not> MatchTopic filt topic then (qos, matched)
            else let effective = (if p < os_QoS sub then p else os_QoS sub)
                 in (if effective > qos then effective else qos, True)"
  define Q where "Q subs = (\<lambda>sub. min p (os_QoS sub)) ` {sub \<in> set subs. sub_matches (os_ClientID s) topic m sub}" for subs
  have step: "?step sub (qos, b) = (if sub_matches (os_ClientID s) topic m sub then (max (min p (os_QoS sub)) qos, True) else (qos, b))"
    for sub qos b by (auto simp: sub_matches_def min_def max_def split: option.split)
  have Q: "Q (subs @ [sub]) = (if sub_matches (os_ClientID s) topic m sub then insert (min p (os_QoS sub)) (Q subs) else Q subs)"
    for subs sub by (auto simp: Q_def)
  have fin: "finite (Q subs)" for subs by (simp add: Q_def)
  have "fold ?step subs (0, False) = (Max (insert 0 (Q subs)), Q subs \<noteq> {})" for subs
  proof (induction subs rule: rev_induct)
    case (snoc sub subs)
    have "Max (insert 0 (insert a (Q subs))) = max a (Max (insert 0 (Q subs)))" for a
      using fin[of subs] Max_insert[of "insert 0 (Q subs)" a] by (simp add: insert_commute)
    then show ?case using snoc.IH step by (simp add: Q del: Max_insert)
  qed (simp add: Q_def)
  then show ?thesis unfolding bestMatchQoS_def matched_qos_def Q_def .
qed

text \<open>The writes a delivery makes: one for each session whose effective quality is at least 1.\<close>

definition delivery_calls ::
  "(string \<rightharpoonup> string) \<Rightarrow> OfflineSession list \<Rightarrow> string \<Rightarrow> string \<Rightarrow> nat \<Rightarrow> (string \<times> InflightMessage) list" where
  "delivery_calls m owned topic payload p =
     map (\<lambda>s. (os_ClientID s, \<lparr>im_Topic = topic, im_Payload = payload, im_QoS = Max (matched_qos s topic p m)\<rparr>))
       (filter (\<lambda>s. \<exists>q\<in>matched_qos s topic p m. 1 \<le> q) owned)"

lemma Max_insert_0:
  fixes A :: "nat set"
  assumes "finite A"
  shows "Max (insert 0 A) = 0 \<longleftrightarrow> \<not> (\<exists>q\<in>A. 1 \<le> q)" "\<exists>q\<in>A. 1 \<le> q \<Longrightarrow> Max (insert 0 A) = Max A"
proof -
  show "Max (insert 0 A) = 0 \<longleftrightarrow> \<not> (\<exists>q\<in>A. 1 \<le> q)"
    using Max_eq_iff[of "insert 0 A" 0] assms by auto
  assume "\<exists>q\<in>A. 1 \<le> q"
  then have "A \<noteq> {}" by auto
  then show "Max (insert 0 A) = Max A" using assms by simp
qed

lemma Deliver_calls:
  "Deliver queue selected owned topic payload p q =
     fold (\<lambda>(c, msg) (q, delivered).
        case queue c msg q of
          (q', Inl _) \<Rightarrow> (q', delivered)
        | (q', Inr (_, queued)) \<Rightarrow> (q', if queued then delivered + 1 else delivered))
       (delivery_calls (case selected of None \<Rightarrow> selectSharedSessions owned topic | Some m \<Rightarrow> m) owned topic payload p) (q, 0)"
proof -
  define m where "m = (case selected of None \<Rightarrow> selectSharedSessions owned topic | Some m \<Rightarrow> m)"
  let ?one = "\<lambda>(c, msg) (q, delivered :: nat).
        case queue c msg q of
          (q', Inl _) \<Rightarrow> (q', delivered)
        | (q', Inr (_, queued)) \<Rightarrow> (q', if queued then delivered + 1 else delivered)"
  let ?step = "\<lambda>s (q, delivered).
           let (qos, matched) = bestMatchQoS s topic p m in
           if \<not> matched \<or> qos = 0 then (q, delivered)
           else case queue (os_ClientID s) \<lparr>im_Topic = topic, im_Payload = payload, im_QoS = qos\<rparr> q of
                  (q', Inl _) \<Rightarrow> (q', delivered)
                | (q', Inr (_, queued)) \<Rightarrow> (q', if queued then delivered + 1 else delivered)"
  have "fold ?step xs st = fold ?one (delivery_calls m xs topic payload p) st" for xs st
  proof (induction xs arbitrary: st)
    case (Cons s xs)
    have "?step s st = fold ?one (delivery_calls m [s] topic payload p) st"
      using Max_insert_0[OF finite_matched_qos[of s topic p m]]
      by (cases "\<exists>q\<in>matched_qos s topic p m. 1 \<le> q") (auto simp: bestMatchQoS_spec delivery_calls_def split: prod.split)
    moreover have "delivery_calls m (s # xs) topic payload p = delivery_calls m [s] topic payload p @ delivery_calls m xs topic payload p"
      by (simp add: delivery_calls_def)
    ultimately show ?case using Cons.IH by simp
  qed (simp add: delivery_calls_def)
  then show ?thesis unfolding Deliver_def Let_def m_def .
qed

lemma selectShared_least:
  "selectSharedSessions owned topic filt = Some c \<longleftrightarrow>
     c \<in> set (shared_candidates owned topic filt) \<and> (\<forall>d\<in>set (shared_candidates owned topic filt). c \<le> d)"
proof -
  define cs where "cs = sort (shared_candidates owned topic filt)"
  have s: "sorted cs" "set cs = set (shared_candidates owned topic filt)" by (simp_all add: cs_def)
  have "(case cs of [] \<Rightarrow> None | c # _ \<Rightarrow> Some c) = Some c \<longleftrightarrow> c \<in> set cs \<and> (\<forall>d\<in>set cs. c \<le> d)"
  proof (cases cs)
    case (Cons a as)
    have "\<forall>d\<in>set cs. a \<le> d" using s(1) Cons by auto
    then show ?thesis using Cons by (auto intro: antisym)
  qed simp
  then show ?thesis unfolding selectSharedSessions_def cs_def[symmetric] s(2)[symmetric] .
qed

subsection \<open>The reconciler over a registry without failures\<close>

text \<open>The pairs a pass must keep once they are registered: a client's key with its rendezvous owner.\<close>

definition placed_pairs :: "string list \<Rightarrow> (string \<times> string) set" where
  "placed_pairs live = {(OwnershipKey c f, n) | c f n. CHR 0x00 \<notin> set c \<and> Owner c live = Some n}"

lemma placed_pairs_key:
  assumes "(OwnershipKey c f, m) \<in> placed_pairs live" "CHR 0x00 \<notin> set c" "Owner c live = Some n"
  shows "m = n"
proof -
  obtain d g where d: "OwnershipKey c f = OwnershipKey d g" "CHR 0x00 \<notin> set d" "Owner d live = Some m"
    using assms(1) by (auto simp: placed_pairs_def)
  then have "cut_first CHR 0x00 (c @ CHR 0x00 # f) = cut_first CHR 0x00 (d @ CHR 0x00 # g)"
    by (simp add: OwnershipKey_def EncodeToString_inject)
  then have "c = d" using assms(2) d(2) by (simp add: cut_first_append)
  with d assms(3) show ?thesis by simp
qed

text \<open>A registry whose calls succeed and whose lookups answer from a view that the calls of one pass do not
  change (the local cache, which events update later).\<close>

locale reliable_registry = owner_registry +
  fixes healthy :: "'a \<Rightarrow> bool"
    and view :: "'a \<Rightarrow> (string \<times> string) set"
  assumes subscribe_ok: "healthy s \<Longrightarrow> snd (reg_Subscribe reg t n s) \<and> healthy (fst (reg_Subscribe reg t n s))"
    and unsubscribe_ok: "healthy s \<Longrightarrow> healthy (fst (reg_Unsubscribe reg t n s))"
    and subscribe_view: "view (fst (reg_Subscribe reg t n s)) = view s"
    and unsubscribe_view: "view (fst (reg_Unsubscribe reg t n s)) = view s"
    and lookup_view: "n \<in> set (reg_NodesFor reg (OwnershipKey c f) '''' s) \<Longrightarrow> (OwnershipKey c f, n) \<in> view s"
begin

lemma place_healthy:
  assumes "healthy s"
  shows "snd (Place reg c f new s)" "healthy (last (fst (Place reg c f new s)))"
    "view (last (fst (Place reg c f new s))) = view s"
    "okt u \<Longrightarrow> (u, m) \<in> registered s \<Longrightarrow> u \<noteq> OwnershipKey c f \<or> m = new \<Longrightarrow> (u, m) \<in> registered (last (fst (Place reg c f new s)))"
proof -
  let ?k = "OwnershipKey c f"
  obtain s1 where 1: "reg_Subscribe reg ?k new s = (s1, True)" "healthy s1" "view s1 = view s"
    using subscribe_ok[OF assms, of ?k new] subscribe_view[of ?k new s] by (cases "reg_Subscribe reg ?k new s") auto
  obtain s2 where 2: "reg_Subscribe reg (OfflineRouteKey f) new s1 = (s2, True)" "healthy s2" "view s2 = view s"
    using subscribe_ok[OF 1(2), of "OfflineRouteKey f" new] subscribe_view[of "OfflineRouteKey f" new s1] 1(3)
    by (cases "reg_Subscribe reg (OfflineRouteKey f) new s1") auto
  have keep: "registered s \<subseteq> registered s2"
    using subscribe_keeps[of s ?k new] subscribe_keeps[of s1 "OfflineRouteKey f" new] 1(1) 2(1) by auto
  have p: "Place reg c f new s = (case CurrentOwner reg c f s of
      None \<Rightarrow> ([s1, s2], True)
    | Some n \<Rightarrow> if n \<noteq> new then ([s1, s2, fst (reg_Unsubscribe reg ?k n s2)], True) else ([s1, s2], True))"
    by (simp add: Place_def Let_def 1(1) 2(1))
  show "snd (Place reg c f new s)" "healthy (last (fst (Place reg c f new s)))"
    "view (last (fst (Place reg c f new s))) = view s"
    using unsubscribe_ok[OF 2(2)] 2(2,3) unsubscribe_view by (simp_all add: p split: option.split)
  show "(u, m) \<in> registered (last (fst (Place reg c f new s)))"
    if "okt u" "(u, m) \<in> registered s" "u \<noteq> ?k \<or> m = new"
    using unsubscribe_only[OF key_ok that(1), of m s2 c f] that keep by (auto simp: p split: option.split)
qed

lemma place_sub_step:
  fixes sub :: OfflineSubscription and k :: nat
  assumes s: "healthy s" "view s = V" and n: "okn n" "CHR 0x00 \<notin> set c" "Owner c live = Some n"
    and V: "V \<inter> placed_pairs live \<subseteq> registered s"
  defines "s' \<equiv> fst (place_sub reg c n sub (s, k))"
  shows "healthy s'" "view s' = V" "registered s \<inter> placed_pairs live \<subseteq> registered s'"
    "(OwnershipKey c (os_Filter sub), n) \<in> registered s'"
proof -
  let ?k = "OwnershipKey c (os_Filter sub)"
  have pp: "(?k, n) \<in> placed_pairs live" using n by (auto simp: placed_pairs_def)
  have okp: "okt u" if "(u, m) \<in> placed_pairs live" for u m using that key_ok by (auto simp: placed_pairs_def)
  have all: "healthy s' \<and> view s' = V \<and> registered s \<inter> placed_pairs live \<subseteq> registered s' \<and> (?k, n) \<in> registered s'"
  proof (cases "CurrentOwner reg c (os_Filter sub) s = Some n")
    case True
    then have "(?k, n) \<in> V" using lookup_view[of n c "os_Filter sub" s] s(2) by (auto simp: CurrentOwner_def split: list.splits)
    with True s V pp show ?thesis by (auto simp: s'_def place_sub_def)
  next
    case False
    let ?p = "Place reg c (os_Filter sub) n s"
    have s': "s' = last (fst ?p)" using False by (simp add: s'_def place_sub_def split: prod.split)
    note h = place_healthy[OF s(1), of c "os_Filter sub" n]
    have "(?k, n) \<in> registered s'" using place_done[OF n(1), of c "os_Filter sub" s "fst ?p"] h(1) unfolding s'
      by (cases ?p) simp
    moreover have "(u, m) \<in> registered s'" if um: "(u, m) \<in> registered s" "(u, m) \<in> placed_pairs live" for u m
    proof -
      have "u \<noteq> ?k \<or> m = n" using placed_pairs_key[of c "os_Filter sub" m live n] um(2) n by blast
      with place_healthy(4)[OF s(1) okp[OF um(2)] um(1)] show ?thesis unfolding s' by blast
    qed
    ultimately show ?thesis using h s(2) unfolding s' by auto
  qed
  then show "healthy s'" "view s' = V" "registered s \<inter> placed_pairs live \<subseteq> registered s'"
    "(OwnershipKey c (os_Filter sub), n) \<in> registered s'" by blast+
qed

lemma place_subs:
  fixes subs :: "OfflineSubscription list" and k :: nat
  assumes "healthy s" "view s = V" "okn n" "CHR 0x00 \<notin> set c" "Owner c live = Some n" "V \<inter> placed_pairs live \<subseteq> registered s"
  defines "s' \<equiv> fst (fold (place_sub reg c n) subs (s, k))"
  shows "healthy s' \<and> view s' = V \<and> registered s \<inter> placed_pairs live \<subseteq> registered s' \<and>
     (\<forall>sub\<in>set subs. (OwnershipKey c (os_Filter sub), n) \<in> registered s')"
  unfolding s'_def using assms(1,2,6)
proof (induction subs arbitrary: s k)
  case (Cons sub subs)
  obtain s1 k1 where 1: "place_sub reg c n sub (s, k) = (s1, k1)" by fastforce
  note st = place_sub_step[OF Cons.prems(1,2) assms(3-5) Cons.prems(3), of sub k, unfolded 1, simplified]
  have "V \<inter> placed_pairs live \<subseteq> registered s1" using st(3) Cons.prems(3) by blast
  note IH = Cons.IH[OF st(1,2) this, of k1]
  moreover have "(OwnershipKey c (os_Filter sub), n) \<in> placed_pairs live" using assms(4,5) by (auto simp: placed_pairs_def)
  ultimately show ?case using st(3,4) 1 by auto
qed simp

lemma reconcile_places:
  assumes "healthy s" "view s \<subseteq> registered s" "live \<noteq> []" "\<forall>n\<in>set live. okn n"
    "\<forall>sess\<in>set sessions. CHR 0x00 \<notin> set (os_ClientID sess)"
  defines "s' \<equiv> fst (ReconcileOnce reg live (Inr sessions) s)"
  shows "\<forall>sess\<in>set sessions. \<forall>sub\<in>set (os_Subscriptions sess). \<exists>n. Owner (os_ClientID sess) live = Some n \<and>
    (OwnershipKey (os_ClientID sess) (os_Filter sub), n) \<in> registered s'"
proof -
  let ?step = "\<lambda>sess st. case Owner (os_ClientID sess) live of
      None \<Rightarrow> st
    | Some n \<Rightarrow> fold (place_sub reg (os_ClientID sess) n) (os_Subscriptions sess) st"
  have "view s \<inter> placed_pairs live \<subseteq> registered s" using assms(2) by blast
  then have "healthy (fst (fold ?step ss (s, k))) \<and> view (fst (fold ?step ss (s, k))) = view s \<and>
      registered s \<inter> placed_pairs live \<subseteq> registered (fst (fold ?step ss (s, k))) \<and>
      (\<forall>sess\<in>set ss. \<forall>sub\<in>set (os_Subscriptions sess). \<exists>n. Owner (os_ClientID sess) live = Some n \<and>
        (OwnershipKey (os_ClientID sess) (os_Filter sub), n) \<in> registered (fst (fold ?step ss (s, k))))"
    if "set ss \<subseteq> set sessions" for ss k
    using that assms(1)
  proof (induction ss arbitrary: s k)
    case (Cons sess ss)
    obtain n where n: "Owner (os_ClientID sess) live = Some n" "n \<in> set live"
      using Owner_best[OF assms(3)] by blast
    then have okn: "okn n" and c: "CHR 0x00 \<notin> set (os_ClientID sess)" using assms(4,5) Cons.prems(2) by auto
    obtain s1 k1 where 1: "fold (place_sub reg (os_ClientID sess) n) (os_Subscriptions sess) (s, k) = (s1, k1)" by fastforce
    note st = place_subs[OF Cons.prems(3) refl okn c n(1) Cons.prems(1), of "os_Subscriptions sess" k, unfolded 1, simplified]
    have "view s1 \<inter> placed_pairs live \<subseteq> registered s1" using st Cons.prems(1) by auto
    moreover define F where "F = fst (fold ?step ss (s1, k1))"
    ultimately have F: "healthy F" "view F = view s" "registered s1 \<inter> placed_pairs live \<subseteq> registered F"
      "\<forall>sess\<in>set ss. \<forall>sub\<in>set (os_Subscriptions sess). \<exists>n. Owner (os_ClientID sess) live = Some n \<and>
        (OwnershipKey (os_ClientID sess) (os_Filter sub), n) \<in> registered F"
      using Cons.IH[of s1 k1] st Cons.prems(2) by simp_all
    have "(OwnershipKey (os_ClientID sess) (os_Filter sub), n) \<in> placed_pairs live" for sub
      using n c by (auto simp: placed_pairs_def)
    then have "\<forall>sub\<in>set (os_Subscriptions sess). (OwnershipKey (os_ClientID sess) (os_Filter sub), n) \<in> registered F"
      using st F(3) by blast
    moreover have "registered s \<inter> placed_pairs live \<subseteq> registered F" using st F(3) by blast
    moreover have "fst (fold ?step (sess # ss) (s, k)) = F" by (simp add: n(1) 1 F_def)
    ultimately show ?case using F(1,2,4) n(1) by simp
  qed simp
  from this[of sessions 0] show ?thesis using assms(3) by (simp add: s'_def ReconcileOnce_def)
qed

end

definition lookup_view ::
  "((string \<times> Subscription) list \<Rightarrow> (string \<times> Subscription) list) \<Rightarrow> Router \<times> ClusterStore \<Rightarrow> (string \<times> string) set" where
  "lookup_view visit s = {(OwnershipKey c f, n) | c f n. n \<in> NodesFor visit (OwnershipKey c f) '''' (fst s)}"

lemma lookup_view_iff:
  "(OwnershipKey c f, n) \<in> lookup_view visit (r, S) \<longleftrightarrow> n \<in> NodesFor visit (OwnershipKey c f) '''' r"
  by (auto simp: lookup_view_def)

lemma Router_Unsubscribe_faults:
  "cs_faults S = [] \<Longrightarrow> cs_faults (fst (Router_Unsubscribe t n S)) = []"
  by (simp add: Router_Unsubscribe_def store_delete_def Router_publish_def no_fault)

interpretation node_registry: reliable_registry "router_registry visit order" "store_rel \<circ> snd"
  "\<lambda>t. CHR 0x00 \<notin> set t" "\<lambda>n. CHR 0x00 \<notin> set n" "\<lambda>s. cs_faults (snd s) = []" "lookup_view visit" for visit order
proof unfold_locales
  show "(OwnershipKey c f, n) \<in> lookup_view visit s"
    if "n \<in> set (reg_NodesFor (router_registry visit order) (OwnershipKey c f) '''' s)" for n c f s
    using that by (cases s) (simp add: router_registry_def lookup_view_iff)
  fix t n :: string and s :: "Router \<times> ClusterStore"
  obtain r S where s: "s = (r, S)" by (cases s)
  have sub: "reg_Subscribe (router_registry visit order) t n s = ((r, fst (Router_Subscribe t n S)), snd (Router_Subscribe t n S))"
    and unsub: "fst (reg_Unsubscribe (router_registry visit order) t n s) = (r, fst (Router_Unsubscribe t n S))"
    by (simp_all add: router_registry_def s map_prod_def split_beta)
  show "lookup_view visit (fst (reg_Subscribe (router_registry visit order) t n s)) = lookup_view visit s"
    "lookup_view visit (fst (reg_Unsubscribe (router_registry visit order) t n s)) = lookup_view visit s"
    unfolding sub unsub by (simp_all add: lookup_view_def s)
  assume "cs_faults (snd s) = []"
  then show "snd (reg_Subscribe (router_registry visit order) t n s) \<and>
      cs_faults (snd (fst (reg_Subscribe (router_registry visit order) t n s))) = []"
    "cs_faults (snd (fst (reg_Unsubscribe (router_registry visit order) t n s))) = []"
    using Router_Subscribe_faults(2)[of S t n] Router_Unsubscribe_faults[of S t n] unfolding sub unsub by (simp_all add: s)
qed

subsection \<open>Properties\<close>

text \<open>C38. A publish is queued for exactly the offline sessions of the node it concerns, once each, with the
  highest quality over the matching filters, each capped by the quality of the publish; quality 0 is never
  queued and an error of the queue does not stop the remaining sessions. A shared filter counts only for the
  client selected for it, which without a cluster decision is the least matching client.\<close>

theorem offline_delivery:
  "Deliver queue selected owned topic payload publishQoS q =
     fold (\<lambda>(c, msg) (q, delivered).
        case queue c msg q of
          (q', Inl _) \<Rightarrow> (q', delivered)
        | (q', Inr (_, queued)) \<Rightarrow> (q', if queued then delivered + 1 else delivered))
       (delivery_calls (case selected of None \<Rightarrow> selectSharedSessions owned topic | Some m \<Rightarrow> m)
          owned topic payload publishQoS) (q, 0) \<and>
   (selectSharedSessions owned topic filt = Some c \<longleftrightarrow>
     c \<in> set (shared_candidates owned topic filt) \<and> (\<forall>d\<in>set (shared_candidates owned topic filt). c \<le> d))"
  by (intro conjI Deliver_calls selectShared_least)

definition example_sessions :: "OfflineSession list" where
  "example_sessions =
     [\<lparr>os_ClientID = ''c1'', os_Subscriptions = [\<lparr>os_Filter = ''a/+'', os_QoS = 1\<rparr>, \<lparr>os_Filter = ''a/b'', os_QoS = 2\<rparr>], os_LastSeenAt = 0\<rparr>,
      \<lparr>os_ClientID = ''c2'', os_Subscriptions = [\<lparr>os_Filter = ''x'', os_QoS = 2\<rparr>], os_LastSeenAt = 0\<rparr>]"

theorem offline_delivery_witness:
  "fst (Deliver (\<lambda>c msg q. (q @ [(c, im_QoS msg)], Inr (1, True) :: string + nat \<times> bool)) None
     example_sessions ''a/b'' ''p'' 2 []) = [(''c1'', 2)] \<and>
   selectSharedSessions example_sessions ''a/b'' ''$share/g/a'' = None"
proof -
  let ?q = "\<lambda>c msg q. (q @ [(c, im_QoS msg)], Inr (1, True) :: string + nat \<times> bool)"
  have f: "SharedFilter ''a/+'' = None" "SharedFilter ''a/b'' = None" "SharedFilter ''x'' = None"
    "MatchTopic ''a/+'' ''a/b''" "MatchTopic ''a/b'' ''a/b''" "\<not> MatchTopic ''x'' ''a/b''" by code_simp+
  have sel: "shared_candidates example_sessions ''a/b'' ''$share/g/a'' = []"
    by (simp add: shared_candidates_def example_sessions_def f)
  have c1: "matched_qos (example_sessions ! 0) ''a/b'' 2 m = {1, 2}" and c2: "matched_qos (example_sessions ! 1) ''a/b'' 2 m = {}" for m
    using f by (simp_all add: matched_qos_filter example_sessions_def sub_matches_def match_filter_def)
  have "map (\<lambda>(c, msg). (c, im_QoS msg)) (delivery_calls m example_sessions ''a/b'' ''p'' 2) = [(''c1'', 2)]" for m
    using c1[of m] c2[of m] by (simp add: delivery_calls_def example_sessions_def)
  from this[of "selectSharedSessions example_sessions ''a/b''"] obtain msg where calls: "delivery_calls (selectSharedSessions example_sessions ''a/b'') example_sessions ''a/b'' ''p'' 2 = [(''c1'', msg)]" "im_QoS msg = 2"
    by (cases "delivery_calls (selectSharedSessions example_sessions ''a/b'') example_sessions ''a/b'' ''p'' 2") auto
  have "Deliver ?q None example_sessions ''a/b'' ''p'' 2 [] = ([(''c1'', 2)], 1)"
    using offline_delivery[of ?q None example_sessions "''a/b''" "''p''" 2 "[]"] calls by simp
  moreover have "selectSharedSessions example_sessions ''a/b'' ''$share/g/a'' = None"
  proof (rule option.exhaust[of "selectSharedSessions example_sessions ''a/b'' ''$share/g/a''"])
    fix c assume "selectSharedSessions example_sessions ''a/b'' ''$share/g/a'' = Some c"
    then show ?thesis using offline_delivery[of ?q None example_sessions "''a/b''" "''p''" 2 "[]" "''$share/g/a''" c] sel by simp
  qed
  ultimately show ?thesis by simp
qed

text \<open>One pass of the reconciler puts every offline session where it belongs. Where the local cache
  describes the store, no shared filter is registered, the level \<open>$offline\<close> is reserved and no call fails,
  every filter of every session ends registered at the client's rendezvous owner among the live edges,
  whichever of them were registered before.\<close>

theorem session_reconcile_places:
  assumes "router_run r (store_rel S)" "visits_all visit" "offline_reserved (store_rel S)" "cs_faults S = []"
    "live \<noteq> []" "\<forall>n\<in>set live. CHR 0x00 \<notin> set n" "\<forall>s\<in>set sessions. CHR 0x00 \<notin> set (os_ClientID s)"
  shows "\<forall>s\<in>set sessions. \<forall>sub\<in>set (os_Subscriptions s). \<exists>n. Owner (os_ClientID s) live = Some n \<and>
    (OwnershipKey (os_ClientID s) (os_Filter sub), n) \<in>
      store_rel (snd (fst (ReconcileOnce (router_registry visit order) live (Inr sessions) (r, S))))"
proof -
  have "lookup_view visit (r, S) \<subseteq> (store_rel \<circ> snd) (r, S)"
    using NodesFor_ownership[OF assms(1-3)] by (auto simp: lookup_view_def)
  from node_registry.reconcile_places[of "(r, S)" visit live sessions, OF _ this assms(5-7)] assms(4)
  show ?thesis by simp
qed

theorem session_reconcile_places_witness:
  "(OwnershipKey ''c'' ''a'', ''n1'') \<in> store_rel (snd (fst (ReconcileOnce (router_registry id []) [''n1'']
     (Inr [\<lparr>os_ClientID = ''c'', os_Subscriptions = [\<lparr>os_Filter = ''a'', os_QoS = 1\<rparr>], os_LastSeenAt = 0\<rparr>])
     (emptyRouter, \<lparr>cs_keys = {}, cs_events = [], cs_faults = []\<rparr>))))"
proof -
  let ?S = "\<lparr>cs_keys = {}, cs_events = [], cs_faults = []\<rparr>"
  have e: "store_rel ?S = {}" by (simp add: store_rel_def)
  have r: "router_run emptyRouter (store_rel ?S)" unfolding e by (rule router_run.start)
  have "visits_all id" "offline_reserved (store_rel ?S)" by (simp_all add: visits_all_def offline_reserved_def e)
  moreover have "Owner ''c'' [''n1''] = Some ''n1''" by (simp add: Owner_def)
  ultimately show ?thesis
    using session_reconcile_places[OF r, of id "[''n1'']"
        "[\<lparr>os_ClientID = ''c'', os_Subscriptions = [\<lparr>os_Filter = ''a'', os_QoS = 1\<rparr>], os_LastSeenAt = 0\<rparr>]" "[]"]
    by simp
qed

end
