(* ===== verification/RedisSession.thy ===== *)
theory RedisSession
  imports Session
begin

text \<open>
  The persisted MQTT sessions (\<open>internal/broker/redis_session.go\<close> and \<open>offline_packet_id.go\<close>): keys, the
  schema marker of the inflight hashes and its fence, the write hooks of the broker, the per-client reads
  and the atomic offline enqueue with its packet identifier allocator. Every function is a computation over
  the Redis calls of \<open>Redis\<close>, so that each theorem holds for any interleaving with other gateways and any
  pattern of lost calls.
\<close>

subsection \<open>Keys\<close>

definition redisKeyPrefix :: string where "redisKeyPrefix = ''keel:gw:''"
definition redisClientIndex :: string where "redisClientIndex = redisKeyPrefix @ ''CLIENTS''"
definition redisIFMSchemaKey :: string where "redisIFMSchemaKey = redisKeyPrefix @ ''IFM:SCHEMA''"
definition redisIFMSchemaLegacy :: int where "redisIFMSchemaLegacy = 1"
definition redisIFMSchemaV2 :: int where "redisIFMSchemaV2 = 2"
definition redisScanCount :: nat where "redisScanCount = 256"
definition redisDedupKeyPrefix :: string where "redisDedupKeyPrefix = redisKeyPrefix @ ''PUBDEDUP:''"

definition redisClientToken :: "string \<Rightarrow> string" where
  "redisClientToken clientID = EncodeToString clientID"

definition redisClientKey :: "string \<Rightarrow> string" where
  "redisClientKey clientID = redisKeyPrefix @ ''CL'' @ '':'' @ redisClientToken clientID"

definition redisLastSeenKey :: "string \<Rightarrow> string" where
  "redisLastSeenKey clientID = redisKeyPrefix @ ''LASTSEEN:'' @ redisClientToken clientID"

definition redisSubKey :: "string \<Rightarrow> string" where
  "redisSubKey clientID = redisKeyPrefix @ ''SUB'' @ '':'' @ redisClientToken clientID"

definition redisInflightKey :: "string \<Rightarrow> string" where
  "redisInflightKey clientID = redisKeyPrefix @ ''IFM'' @ '':'' @ redisClientToken clientID"

definition redisPacketIDKey :: "string \<Rightarrow> string" where
  "redisPacketIDKey clientID = redisKeyPrefix @ ''PKID:'' @ redisClientToken clientID"

subsection \<open>The schema marker\<close>

record RedisSessionHook = redis +
  rh_ifmSchema :: int
  rh_configured :: int

definition validateIFMSchema :: "int \<Rightarrow> RedisSessionHook \<Rightarrow> (rerr + int) \<times> RedisSessionHook" where
  "validateIFMSchema schema h =
     (if rh_configured h \<noteq> 0 \<and> schema \<noteq> rh_configured h then (Inl RSchemaConflict, h) else (Inr schema, h))"

definition parse_marker :: "rvalue \<Rightarrow> int option" where
  "parse_marker v =
     (case v of
        VStr raw \<Rightarrow>
          (case go_atoi raw of
             None \<Rightarrow> None
           | Some schema \<Rightarrow> if schema = redisIFMSchemaLegacy \<or> schema = redisIFMSchemaV2 then Some schema else None)
      | _ \<Rightarrow> None)"

definition readIFMSchema :: "RedisSessionHook \<Rightarrow> (rerr + int) \<times> RedisSessionHook" where
  "readIFMSchema =
     rbind (redis_call (cmd_GET redisIFMSchemaKey)) (\<lambda>raw.
       case raw of
         None \<Rightarrow> validateIFMSchema redisIFMSchemaLegacy
       | Some v \<Rightarrow> (case parse_marker v of None \<Rightarrow> rfail RBadMarker | Some schema \<Rightarrow> validateIFMSchema schema))"

definition setSchemaVersion :: "int \<Rightarrow> RedisSessionHook \<Rightarrow> (rerr + unit) \<times> RedisSessionHook" where
  "setSchemaVersion schema h = (Inr (), h\<lparr>rh_ifmSchema := schema\<rparr>)"

definition schemaVersion :: "RedisSessionHook \<Rightarrow> int" where
  "schemaVersion h = (if rh_ifmSchema h = redisIFMSchemaV2 then redisIFMSchemaV2 else redisIFMSchemaLegacy)"

definition ConfigureIFMSchema :: "string \<Rightarrow> RedisSessionHook \<Rightarrow> (rerr + unit) \<times> RedisSessionHook" where
  "ConfigureIFMSchema mode h =
     (let load = rbind readIFMSchema setSchemaVersion in
      if mode = '''' \<or> mode = ''auto'' then load (h\<lparr>rh_configured := 0\<rparr>)
      else if mode = ''1'' then load (h\<lparr>rh_configured := redisIFMSchemaLegacy\<rparr>)
      else if mode = ''2'' then load (h\<lparr>rh_configured := redisIFMSchemaV2\<rparr>)
      else (Inl RBadMode, h))"

definition refreshSchemaVersion :: "RedisSessionHook \<Rightarrow> (rerr + int) \<times> RedisSessionHook" where
  "refreshSchemaVersion h =
     (if rh_configured h \<noteq> 0 then (Inr (rh_configured h), h)
      else rbind readIFMSchema (\<lambda>schema. rbind (setSchemaVersion schema) (\<lambda>_. rreturn schema)) h)"

definition ActivateDirectionalSchema :: "RedisSessionHook \<Rightarrow> (rerr + unit) \<times> RedisSessionHook" where
  "ActivateDirectionalSchema h =
     (if rh_configured h \<noteq> 0 then (Inl RCannotActivate, h)
      else rbind (redis_call (cmd_GET redisIFMSchemaKey)) (\<lambda>current.
        if current \<noteq> Some (VStr ''1'') then rfail RCannotActivate
        else rbind (redis_call (cmd_SET redisIFMSchemaKey (VStr ''2''))) (\<lambda>_. setSchemaVersion redisIFMSchemaV2)) h)"

subsection \<open>Inflight fields\<close>

record MqttPacket =
  mp_Type :: nat
  mp_PacketID :: nat
  mp_Qos :: nat
  mp_TopicName :: string
  mp_Payload :: string
  mp_Created :: int
  mp_InboundFlow :: bool

definition Publish :: nat where "Publish = 3"
definition Puback :: nat where "Puback = 4"
definition Pubrec :: nat where "Pubrec = 5"
definition Pubrel :: nat where "Pubrel = 6"
definition Pubcomp :: nat where "Pubcomp = 7"

definition ToPacket :: "StoredMessage \<Rightarrow> MqttPacket" where
  "ToPacket d =
     \<lparr>mp_Type = sm_Type d, mp_PacketID = sm_PacketID d, mp_Qos = sm_Qos d, mp_TopicName = sm_TopicName d,
      mp_Payload = sm_Payload d, mp_Created = sm_Created d, mp_InboundFlow = False\<rparr>"

definition FormatID :: "MqttPacket \<Rightarrow> string" where
  "FormatID pk = itoa (mp_PacketID pk)"

definition inflightFieldKey :: "MqttPacket \<Rightarrow> string" where
  "inflightFieldKey pk =
     (if mp_Type pk = Puback \<or> mp_Type pk = Pubrec \<or> mp_Type pk = Pubcomp then ''in:'' else ''out:'') @ FormatID pk"

definition isInboundInflightPacket :: "MqttPacket \<Rightarrow> bool" where
  "isInboundInflightPacket pk \<longleftrightarrow>
     mp_Type pk = Puback \<or> mp_Type pk = Pubrec \<or> mp_Type pk = Pubrel \<or> mp_Type pk = Pubcomp"

definition inflightCompletionFieldKey :: "MqttPacket \<Rightarrow> string" where
  "inflightCompletionFieldKey pk = (if mp_Type pk = Pubrel then ''in:'' else ''out:'') @ FormatID pk"

definition inflightDroppedFieldKey :: "MqttPacket \<Rightarrow> string" where
  "inflightDroppedFieldKey pk = (if isInboundInflightPacket pk then ''in:'' else ''out:'') @ FormatID pk"

definition inflightWriteField :: "MqttPacket \<Rightarrow> RedisSessionHook \<Rightarrow> string" where
  "inflightWriteField pk h = (if schemaVersion h = redisIFMSchemaLegacy then FormatID pk else inflightFieldKey pk)"

definition inflightDeleteFields :: "MqttPacket \<Rightarrow> RedisSessionHook \<Rightarrow> string list" where
  "inflightDeleteFields pk h =
     (if schemaVersion h = redisIFMSchemaLegacy then [FormatID pk] else [inflightCompletionFieldKey pk, FormatID pk])"

subsection \<open>Fenced writes\<close>

text \<open>A Lua script runs as one command: it compares the marker with the caller's schema and only then runs
  its write; an absent marker counts as schema 1.\<close>

definition fenced :: "int \<Rightarrow> 'a \<Rightarrow> 'a command \<Rightarrow> 'a command" where
  "fenced schema rejected cmd k =
     (case k redisIFMSchemaKey of
        None \<Rightarrow> if itoa_int schema = ''1'' then cmd k else (Inr rejected, k)
      | Some (RString v) \<Rightarrow> if v = VStr (itoa_int schema) then cmd k else (Inr rejected, k)
      | _ \<Rightarrow> (Inl RWrongType, k))"

definition cmd_ok :: "unit command \<Rightarrow> bool command" where
  "cmd_ok cmd k = (case cmd k of (Inl e, k') \<Rightarrow> (Inl e, k') | (Inr _, k') \<Rightarrow> (Inr True, k'))"

definition cmd_HSETNX :: "string \<Rightarrow> string \<Rightarrow> rvalue \<Rightarrow> bool command" where
  "cmd_HSETNX key field v k =
     (case hash_at k key of
        None \<Rightarrow> (Inl RWrongType, k)
      | Some h \<Rightarrow> if map_of h field = None then (Inr True, put_hash key (AList.update field v h) k) else (Inr False, k))"

definition schemaMismatchError :: "RedisSessionHook \<Rightarrow> rerr" where
  "schemaMismatchError h = (if rh_configured h \<noteq> 0 then RSchemaConflict else RSchemaChanged)"

definition fencedHSet :: "string \<Rightarrow> string \<Rightarrow> rvalue \<Rightarrow> int \<Rightarrow> RedisSessionHook \<Rightarrow> (rerr + unit) \<times> RedisSessionHook" where
  "fencedHSet hash field v schema =
     rbind (redis_call (fenced schema False (cmd_ok (cmd_HSET hash field v)))) (\<lambda>ok h.
       if ok then (Inr (), h) else (Inl (schemaMismatchError h), h))"

text \<open>The script of \<open>fencedHSetNX\<close> returns -1 for a rejected fence, \<open>None\<close> here.\<close>

definition fencedHSetNX :: "string \<Rightarrow> string \<Rightarrow> rvalue \<Rightarrow> int \<Rightarrow> RedisSessionHook \<Rightarrow> (rerr + bool) \<times> RedisSessionHook" where
  "fencedHSetNX hash field v schema =
     rbind (redis_call (fenced schema None (\<lambda>k. case cmd_HSETNX hash field v k of
         (Inl e, k') \<Rightarrow> (Inl e, k') | (Inr b, k') \<Rightarrow> (Inr (Some b), k')))) (\<lambda>r h.
       case r of None \<Rightarrow> (Inl (schemaMismatchError h), h) | Some inserted \<Rightarrow> (Inr inserted, h))"

fun delete_attempts :: "nat \<Rightarrow> int \<Rightarrow> string \<Rightarrow> MqttPacket \<Rightarrow> bool \<Rightarrow> RedisSessionHook \<Rightarrow> (rerr + unit) \<times> RedisSessionHook" where
  "delete_attempts 0 schema clientID pk dropped = rfail RRepeated"
| "delete_attempts (Suc n) schema clientID pk dropped =
     (let fs = (if schema = redisIFMSchemaV2
                then [if dropped then inflightDroppedFieldKey pk else inflightCompletionFieldKey pk, FormatID pk]
                else [FormatID pk])
      in rbind (redis_call (fenced schema False (cmd_ok (cmd_HDEL (redisInflightKey clientID) fs)))) (\<lambda>ok h.
           if ok then (Inr (), h)
           else if schemaMismatchError h \<noteq> RSchemaChanged then (Inl (schemaMismatchError h), h)
           else rbind refreshSchemaVersion (\<lambda>schema'. delete_attempts n schema' clientID pk dropped) h))"

definition deleteInflight :: "string \<Rightarrow> MqttPacket \<Rightarrow> bool \<Rightarrow> RedisSessionHook \<Rightarrow> (rerr + unit) \<times> RedisSessionHook" where
  "deleteInflight clientID pk dropped h = delete_attempts 2 (schemaVersion h) clientID pk dropped h"

definition stored_message :: "string \<Rightarrow> MqttPacket \<Rightarrow> int \<Rightarrow> string \<Rightarrow> rvalue" where
  "stored_message clientID pk sent field =
     VMsg \<lparr>sm_ID = field, sm_Client = clientID, sm_Type = mp_Type pk, sm_Qos = mp_Qos pk, sm_TopicName = mp_TopicName pk,
           sm_Payload = mp_Payload pk, sm_PacketID = mp_PacketID pk, sm_Sent = sent, sm_Created = mp_Created pk\<rparr>"

fun publish_attempts :: "nat \<Rightarrow> int \<Rightarrow> string \<Rightarrow> MqttPacket \<Rightarrow> int \<Rightarrow> RedisSessionHook \<Rightarrow> (rerr + unit) \<times> RedisSessionHook" where
  "publish_attempts 0 schema clientID pk sent = rfail RRepeated"
| "publish_attempts (Suc n) schema clientID pk sent =
     (let field = (if schema = redisIFMSchemaV2 then inflightFieldKey pk else FormatID pk)
      in (\<lambda>h. case fencedHSet (redisInflightKey clientID) field (stored_message clientID pk sent field) schema h of
           (Inl e, h') \<Rightarrow>
             if e = RSchemaChanged then rbind refreshSchemaVersion (\<lambda>schema'. publish_attempts n schema' clientID pk sent) h'
             else (Inl e, h')
         | (Inr _, h') \<Rightarrow> (Inr (), h')))"

definition OnQosPublishResult :: "string \<Rightarrow> MqttPacket \<Rightarrow> int \<Rightarrow> RedisSessionHook \<Rightarrow> (rerr + unit) \<times> RedisSessionHook" where
  "OnQosPublishResult clientID pk sent h =
     (if mp_InboundFlow pk \<and> mp_Type pk = Puback then (Inr (), h)
      else publish_attempts 2 (schemaVersion h) clientID pk sent h)"

definition OnQosCompleteResult :: "string \<Rightarrow> MqttPacket \<Rightarrow> RedisSessionHook \<Rightarrow> (rerr + unit) \<times> RedisSessionHook" where
  "OnQosCompleteResult clientID pk h =
     (if mp_InboundFlow pk \<and> mp_Type pk = Puback then (Inr (), h) else deleteInflight clientID pk False h)"

definition OnQosDroppedResult :: "string \<Rightarrow> MqttPacket \<Rightarrow> RedisSessionHook \<Rightarrow> (rerr + unit) \<times> RedisSessionHook" where
  "OnQosDroppedResult clientID pk h = deleteInflight clientID pk True h"

subsection \<open>Directional fields\<close>

definition is_directional :: "string \<Rightarrow> bool" where
  "is_directional field \<longleftrightarrow> has_prefix field ''in:'' \<or> has_prefix field ''out:''"

definition migrateLegacyInflightFieldScript :: "string \<Rightarrow> string \<Rightarrow> string \<Rightarrow> unit command" where
  "migrateLegacyInflightFieldScript key field target k =
     (case hash_at k key of
        None \<Rightarrow> (Inl RWrongType, k)
      | Some h \<Rightarrow>
          (case map_of h field of
             None \<Rightarrow> (Inr (), k)
           | Some v \<Rightarrow>
               let h' = (if map_of h target = None then AList.update target v h else h)
               in (Inr (), put_hash key (filter (\<lambda>(f, _). f \<noteq> field) h') k)))"

fun migrate_fields :: "string \<Rightarrow> (string \<times> rvalue) list \<Rightarrow> RedisSessionHook \<Rightarrow> (rerr + unit) \<times> RedisSessionHook" where
  "migrate_fields key [] = rreturn ()"
| "migrate_fields key ((field, raw) # rows) =
     (if is_directional field then migrate_fields key rows
      else case decode_message raw of
        None \<Rightarrow> rfail RBadValue
      | Some msg \<Rightarrow>
          rbind (redis_call (migrateLegacyInflightFieldScript key field (inflightFieldKey (ToPacket msg))))
            (\<lambda>_. migrate_fields key rows))"

text \<open>The order in which Go visits a map is the parameter \<open>arrange\<close>.\<close>

definition migrateLegacyInflightFields ::
  "((string \<times> rvalue) list \<Rightarrow> (string \<times> rvalue) list) \<Rightarrow> string \<Rightarrow> RedisSessionHook \<Rightarrow> (rerr + unit) \<times> RedisSessionHook" where
  "migrateLegacyInflightFields arrange clientID h =
     (if schemaVersion h \<noteq> redisIFMSchemaV2 then (Inr (), h)
      else rbind (redis_call (cmd_HGETALL (redisInflightKey clientID)))
             (\<lambda>rows. migrate_fields (redisInflightKey clientID) (arrange rows)) h)"

fun decode_fields :: "int \<Rightarrow> (string \<times> rvalue) list \<Rightarrow> string list \<Rightarrow> rerr + StoredMessage list" where
  "decode_fields schema rows [] = Inr []"
| "decode_fields schema rows (field # fs) =
     (case decode_message (case map_of rows field of None \<Rightarrow> VStr '''' | Some v \<Rightarrow> v) of
        None \<Rightarrow> Inl RBadValue
      | Some m \<Rightarrow>
          if schema = redisIFMSchemaV2 \<and> is_directional field \<and> field \<noteq> inflightFieldKey (ToPacket m) then Inl RBadValue
          else (case decode_fields schema rows fs of Inl e \<Rightarrow> Inl e | Inr ms \<Rightarrow> Inr (m # ms)))"

definition storedInflightForClient ::
  "((string \<times> rvalue) list \<Rightarrow> (string \<times> rvalue) list) \<Rightarrow> string \<Rightarrow> RedisSessionHook \<Rightarrow> (rerr + StoredMessage list) \<times> RedisSessionHook" where
  "storedInflightForClient arrange clientID =
     rbind refreshSchemaVersion (\<lambda>_.
     rbind (migrateLegacyInflightFields arrange clientID) (\<lambda>_.
     rbind (redis_call (cmd_HGETALL (redisInflightKey clientID))) (\<lambda>rows h.
       let fs = filter (\<lambda>f. \<not> (schemaVersion h = redisIFMSchemaLegacy \<and> is_directional f)) (map fst rows)
       in (decode_fields (schemaVersion h) rows (sort fs), h))))"

subsection \<open>Client and subscription records\<close>

definition saveClient :: "StoredClient \<Rightarrow> RedisSessionHook \<Rightarrow> RedisSessionHook" where
  "saveClient cl h =
     snd (redis_call (cmd_then (cmd_SET (redisClientKey (sc_ID cl)) (VClient cl)) (cmd_SADD redisClientIndex (sc_ID cl))) h)"

definition markOffline :: "int \<Rightarrow> string \<Rightarrow> RedisSessionHook \<Rightarrow> RedisSessionHook" where
  "markOffline now clientID h = snd (redis_call (cmd_SET (redisLastSeenKey clientID) (VTime now)) h)"

definition deleteSessionState :: "string \<Rightarrow> RedisSessionHook \<Rightarrow> RedisSessionHook" where
  "deleteSessionState clientID h =
     snd (redis_call
       (cmd_then
         (cmd_DEL [redisClientKey clientID, redisLastSeenKey clientID, redisSubKey clientID, redisInflightKey clientID,
                   redisPacketIDKey clientID])
         (cmd_SREM redisClientIndex clientID)) h)"

definition RedisSession_OnDisconnect :: "int \<Rightarrow> bool \<Rightarrow> string \<Rightarrow> bool \<Rightarrow> RedisSessionHook \<Rightarrow> RedisSessionHook" where
  "RedisSession_OnDisconnect now takenOver clientID expire h =
     (if takenOver then h
      else if \<not> expire then markOffline now clientID h
      else deleteSessionState clientID h)"

definition RedisSession_OnClientExpired :: "string \<Rightarrow> RedisSessionHook \<Rightarrow> RedisSessionHook" where
  "RedisSession_OnClientExpired clientID h = deleteSessionState clientID h"

text \<open>The two loops log a failed write and go on; a reason code too few is a panic.\<close>

fun RedisSession_OnSubscribed ::
  "string \<Rightarrow> string list \<Rightarrow> nat list \<Rightarrow> RedisSessionHook \<Rightarrow> (rerr + unit) \<times> RedisSessionHook" where
  "RedisSession_OnSubscribed clientID [] codes = rreturn ()"
| "RedisSession_OnSubscribed clientID (f # fs) [] = rfail RPanic"
| "RedisSession_OnSubscribed clientID (f # fs) (c # codes) =
     rbind (rignore (redis_call (cmd_HSET (redisSubKey clientID) f (VSub \<lparr>st_Client = clientID, st_Filter = f, st_Qos = c\<rparr>))))
       (\<lambda>_. RedisSession_OnSubscribed clientID fs codes)"

fun RedisSession_OnUnsubscribed :: "string \<Rightarrow> string list \<Rightarrow> RedisSessionHook \<Rightarrow> (rerr + unit) \<times> RedisSessionHook" where
  "RedisSession_OnUnsubscribed clientID [] = rreturn ()"
| "RedisSession_OnUnsubscribed clientID (f # fs) =
     rbind (rignore (redis_call (cmd_HDEL (redisSubKey clientID) [f]))) (\<lambda>_. RedisSession_OnUnsubscribed clientID fs)"

definition decodeSubscriptions :: "(string \<times> rvalue) list \<Rightarrow> StoredSubscription list" where
  "decodeSubscriptions rows = List.map_filter (\<lambda>(_, raw). decode_subscription raw) rows"

definition SubscriptionsForClient ::
  "((string \<times> rvalue) list \<Rightarrow> (string \<times> rvalue) list) \<Rightarrow> string \<Rightarrow> RedisSessionHook \<Rightarrow> (rerr + StoredSubscription list) \<times> RedisSessionHook" where
  "SubscriptionsForClient arrange clientID =
     rbind (redis_call (cmd_HGETALL (redisSubKey clientID))) (\<lambda>rows. rreturn (decodeSubscriptions (arrange rows)))"

subsection \<open>Inventory\<close>

text \<open>The loops over \<open>SSCAN\<close> end when the server returns cursor 0; their number of rounds is bounded by
  fuel, and running out of it is \<open>None\<close>.\<close>

fun scan_pages ::
  "nat \<Rightarrow> sscan \<Rightarrow> (string list \<Rightarrow> 'b \<Rightarrow> RedisSessionHook \<Rightarrow> (rerr + 'b) \<times> RedisSessionHook) \<Rightarrow> nat \<Rightarrow> 'b \<Rightarrow>
   RedisSessionHook \<Rightarrow> ((rerr + 'b) \<times> RedisSessionHook) option" where
  "scan_pages 0 scn page cursor out h = None"
| "scan_pages (Suc n) scn page cursor out h =
     (case redis_call (cmd_SSCAN scn redisClientIndex cursor) h of
        (Inl e, h1) \<Rightarrow> Some (Inl e, h1)
      | (Inr (ids, next), h1) \<Rightarrow>
          (case page ids out h1 of
             (Inl e, h2) \<Rightarrow> Some (Inl e, h2)
           | (Inr out', h2) \<Rightarrow> if next = 0 then Some (Inr out', h2) else scan_pages n scn page next out' h2))"

definition indexedClientIDs :: "nat \<Rightarrow> sscan \<Rightarrow> RedisSessionHook \<Rightarrow> ((rerr + string list) \<times> RedisSessionHook) option" where
  "indexedClientIDs fuel scn h = scan_pages fuel scn (\<lambda>batch out. rreturn (out @ batch)) 0 [] h"

fun stored_clients :: "string list \<Rightarrow> RedisSessionHook \<Rightarrow> (rerr + StoredClient list) \<times> RedisSessionHook" where
  "stored_clients [] = rreturn []"
| "stored_clients (clientID # ids) =
     rbind (redis_call (cmd_GET (redisClientKey clientID))) (\<lambda>raw.
       case Option.bind raw decode_client of
         None \<Rightarrow> stored_clients ids
       | Some c \<Rightarrow> rbind (stored_clients ids) (\<lambda>out. rreturn (c # out)))"

definition over_index ::
  "nat \<Rightarrow> sscan \<Rightarrow> (string list \<Rightarrow> RedisSessionHook \<Rightarrow> (rerr + 'a) \<times> RedisSessionHook) \<Rightarrow> RedisSessionHook \<Rightarrow>
   ((rerr + 'a) \<times> RedisSessionHook) option" where
  "over_index fuel scn f h =
     map_option (\<lambda>(r, h'). case r of Inl e \<Rightarrow> (Inl e, h') | Inr ids \<Rightarrow> f ids h') (indexedClientIDs fuel scn h)"

definition StoredClients :: "nat \<Rightarrow> sscan \<Rightarrow> RedisSessionHook \<Rightarrow> ((rerr + StoredClient list) \<times> RedisSessionHook) option" where
  "StoredClients fuel scn = over_index fuel scn stored_clients"

fun stored_subscriptions ::
  "((string \<times> rvalue) list \<Rightarrow> (string \<times> rvalue) list) \<Rightarrow> string list \<Rightarrow> RedisSessionHook \<Rightarrow>
   (rerr + StoredSubscription list) \<times> RedisSessionHook" where
  "stored_subscriptions arrange [] = rreturn []"
| "stored_subscriptions arrange (clientID # ids) =
     rbind (redis_call (cmd_HGETALL (redisSubKey clientID))) (\<lambda>rows.
     rbind (stored_subscriptions arrange ids) (\<lambda>out. rreturn (decodeSubscriptions (arrange rows) @ out)))"

definition StoredSubscriptions ::
  "((string \<times> rvalue) list \<Rightarrow> (string \<times> rvalue) list) \<Rightarrow> nat \<Rightarrow> sscan \<Rightarrow> RedisSessionHook \<Rightarrow>
   ((rerr + StoredSubscription list) \<times> RedisSessionHook) option" where
  "StoredSubscriptions arrange fuel scn = over_index fuel scn (stored_subscriptions arrange)"

fun stored_inflight ::
  "((string \<times> rvalue) list \<Rightarrow> (string \<times> rvalue) list) \<Rightarrow> string list \<Rightarrow> RedisSessionHook \<Rightarrow>
   (rerr + StoredMessage list) \<times> RedisSessionHook" where
  "stored_inflight arrange [] = rreturn []"
| "stored_inflight arrange (clientID # ids) =
     rbind (storedInflightForClient arrange clientID) (\<lambda>messages.
     rbind (stored_inflight arrange ids) (\<lambda>out. rreturn (messages @ out)))"

definition StoredInflightMessages ::
  "((string \<times> rvalue) list \<Rightarrow> (string \<times> rvalue) list) \<Rightarrow> nat \<Rightarrow> sscan \<Rightarrow> RedisSessionHook \<Rightarrow>
   ((rerr + StoredMessage list) \<times> RedisSessionHook) option" where
  "StoredInflightMessages arrange fuel scn = over_index fuel scn (stored_inflight arrange)"

text \<open>A pipeline runs its commands one after the other and reports the error of the first command that has
  one; a missing key is such an error, which the inventory accepts, so it hides the errors after it.\<close>

record inventory_reply =
  ir_client :: "rerr + rvalue option"
  ir_lastSeen :: "rerr + rvalue option"
  ir_subs :: "rerr + (string \<times> rvalue) list"

fun inventory_pipeline :: "string list \<Rightarrow> RedisSessionHook \<Rightarrow> inventory_reply list \<times> RedisSessionHook" where
  "inventory_pipeline [] h = ([], h)"
| "inventory_pipeline (clientID # ids) h =
     (let (c, h1) = redis_call (cmd_GET (redisClientKey clientID)) h;
          (l, h2) = redis_call (cmd_GET (redisLastSeenKey clientID)) h1;
          (s, h3) = redis_call (cmd_HGETALL (redisSubKey clientID)) h2;
          (rs, h4) = inventory_pipeline ids h3
      in (\<lparr>ir_client = c, ir_lastSeen = l, ir_subs = s\<rparr> # rs, h4))"

fun inventory_exec :: "inventory_reply list \<Rightarrow> rerr option" where
  "inventory_exec [] = None"
| "inventory_exec (r # rs) =
     (case ir_client r of
        Inl e \<Rightarrow> Some e
      | Inr None \<Rightarrow> None
      | Inr (Some _) \<Rightarrow>
          (case ir_lastSeen r of
             Inl e \<Rightarrow> Some e
           | Inr None \<Rightarrow> None
           | Inr (Some _) \<Rightarrow> (case ir_subs r of Inl e \<Rightarrow> Some e | Inr _ \<Rightarrow> inventory_exec rs)))"

definition inventory_session ::
  "((string \<times> rvalue) list \<Rightarrow> (string \<times> rvalue) list) \<Rightarrow> inventory_reply \<Rightarrow> StoredClient \<Rightarrow> OfflineSession" where
  "inventory_session arrange r client =
     (let subs = (case ir_subs r of Inl _ \<Rightarrow> [] | Inr rows \<Rightarrow> decodeSubscriptions (arrange rows));
          offline = FromStorage (sc_ID client) subs
      in case ir_lastSeen r of Inr (Some (VTime t)) \<Rightarrow> offline\<lparr>os_LastSeenAt := t\<rparr> | _ \<Rightarrow> offline)"

fun inventory_sessions ::
  "((string \<times> rvalue) list \<Rightarrow> (string \<times> rvalue) list) \<Rightarrow> inventory_reply list \<Rightarrow> rerr + OfflineSession list" where
  "inventory_sessions arrange [] = Inr []"
| "inventory_sessions arrange (r # rs) =
     (case ir_client r of
        Inl e \<Rightarrow> Inl e
      | Inr None \<Rightarrow> inventory_sessions arrange rs
      | Inr (Some raw) \<Rightarrow>
          (case decode_client raw of
             None \<Rightarrow> inventory_sessions arrange rs
           | Some client \<Rightarrow>
               (case inventory_sessions arrange rs of
                  Inl e \<Rightarrow> Inl e
                | Inr out \<Rightarrow> Inr (inventory_session arrange r client # out))))"

definition inventory_page ::
  "((string \<times> rvalue) list \<Rightarrow> (string \<times> rvalue) list) \<Rightarrow> (string \<rightharpoonup> string) \<Rightarrow> string list \<Rightarrow> OfflineSession list \<Rightarrow>
   RedisSessionHook \<Rightarrow> (rerr + OfflineSession list) \<times> RedisSessionHook" where
  "inventory_page arrange liveClaimed batch out h =
     (let ids = filter (\<lambda>c. liveClaimed c = None) batch in
      if ids = [] then (Inr out, h)
      else let (rs, h') = inventory_pipeline ids h in
        (case inventory_exec rs of
           Some e \<Rightarrow> (Inl e, h')
         | None \<Rightarrow> (case inventory_sessions arrange rs of Inl e \<Rightarrow> (Inl e, h') | Inr ss \<Rightarrow> (Inr (out @ ss), h'))))"

definition OfflineInventoryExcept ::
  "((string \<times> rvalue) list \<Rightarrow> (string \<times> rvalue) list) \<Rightarrow> nat \<Rightarrow> sscan \<Rightarrow> (string \<rightharpoonup> string) \<Rightarrow> RedisSessionHook \<Rightarrow>
   ((rerr + OfflineSession list) \<times> RedisSessionHook) option" where
  "OfflineInventoryExcept arrange fuel scn liveClaimed h =
     scan_pages fuel scn (inventory_page arrange liveClaimed) 0 [] h"

definition OfflineInventory ::
  "((string \<times> rvalue) list \<Rightarrow> (string \<times> rvalue) list) \<Rightarrow> nat \<Rightarrow> sscan \<Rightarrow> RedisSessionHook \<Rightarrow>
   ((rerr + OfflineSession list) \<times> RedisSessionHook) option" where
  "OfflineInventory arrange fuel scn = OfflineInventoryExcept arrange fuel scn (\<lambda>_. None)"

fun owned_page ::
  "((string \<times> rvalue) list \<Rightarrow> (string \<times> rvalue) list) \<Rightarrow> string list \<Rightarrow> RedisSessionHook \<Rightarrow>
   (rerr + OfflineSession list) \<times> RedisSessionHook" where
  "owned_page arrange [] = rreturn []"
| "owned_page arrange (clientID # ids) =
     rbind (redis_call (cmd_HGETALL (redisSubKey clientID))) (\<lambda>rows.
     rbind (owned_page arrange ids) (\<lambda>out.
       rreturn (FromStorage clientID (decodeSubscriptions (arrange rows)) # out)))"

function OwnedOfflineSessions ::
  "((string \<times> rvalue) list \<Rightarrow> (string \<times> rvalue) list) \<Rightarrow> string list \<Rightarrow> RedisSessionHook \<Rightarrow>
   (rerr + OfflineSession list) \<times> RedisSessionHook" where
  "OwnedOfflineSessions arrange ids =
     (if ids = [] then rreturn []
      else rbind (owned_page arrange (take redisScanCount ids)) (\<lambda>page.
           rbind (OwnedOfflineSessions arrange (drop redisScanCount ids)) (\<lambda>out. rreturn (page @ out))))"
  by auto
termination by (relation "measure (\<lambda>(_, ids). length ids)") (auto simp: redisScanCount_def)

declare OwnedOfflineSessions.simps [simp del]

fun inflight_lengths ::
  "((string \<times> rvalue) list \<Rightarrow> (string \<times> rvalue) list) \<Rightarrow> string list \<Rightarrow> RedisSessionHook \<Rightarrow> (rerr + unit) \<times> RedisSessionHook" where
  "inflight_lengths arrange [] = rreturn ()"
| "inflight_lengths arrange (clientID # ids) =
     rbind (migrateLegacyInflightFields arrange clientID) (\<lambda>_. inflight_lengths arrange ids)"

fun hlen_pipeline :: "string list \<Rightarrow> RedisSessionHook \<Rightarrow> (rerr + nat) \<times> RedisSessionHook" where
  "hlen_pipeline [] = rreturn 0"
| "hlen_pipeline (clientID # ids) =
     rbind (redis_call (cmd_HLEN (redisInflightKey clientID))) (\<lambda>n. rbind (hlen_pipeline ids) (\<lambda>m. rreturn (n + m)))"

definition InflightCount ::
  "((string \<times> rvalue) list \<Rightarrow> (string \<times> rvalue) list) \<Rightarrow> nat \<Rightarrow> sscan \<Rightarrow> RedisSessionHook \<Rightarrow> ((rerr + nat) \<times> RedisSessionHook) option" where
  "InflightCount arrange fuel scn h =
     scan_pages fuel scn (\<lambda>ids total. rbind (inflight_lengths arrange ids) (\<lambda>_. rbind (hlen_pipeline ids) (\<lambda>n. rreturn (total + n)))) 0 0 h"

subsection \<open>Offline queue\<close>

text \<open>A publish identifier is its canonical text.\<close>

definition uuid_Nil :: string where "uuid_Nil = ''00000000-0000-0000-0000-000000000000''"

definition dedup_key :: "string \<Rightarrow> string \<Rightarrow> string" where
  "dedup_key publishID clientID = redisDedupKeyPrefix @ publishID @ '':'' @ redisClientToken clientID"

definition MarkDelivered :: "string \<Rightarrow> string \<Rightarrow> RedisSessionHook \<Rightarrow> (rerr + bool) \<times> RedisSessionHook" where
  "MarkDelivered publishID clientID h =
     (if publishID = uuid_Nil then (Inr True, h)
      else redis_call (cmd_SETNX (dedup_key publishID clientID) (VStr ''1'')) h)"

text \<open>Go's remainder truncates; the conversion to \<open>uint16\<close> and the addition wrap.\<close>

definition go_rem :: "int \<Rightarrow> int \<Rightarrow> int" where
  "go_rem a b = sgn a * (\<bar>a\<bar> mod \<bar>b\<bar>)"

definition packet_id_of :: "int \<Rightarrow> nat" where
  "packet_id_of n = nat ((go_rem (n - 1) 65535 mod 65536 + 1) mod 65536)"

definition NextPacketID :: "string \<Rightarrow> RedisSessionHook \<Rightarrow> (rerr + nat) \<times> RedisSessionHook" where
  "NextPacketID clientID =
     rbind (redis_call (cmd_INCR (redisPacketIDKey clientID))) (\<lambda>n. rreturn (packet_id_of n))"

definition marshalOfflineInflight :: "int \<Rightarrow> string \<Rightarrow> nat \<Rightarrow> InflightMessage \<Rightarrow> rvalue" where
  "marshalOfflineInflight now clientID packetID msg =
     VMsg \<lparr>sm_ID = clientID @ '':'' @ itoa packetID, sm_Client = clientID, sm_Type = Publish, sm_Qos = im_QoS msg,
           sm_TopicName = im_Topic msg, sm_Payload = im_Payload msg, sm_PacketID = packetID, sm_Sent = 0, sm_Created = now\<rparr>"

definition offline_field :: "int \<Rightarrow> nat \<Rightarrow> string" where
  "offline_field schema packetID = (if schema = redisIFMSchemaLegacy then itoa packetID else ''out:'' @ itoa packetID)"

fun enqueue_attempts ::
  "nat \<Rightarrow> int \<Rightarrow> string \<Rightarrow> nat \<Rightarrow> rvalue \<Rightarrow> RedisSessionHook \<Rightarrow> (rerr + unit) \<times> RedisSessionHook" where
  "enqueue_attempts 0 schema clientID packetID data = rfail RRepeated"
| "enqueue_attempts (Suc n) schema clientID packetID data =
     (\<lambda>h. case fencedHSetNX (redisInflightKey clientID) (offline_field schema packetID) data schema h of
        (Inl e, h') \<Rightarrow>
          if e = RSchemaChanged
          then rbind refreshSchemaVersion (\<lambda>schema'. enqueue_attempts n schema' clientID packetID data) h'
          else (Inl e, h')
      | (Inr inserted, h') \<Rightarrow> if \<not> inserted then (Inl RInUse, h') else (Inr (), h'))"

definition EnqueueOfflineInflight ::
  "int \<Rightarrow> string \<Rightarrow> nat \<Rightarrow> InflightMessage \<Rightarrow> RedisSessionHook \<Rightarrow> (rerr + unit) \<times> RedisSessionHook" where
  "EnqueueOfflineInflight now clientID packetID msg =
     rbind refreshSchemaVersion (\<lambda>schema.
       enqueue_attempts 2 schema clientID packetID (marshalOfflineInflight now clientID packetID msg))"

text \<open>The search for a free packet identifier, which the server runs as a script: Lua's remainder is the
  one of \<^typ>\<open>int\<close>, and its numbers are exact in the range of the counters.\<close>

definition offline_id_free :: "(string \<times> rvalue) list \<Rightarrow> string \<Rightarrow> int \<Rightarrow> bool" where
  "offline_id_free h pre i \<longleftrightarrow>
     (let idn = itoa_int (i mod 65535 + 1)
      in map_of h (pre @ idn) = None \<and> (pre = '''' \<or> map_of h idn = None))"

function offline_search :: "(string \<times> rvalue) list \<Rightarrow> string \<Rightarrow> int \<Rightarrow> nat \<Rightarrow> int" where
  "offline_search h pre counter offset =
     (if offset > 65534 then 0
      else if offline_id_free h pre (counter + int offset) then counter + int offset + 1
      else offline_search h pre counter (Suc offset))"
  by auto
termination by (relation "measure (\<lambda>(_, _, _, offset). 65535 - offset)") auto

declare offline_search.simps [simp del]

definition nextOfflinePacketCounterScript :: "string \<Rightarrow> int \<Rightarrow> string \<Rightarrow> int command" where
  "nextOfflinePacketCounterScript key counter pre k =
     (case hash_at k key of
        None \<Rightarrow> (Inl RWrongType, k)
      | Some h \<Rightarrow>
          if pre = '''' \<and> length h \<ge> 65535 then (Inr 0, k)
          else (Inr (offline_search h pre counter 0), k))"

definition nextOfflinePacketCounter :: "string \<Rightarrow> int \<Rightarrow> string \<Rightarrow> RedisSessionHook \<Rightarrow> (rerr + int) \<times> RedisSessionHook" where
  "nextOfflinePacketCounter key counter pre = redis_call (nextOfflinePacketCounterScript key counter pre)"

definition watch_marker :: "RedisSessionHook \<Rightarrow> (rerr + int) \<times> RedisSessionHook" where
  "watch_marker =
     rbind (redis_call (cmd_GET redisIFMSchemaKey)) (\<lambda>marker.
     rbind (case marker of
              None \<Rightarrow> validateIFMSchema redisIFMSchemaLegacy
            | Some v \<Rightarrow> (case parse_marker v of None \<Rightarrow> rfail RBadMarker | Some schema \<Rightarrow> validateIFMSchema schema))
       (\<lambda>schema. rbind (setSchemaVersion schema) (\<lambda>_. rreturn schema)))"

definition watch_dedup :: "string \<Rightarrow> RedisSessionHook \<Rightarrow> (rerr + unit) \<times> RedisSessionHook" where
  "watch_dedup dedupKey =
     (if dedupKey = '''' then rreturn ()
      else rbind (redis_call (cmd_EXISTS dedupKey)) (\<lambda>exists. if exists then rfail RAlreadyDelivered else rreturn ()))"

definition watch_counter :: "string \<Rightarrow> RedisSessionHook \<Rightarrow> (rerr + int) \<times> RedisSessionHook" where
  "watch_counter counterKey =
     rbind (redis_call (cmd_GET counterKey)) (\<lambda>v.
       case v of
         None \<Rightarrow> rreturn 0
       | Some (VStr s) \<Rightarrow> (case go_atoi s of None \<Rightarrow> rfail RBadValue | Some n \<Rightarrow> rreturn n)
       | Some _ \<Rightarrow> rfail RBadValue)"

definition queue_commands :: "string \<Rightarrow> string \<Rightarrow> string \<Rightarrow> string \<Rightarrow> int \<Rightarrow> rvalue \<Rightarrow> unit command" where
  "queue_commands inflightKey counterKey dedupKey field nextCounter data =
     (let write = cmd_then (cmd_SET counterKey (VStr (itoa_int nextCounter))) (cmd_HSET inflightKey field data)
      in if dedupKey = '''' then write else cmd_then write (cmd_SET dedupKey (VStr ''1'')))"

definition queue_reads :: "string \<Rightarrow> string \<Rightarrow> RedisSessionHook \<Rightarrow> (rerr + int \<times> int) \<times> RedisSessionHook" where
  "queue_reads dedupKey clientID =
     rbind watch_marker (\<lambda>schema.
     rbind (watch_dedup dedupKey) (\<lambda>_.
     rbind (watch_counter (redisPacketIDKey clientID)) (\<lambda>counter.
     rbind (nextOfflinePacketCounter (redisInflightKey clientID) counter (if schema = redisIFMSchemaLegacy then '''' else ''out:''))
       (\<lambda>nextCounter. if nextCounter = 0 then rfail RQuota else rreturn (schema, nextCounter)))))"

definition queue_transaction ::
  "int \<Rightarrow> string \<Rightarrow> string \<Rightarrow> InflightMessage \<Rightarrow> RedisSessionHook \<Rightarrow> (rerr + nat) \<times> RedisSessionHook" where
  "queue_transaction now dedupKey clientID msg =
     (let inflightKey = redisInflightKey clientID;
          counterKey = redisPacketIDKey clientID;
          watchKeys = [inflightKey, counterKey, redisIFMSchemaKey] @ (if dedupKey = '''' then [] else [dedupKey])
      in rbind redis_watch (\<lambda>_.
         rbind (queue_reads dedupKey clientID) (\<lambda>(schema, nextCounter).
           let packetID = packet_id_of nextCounter in
           rbind (redis_exec watchKeys
               (queue_commands inflightKey counterKey dedupKey (offline_field schema packetID) nextCounter
                  (marshalOfflineInflight now clientID packetID msg)))
             (\<lambda>_. rreturn packetID))))"

text \<open>\<open>finished n\<close> tells whether the caller's context ends while the call waits for the n-th time: first for
  the lock of the client, then between attempts.\<close>

fun queue_attempts ::
  "nat \<Rightarrow> nat \<Rightarrow> (nat \<Rightarrow> bool) \<Rightarrow> (nat \<Rightarrow> int) \<Rightarrow> string \<Rightarrow> string \<Rightarrow> InflightMessage \<Rightarrow> RedisSessionHook \<Rightarrow>
   (rerr + nat \<times> bool) \<times> RedisSessionHook" where
  "queue_attempts 0 attempt finished now dedupKey clientID msg h = (Inl RContention, h)"
| "queue_attempts (Suc n) attempt finished now dedupKey clientID msg h =
     (case queue_transaction (now attempt) dedupKey clientID msg h of
        (Inr packetID, h') \<Rightarrow> (Inr (packetID, True), h')
      | (Inl e, h') \<Rightarrow>
          if e = RAlreadyDelivered then (Inr (0, False), h')
          else if e = RTxFailed then
            (if n > 0 \<and> finished (Suc attempt) then (Inl RNet, h')
             else queue_attempts n (Suc attempt) finished now dedupKey clientID msg h')
          else (Inl e, h'))"

definition QueueOfflineInflight ::
  "(nat \<Rightarrow> bool) \<Rightarrow> (nat \<Rightarrow> int) \<Rightarrow> string \<Rightarrow> string \<Rightarrow> InflightMessage \<Rightarrow> RedisSessionHook \<Rightarrow>
   (rerr + nat \<times> bool) \<times> RedisSessionHook" where
  "QueueOfflineInflight finished now publishID clientID msg h =
     (if finished 0 then (Inl RNet, h)
      else queue_attempts 32 0 finished now (if publishID \<noteq> uuid_Nil then dedup_key publishID clientID else '''') clientID msg h)"

end
