(* ===== verification/RedisQueue.thy ===== *)
theory RedisQueue
  imports RedisSession
begin

text \<open>
  The offline enqueue of the session store: the optimistic transaction is one atomic step whatever the other
  gateways do, and its packet identifier allocator finds a free identifier whenever there is one.
\<close>

subsection \<open>The offline enqueue is one atomic step\<close>

text \<open>What the transaction does when it runs alone on one key space.\<close>

definition marker_schema :: "keyspace \<Rightarrow> int option" where
  "marker_schema k =
     (case k redisIFMSchemaKey of
        None \<Rightarrow> Some redisIFMSchemaLegacy
      | Some (RString v) \<Rightarrow> parse_marker v
      | _ \<Rightarrow> None)"

definition counter_at :: "keyspace \<Rightarrow> string \<Rightarrow> int option" where
  "counter_at k key =
     (case k key of None \<Rightarrow> Some 0 | Some (RString (VStr s)) \<Rightarrow> go_atoi s | _ \<Rightarrow> None)"

definition next_offline_counter :: "int \<Rightarrow> (string \<times> rvalue) list \<Rightarrow> int \<Rightarrow> int" where
  "next_offline_counter schema hs counter =
     (if schema = redisIFMSchemaLegacy \<and> length hs \<ge> 65535 then 0
      else offline_search hs (if schema = redisIFMSchemaLegacy then '''' else ''out:'') counter 0)"

definition queue_atomic :: "int \<Rightarrow> int \<Rightarrow> string \<Rightarrow> string \<Rightarrow> InflightMessage \<Rightarrow> nat command" where
  "queue_atomic configured now dedupKey clientID msg k =
     (case (marker_schema k, counter_at k (redisPacketIDKey clientID), hash_at k (redisInflightKey clientID)) of
        (Some schema, Some counter, Some hs) \<Rightarrow>
          let n = next_offline_counter schema hs counter; packetID = packet_id_of n in
          if configured \<noteq> 0 \<and> schema \<noteq> configured then (Inl RSchemaConflict, k)
          else if dedupKey \<noteq> '''' \<and> k dedupKey \<noteq> None then (Inl RAlreadyDelivered, k)
          else if n = 0 then (Inl RQuota, k)
          else
            (Inr packetID,
             (\<lambda>k. if dedupKey = '''' then k else k(dedupKey \<mapsto> RString (VStr ''1'')))
               (k(redisPacketIDKey clientID \<mapsto> RString (VStr (itoa_int n)),
                  redisInflightKey clientID \<mapsto>
                    RHash (AList.update (offline_field schema packetID)
                             (marshalOfflineInflight now clientID packetID msg) hs))))
      | _ \<Rightarrow> (Inl RBadValue, k))"

text \<open>Steps that only read.\<close>

definition quiet :: "(RedisSessionHook \<Rightarrow> (rerr + 'a) \<times> RedisSessionHook) \<Rightarrow> bool" where
  "quiet m \<longleftrightarrow> (\<forall>s. reading s (snd (m s)) \<and> rh_configured (snd (m s)) = rh_configured s)"

lemma quietD:
  assumes "quiet m" "m s = (r, s')"
  shows "reading s s'" "rh_configured s' = rh_configured s"
  using assms by (metis quiet_def snd_conv)+

lemma more_fields:
  assumes "redis.more (s' :: RedisSessionHook) = redis.more s"
  shows "rh_configured s' = rh_configured s" "rh_ifmSchema s' = rh_ifmSchema s"
  using assms by (cases s; cases s'; simp)+

lemma quiet_call: "reads cmd \<Longrightarrow> quiet (redis_call cmd)"
  unfolding quiet_def by (metis more_fields(1) prod.collapse read_call(1,2))

lemma quiet_return: "quiet (rreturn a)" "quiet (rfail e)"
  by (simp_all add: quiet_def rreturn_def rfail_def reading_refl)

lemma quiet_validate: "quiet (validateIFMSchema schema)"
  by (simp add: quiet_def validateIFMSchema_def reading_refl)

lemma quiet_set: "quiet (setSchemaVersion schema)"
  by (simp add: quiet_def setSchemaVersion_def reading_def log_reads_def)

lemma quiet_bind:
  assumes "quiet m" "\<And>a. quiet (f a)"
  shows "quiet (rbind m f)"
  unfolding quiet_def
proof
  fix s
  obtain r s' where "rbind m f s = (r, s')" by fastforce
  then show "reading s (snd (rbind m f s)) \<and> rh_configured (snd (rbind m f s)) = rh_configured s"
  proof (cases rule: rbind_cases)
    case (stop e)
    then show ?thesis using quietD[OF assms(1) stop(1)] \<open>rbind m f s = (r, s')\<close> by simp
  next
    case (go a s1)
    then show ?thesis
      using quietD[OF assms(1) go(1)] quietD[OF assms(2) go(2)] \<open>rbind m f s = (r, s')\<close> reading_trans by auto
  qed
qed

lemma reads_script: "reads (nextOfflinePacketCounterScript key counter pre)"
  by (auto simp: reads_def nextOfflinePacketCounterScript_def split: option.split)

lemma quiet_steps: "quiet watch_marker" "quiet (watch_dedup dk)" "quiet (watch_counter ck)"
    "quiet (nextOfflinePacketCounter ik c pre)"
  unfolding watch_marker_def watch_dedup_def watch_counter_def nextOfflinePacketCounter_def
  by (auto intro!: quiet_bind quiet_call quiet_return quiet_validate quiet_set reads_script
      split: option.split rvalue.split)

lemma watch_marker_ok:
  assumes "watch_marker s = (Inr schema, s')"
  shows "marker_schema (rd_ks s') = Some schema" "rh_configured s = 0 \<or> schema = rh_configured s"
proof -
  obtain m s1 where 1: "redis_call (cmd_GET redisIFMSchemaKey) s = (Inr m, s1)"
    and 2: "rbind (case m of
              None \<Rightarrow> validateIFMSchema redisIFMSchemaLegacy
            | Some v \<Rightarrow> (case parse_marker v of None \<Rightarrow> rfail RBadMarker | Some schema \<Rightarrow> validateIFMSchema schema))
       (\<lambda>schema. rbind (setSchemaVersion schema) (\<lambda>_. rreturn schema)) s1 = (Inr schema, s')"
    using assms unfolding watch_marker_def by (rule rbind_Inr)
  have g: "cmd_GET redisIFMSchemaKey (rd_ks s1) = (Inr m, rd_ks s1)"
    using read_call(3)[OF reads_commands(1) 1] by simp
  have c: "rh_configured s1 = rh_configured s" by (rule more_fields(1)[OF read_call(2)[OF reads_commands(1) 1]])
  show "marker_schema (rd_ks s') = Some schema"
    using 2 g by (auto simp: rbind_def validateIFMSchema_def setSchemaVersion_def rreturn_def rfail_def cmd_GET_def
        marker_schema_def split: option.splits if_splits robj.splits)
  show "rh_configured s = 0 \<or> schema = rh_configured s"
    using 2 c by (auto simp: rbind_def validateIFMSchema_def setSchemaVersion_def rreturn_def rfail_def
        split: option.splits if_splits)
qed

lemma watch_marker_error: "watch_marker s = (Inl e, s') \<Longrightarrow> e \<noteq> RAlreadyDelivered"
  unfolding watch_marker_def
  by (erule rbind_cases)
     (auto dest!: call_error simp: cmd_GET_def rbind_def validateIFMSchema_def setSchemaVersion_def rreturn_def rfail_def
      split: option.splits robj.splits if_splits)

lemma watch_dedup_ok:
  assumes "watch_dedup dk s = (r, s')"
  shows "r = Inr () \<Longrightarrow> dk = '''' \<or> rd_ks s' dk = None"
    and "r = Inl RAlreadyDelivered \<Longrightarrow> dk \<noteq> '''' \<and> (\<exists>k. k dk \<noteq> None \<and> rd_log s' = rd_log s @ [(k, k)])"
proof -
  have ne: "fst (cmd_EXISTS dk k) \<noteq> Inl e" for k e by (simp add: cmd_EXISTS_def)
  consider "dk = ''''" "r = Inr ()" | e where "dk \<noteq> ''''" "redis_call (cmd_EXISTS dk) s = (Inl e, s')" "r = Inl e"
    | b s1 where "dk \<noteq> ''''" "redis_call (cmd_EXISTS dk) s = (Inr b, s1)" "s' = s1" "r = (if b then Inl RAlreadyDelivered else Inr ())"
    using assms by (auto simp: watch_dedup_def rreturn_def rfail_def split: if_splits elim!: rbind_cases)
  then show "r = Inr () \<Longrightarrow> dk = '''' \<or> rd_ks s' dk = None"
    "r = Inl RAlreadyDelivered \<Longrightarrow> dk \<noteq> '''' \<and> (\<exists>k. k dk \<noteq> None \<and> rd_log s' = rd_log s @ [(k, k)])"
    using ne by (cases; auto dest!: read_call(3)[OF reads_commands(2)] call_error simp: cmd_EXISTS_def split: if_splits)+
qed

lemma watch_counter_ok:
  assumes "watch_counter ck s = (r, s')"
  shows "r = Inr c \<Longrightarrow> counter_at (rd_ks s') ck = Some c" "r \<noteq> Inl RAlreadyDelivered"
  using assms unfolding watch_counter_def
  by (auto elim!: rbind_cases dest!: read_call(3)[OF reads_commands(1), OF _ refl] call_error
      simp: counter_at_def cmd_GET_def rreturn_def rfail_def split: option.splits rvalue.splits robj.splits)

lemma next_counter_ok:
  assumes "nextOfflinePacketCounter ik c (if schema = redisIFMSchemaLegacy then '''' else ''out:'') s = (r, s')"
  shows "r = Inr n \<Longrightarrow> \<exists>hs. hash_at (rd_ks s') ik = Some hs \<and> n = next_offline_counter schema hs c"
  using assms unfolding nextOfflinePacketCounter_def
  by (auto dest!: read_call(3)[OF reads_script, OF _ refl]
      simp: nextOfflinePacketCounterScript_def next_offline_counter_def split: option.splits if_splits)

lemma queue_errors:
  "watch_marker s \<noteq> (Inl RAlreadyDelivered, s')" "watch_counter ck s \<noteq> (Inl RAlreadyDelivered, s')"
  "nextOfflinePacketCounter ik c pre s \<noteq> (Inl RAlreadyDelivered, s')"
  using watch_marker_error watch_counter_ok(2)
  by (force, force) (auto dest!: call_error simp: nextOfflinePacketCounter_def nextOfflinePacketCounterScript_def
      split: option.splits if_splits)

lemma redis_keys_distinct:
  "redisInflightKey c \<noteq> redisPacketIDKey d" "dedup_key p c \<noteq> redisPacketIDKey d" "dedup_key p c \<noteq> redisInflightKey d"
  "dedup_key p c \<noteq> ''''" "redisPacketIDKey d \<noteq> redisIFMSchemaKey" "dedup_key p c \<noteq> redisIFMSchemaKey"
  by (simp_all add: redisInflightKey_def redisPacketIDKey_def dedup_key_def redisDedupKeyPrefix_def redisKeyPrefix_def
      redisIFMSchemaKey_def)

lemma hash_at_cong: "k key = k' key \<Longrightarrow> hash_at k key = hash_at k' key"
  by (simp add: hash_at_def)

lemma update_not_Nil [simp]: "AList.update f v h \<noteq> []"
  by (cases h) auto

lemma queue_commands_run:
  assumes "hash_at k ik = Some hs" "ik \<noteq> ck"
  shows "queue_commands ik ck dk f n d k =
    (Inr (), (\<lambda>k. if dk = '''' then k else k(dk \<mapsto> RString (VStr ''1'')))
       (k(ck \<mapsto> RString (VStr (itoa_int n)), ik \<mapsto> RHash (AList.update f d hs))))"
proof -
  have "hash_at (k(ck \<mapsto> RString (VStr (itoa_int n)))) ik = Some hs" using assms by (simp add: hash_at_def)
  then have "cmd_HSET ik f d (k(ck \<mapsto> RString (VStr (itoa_int n)))) =
      (Inr (), k(ck \<mapsto> RString (VStr (itoa_int n)), ik \<mapsto> RHash (AList.update f d hs)))"
    by (simp add: cmd_HSET_def put_hash_def)
  then show ?thesis
    by (cases "dk = ''''") (simp_all add: queue_commands_def cmd_then_def cmd_SET_def)
qed

definition queue_keys :: "string \<Rightarrow> string \<Rightarrow> string list" where
  "queue_keys dk c = [redisInflightKey c, redisPacketIDKey c, redisIFMSchemaKey] @ (if dk = [] then [] else [dk])"

lemma quiet_reads: "quiet (queue_reads dk c)"
  unfolding queue_reads_def by (intro quiet_bind quiet_steps) (simp add: quiet_return)

text \<open>A key space that agrees with the last state on the watched keys, none of which was touched, agrees
  with every value that was read.\<close>

lemma queue_reads_ok:
  assumes run: "queue_reads dk c s = (Inr (schema, n), s')"
    and k: "\<And>key. key \<in> set (queue_keys dk c) \<Longrightarrow> \<not> rd_touched s' key \<and> k key = rd_ks s' key"
  shows "\<exists>counter hs. marker_schema k = Some schema \<and> (rh_configured s = 0 \<or> schema = rh_configured s)
      \<and> (dk = [] \<or> k dk = None) \<and> counter_at k (redisPacketIDKey c) = Some counter
      \<and> hash_at k (redisInflightKey c) = Some hs \<and> n = next_offline_counter schema hs counter \<and> n \<noteq> 0"
proof -
  obtain sc s1 where 1: "watch_marker s = (Inr sc, s1)"
    and run1: "rbind (watch_dedup dk) (\<lambda>_.
     rbind (watch_counter (redisPacketIDKey c)) (\<lambda>counter.
     rbind (nextOfflinePacketCounter (redisInflightKey c) counter (if sc = redisIFMSchemaLegacy then [] else ''out:''))
       (\<lambda>nextCounter. if nextCounter = 0 then rfail RQuota else rreturn (sc, nextCounter)))) s1 = (Inr (schema, n), s')"
    using run unfolding queue_reads_def by (rule rbind_Inr)
  obtain u s2 where 2: "watch_dedup dk s1 = (Inr u, s2)"
    and run2: "rbind (watch_counter (redisPacketIDKey c)) (\<lambda>counter.
     rbind (nextOfflinePacketCounter (redisInflightKey c) counter (if sc = redisIFMSchemaLegacy then [] else ''out:''))
       (\<lambda>nextCounter. if nextCounter = 0 then rfail RQuota else rreturn (sc, nextCounter))) s2 = (Inr (schema, n), s')"
    using run1 by (rule rbind_Inr)
  obtain counter s3 where 3: "watch_counter (redisPacketIDKey c) s2 = (Inr counter, s3)"
    and run3: "rbind (nextOfflinePacketCounter (redisInflightKey c) counter (if sc = redisIFMSchemaLegacy then [] else ''out:''))
       (\<lambda>nextCounter. if nextCounter = 0 then rfail RQuota else rreturn (sc, nextCounter)) s3 = (Inr (schema, n), s')"
    using run2 by (rule rbind_Inr)
  obtain m s4 where 4: "nextOfflinePacketCounter (redisInflightKey c) counter
      (if sc = redisIFMSchemaLegacy then [] else ''out:'') s3 = (Inr m, s4)"
    and run4: "(if m = 0 then rfail RQuota else rreturn (sc, m)) s4 = (Inr (schema, n), s')"
    using run3 by (rule rbind_Inr)
  have eq: "m = n" "sc = schema" "s4 = s'" "n \<noteq> 0" using run4 by (auto simp: rfail_def rreturn_def split: if_splits)
  note r34 = quietD(1)[OF quiet_steps(4) 4, unfolded eq]
  note r24 = reading_trans[OF quietD(1)[OF quiet_steps(3) 3] r34]
  note r14 = reading_trans[OF quietD(1)[OF quiet_steps(2) 2] r24]
  have rd: "k key = rd_ks t key" if "key \<in> set (queue_keys dk c)" "reading t s'" for key t
    using k[OF that(1)] that(2) by (simp add: reading_def)
  obtain hs where "hash_at (rd_ks s') (redisInflightKey c) = Some hs" "n = next_offline_counter schema hs counter"
    using next_counter_ok[OF 4 refl] eq by auto
  moreover have "hash_at k (redisInflightKey c) = hash_at (rd_ks s') (redisInflightKey c)"
    by (rule hash_at_cong, rule rd) (simp_all add: queue_keys_def reading_refl)
  moreover have "marker_schema k = Some schema"
    using watch_marker_ok(1)[OF 1] eq rd[OF _ r14, of redisIFMSchemaKey] by (simp add: marker_schema_def queue_keys_def)
  moreover have "dk = [] \<or> k dk = None"
    using watch_dedup_ok(1)[OF 2] rd[OF _ r24, of dk] by (cases "dk = []") (simp_all add: queue_keys_def)
  moreover have "counter_at k (redisPacketIDKey c) = Some counter"
    using watch_counter_ok(1)[OF 3 refl] rd[OF _ r34, of "redisPacketIDKey c"] by (simp add: counter_at_def queue_keys_def)
  ultimately show ?thesis using watch_marker_ok(2)[OF 1] eq by (intro exI[of _ counter] exI[of _ hs]) auto
qed

lemma queue_reads_duplicate:
  assumes "queue_reads dk c s = (Inl RAlreadyDelivered, s')"
  shows "dk \<noteq> [] \<and> (\<exists>l k. k dk \<noteq> None \<and> rd_log s' = rd_log s @ l @ [(k, k)])"
proof -
  obtain sc s1 where 1: "watch_marker s = (Inr sc, s1)" and 2: "watch_dedup dk s1 = (Inl RAlreadyDelivered, s')"
    using assms unfolding queue_reads_def
    by (elim rbind_cases) (auto simp: queue_errors rfail_def rreturn_def split: if_splits)
  obtain l where "rd_log s1 = rd_log s @ l"
    using reading_log[OF quietD(1)[OF quiet_steps(1) 1]] by (auto simp: log_reads_def)
  then show ?thesis using watch_dedup_ok(2)[OF 2 refl] by auto
qed

lemma queue_transaction_cases:
  assumes run: "queue_transaction now dk c msg h = (r, h')"
  obtains (none) e where "r = Inl e" "log_reads h h'" "rh_configured h' = rh_configured h"
      "e = RAlreadyDelivered \<Longrightarrow> dk \<noteq> [] \<and> (\<exists>l k. k dk \<noteq> None \<and> rd_log h' = rd_log h @ l @ [(k, k)])"
  | (wrote) pid l k k' where "queue_atomic (rh_configured h) now dk c msg k = (Inr pid, k')"
      "rd_log h' = rd_log h @ l @ [(k, k')]" "\<forall>(a, b)\<in>set l. b = a" "r = Inr pid \<or> r = Inl RNet"
      "rh_configured h' = rh_configured h"
proof -
  define pid where "pid = packet_id_of"
  define qc where "qc schema n = queue_commands (redisInflightKey c) (redisPacketIDKey c) dk (offline_field schema (pid n)) n
      (marshalOfflineInflight now c (pid n) msg)" for schema n
  have "rbind redis_watch (\<lambda>_. rbind (queue_reads dk c) (\<lambda>(schema, n).
      rbind (redis_exec (queue_keys dk c) (qc schema n)) (\<lambda>_. rreturn (pid n)))) h = (r, h')"
    using run by (simp add: queue_transaction_def Let_def queue_keys_def pid_def qc_def split_def)
  then show thesis
  proof (cases rule: rbind_cases)
    case (stop e)
    then show thesis
      using watch_call(1,3)[OF stop(1)] more_fields(1)[OF watch_call(2)[OF stop(1)]] by (intro none[of e]) auto
  next
    case (go u s0)
    have l0: "log_reads h s0" and c0: "rh_configured s0 = rh_configured h"
      using watch_call(1)[OF go(1)] more_fields(1)[OF watch_call(2)[OF go(1)]] by blast+
    show thesis using go(2)
    proof (cases rule: rbind_cases)
      case (stop e)
      note q = quietD[OF quiet_reads stop(1)]
      have l: "log_reads h h'" by (rule log_reads_trans[OF l0 reading_log[OF q(1)]])
      show thesis using stop l c0 q(2) l0 queue_reads_duplicate[of dk c s0 h']
        by (intro none[of e]) (auto simp: log_reads_def)
    next
      case (go sn s1)
      obtain schema n where sn: "sn = (schema, n)" by (cases sn)
      note q = quietD[OF quiet_reads go(1)]
      have l1: "log_reads h s1" by (rule log_reads_trans[OF l0 reading_log[OF q(1)]])
      obtain x where x: "redis_exec (queue_keys dk c) (qc schema n) s1 = (x, h')"
        and rx: "r = (case x of Inl e \<Rightarrow> Inl e | Inr _ \<Rightarrow> Inr (pid n))"
        using go(2) by (auto simp: sn rreturn_def elim!: rbind_cases)
      show thesis using x
      proof (cases rule: exec_cases)
        case failed
        then show thesis using rx log_reads_trans[OF l1 failed(2)] c0 q(2) more_fields(1)[OF failed(3)]
          by (intro none[of "case x of Inl e \<Rightarrow> e"]) auto
      next
        case (ran k k' r0)
        obtain counter hs where k: "marker_schema k = Some schema" "rh_configured s0 = 0 \<or> schema = rh_configured s0"
          "dk = [] \<or> k dk = None" "counter_at k (redisPacketIDKey c) = Some counter"
          "hash_at k (redisInflightKey c) = Some hs" "n = next_offline_counter schema hs counter" "n \<noteq> 0"
          using queue_reads_ok[OF go(1)[unfolded sn] ran(1)] by blast
        note qcr = queue_commands_run[OF k(5) redis_keys_distinct(1), of c dk "offline_field schema (pid n)" n
            "marshalOfflineInflight now c (pid n) msg", folded qc_def]
        have "queue_atomic (rh_configured h) now dk c msg k = (Inr (pid n), k')"
          using qcr ran(2) k c0 by (auto simp: queue_atomic_def Let_def pid_def)
        moreover obtain l where "rd_log s1 = rd_log h @ l" "\<forall>(a, b)\<in>set l. b = a" using l1 by (auto simp: log_reads_def)
        ultimately show thesis using ran qcr rx c0 q(2) more_fields(1)[OF ran(5)]
          by (intro wrote[of k "pid n" k' l]) auto
      qed
    qed
  qed
qed

definition queue_outcome ::
  "int \<Rightarrow> (nat \<Rightarrow> int) \<Rightarrow> string \<Rightarrow> string \<Rightarrow> InflightMessage \<Rightarrow> (keyspace \<times> keyspace) list \<Rightarrow> rerr + nat \<times> bool \<Rightarrow> bool" where
  "queue_outcome configured now dk c msg l r \<longleftrightarrow>
     (\<forall>(k, k')\<in>set l. k' = k) \<and>
       (case r of
          Inl e \<Rightarrow> True
        | Inr (pid, queued) \<Rightarrow> \<not> queued \<and> pid = 0 \<and> dk \<noteq> [] \<and> (\<exists>k. (k, k) \<in> set l \<and> k dk \<noteq> None))
     \<or> (\<exists>l0 k k' pid i. l = l0 @ [(k, k')] \<and> (\<forall>(k, k')\<in>set l0. k' = k) \<and>
          queue_atomic configured (now i) dk c msg k = (Inr pid, k') \<and> (r = Inr (pid, True) \<or> r = Inl RNet))"

lemma queue_outcome_append:
  assumes "queue_outcome cfg now dk c msg l r" "\<forall>(k, k')\<in>set l1. k' = k"
  shows "queue_outcome cfg now dk c msg (l1 @ l) r"
  using assms(1) unfolding queue_outcome_def
proof (elim disjE exE)
  fix l0 k k' pid i
  assume a: "l = l0 @ [(k, k')] \<and> (\<forall>(k, k')\<in>set l0. k' = k) \<and>
      queue_atomic cfg (now i) dk c msg k = (Inr pid, k') \<and> (r = Inr (pid, True) \<or> r = Inl RNet)"
  show "(\<forall>(k, k')\<in>set (l1 @ l). k' = k) \<and>
       (case r of
          Inl e \<Rightarrow> True
        | Inr (pid, queued) \<Rightarrow> \<not> queued \<and> pid = 0 \<and> dk \<noteq> [] \<and> (\<exists>k. (k, k) \<in> set (l1 @ l) \<and> k dk \<noteq> None))
     \<or> (\<exists>l0 k k' pid i. l1 @ l = l0 @ [(k, k')] \<and> (\<forall>(k, k')\<in>set l0. k' = k) \<and>
          queue_atomic cfg (now i) dk c msg k = (Inr pid, k') \<and> (r = Inr (pid, True) \<or> r = Inl RNet))"
    using a assms(2) by (intro disjI2 exI[of _ "l1 @ l0"] exI[of _ k] exI[of _ k'] exI[of _ pid] exI[of _ i]) auto
qed (use assms(2) in \<open>auto split: sum.splits\<close>)

lemma queue_attempts_outcome:
  assumes "queue_attempts n a finished now dk c msg h = (r, h')"
  shows "\<exists>l. rd_log h' = rd_log h @ l \<and> queue_outcome (rh_configured h) now dk c msg l r"
  using assms
proof (induction n arbitrary: a h)
  case 0
  then show ?case by (auto simp: queue_outcome_def)
next
  case (Suc n)
  obtain x h1 where x: "queue_transaction (now a) dk c msg h = (x, h1)" by fastforce
  then show ?case
  proof (cases rule: queue_transaction_cases)
    case (wrote pid l k k')
    then have "r = Inr (pid, True) \<or> r = Inl RNet" "h' = h1" using Suc.prems x by auto
    then show ?thesis using wrote unfolding queue_outcome_def by (intro exI[of _ "l @ [(k, k')]"]) blast
  next
    case (none e)
    obtain l where l: "rd_log h1 = rd_log h @ l" "\<forall>(k, k')\<in>set l. k' = k" using none(2) by (auto simp: log_reads_def)
    show ?thesis
    proof (cases "e = RTxFailed \<and> \<not> (n > 0 \<and> finished (Suc a))")
      case True
      then have "queue_attempts n (Suc a) finished now dk c msg h1 = (r, h')"
        using Suc.prems x none(1) by auto
      from Suc.IH[OF this] obtain l2 where "rd_log h' = rd_log h1 @ l2" "queue_outcome (rh_configured h) now dk c msg l2 r"
        using none(3) by auto
      then show ?thesis using l queue_outcome_append[OF _ l(2)] by (intro exI[of _ "l @ l2"]) simp
    next
      case False
      then have h: "h' = h1" "r = (if e = RAlreadyDelivered then Inr (0, False) else if e = RTxFailed then Inl RNet else Inl e)"
        using Suc.prems x none(1) by (auto split: if_splits)
      have "e = RAlreadyDelivered \<Longrightarrow> dk \<noteq> [] \<and> (\<exists>k. (k, k) \<in> set l \<and> k dk \<noteq> None)"
        using none(4) l by auto
      then show ?thesis using h l by (intro exI[of _ l]) (auto simp: queue_outcome_def)
    qed
  qed
qed

text \<open>Undisturbed, the transaction is the atomic step.\<close>

lemma call_alone:
  "rd_world s = [] \<Longrightarrow> redis_call cmd s =
     (fst (cmd (rd_ks s)), s\<lparr>rd_ks := snd (cmd (rd_ks s)), rd_log := rd_log s @ [(rd_ks s, snd (cmd (rd_ks s)))]\<rparr>)"
  by (simp add: redis_call_def redis_step_def Let_def split_def)

lemma exec_alone:
  "rd_world s = [] \<Longrightarrow> rd_touched s = (\<lambda>_. False) \<Longrightarrow> redis_exec keys cmd s =
     (fst (cmd (rd_ks s)), s\<lparr>rd_ks := snd (cmd (rd_ks s)), rd_log := rd_log s @ [(rd_ks s, snd (cmd (rd_ks s)))]\<rparr>)"
proof -
  have "list_ex (\<lambda>_. False) keys = False" by (induction keys) auto
  then show "rd_world s = [] \<Longrightarrow> rd_touched s = (\<lambda>_. False) \<Longrightarrow> ?thesis"
    by (simp add: redis_exec_def redis_step_def Let_def split_def)
qed

lemma queue_transaction_alone:
  assumes "rd_world h = []" "queue_atomic (rh_configured h) now dk c msg (rd_ks h) = (Inr pid, k')"
  shows "\<exists>h'. queue_transaction now dk c msg h = (Inr pid, h') \<and> rd_ks h' = k'"
proof -
  define ks where "ks = rd_ks h"
  obtain schema counter hs where k: "marker_schema ks = Some schema" "counter_at ks (redisPacketIDKey c) = Some counter"
    "hash_at ks (redisInflightKey c) = Some hs" "rh_configured h = 0 \<or> schema = rh_configured h" "dk = [] \<or> ks dk = None"
    "next_offline_counter schema hs counter \<noteq> 0" "pid = packet_id_of (next_offline_counter schema hs counter)"
    using assms(2) by (auto simp: queue_atomic_def ks_def Let_def split: option.splits if_splits)
  have m: "\<exists>s'. watch_marker s = (Inr schema, s') \<and> rd_world s' = [] \<and> rd_ks s' = ks \<and> rd_touched s' = rd_touched s"
    if "rd_world s = []" "rd_ks s = ks" "rh_configured s = rh_configured h" for s
    using that k(1,4) by (auto simp: watch_marker_def rbind_def call_alone cmd_GET_def marker_schema_def validateIFMSchema_def
        setSchemaVersion_def rreturn_def rfail_def split: option.splits robj.splits)
  have d: "\<exists>s'. watch_dedup dk s = (Inr (), s') \<and> rd_world s' = [] \<and> rd_ks s' = ks \<and> rd_touched s' = rd_touched s"
    if "rd_world s = []" "rd_ks s = ks" for s
    using that k(5) by (auto simp: watch_dedup_def rbind_def call_alone cmd_EXISTS_def rreturn_def)
  have t: "\<exists>s'. watch_counter (redisPacketIDKey c) s = (Inr counter, s') \<and> rd_world s' = [] \<and> rd_ks s' = ks \<and> rd_touched s' = rd_touched s"
    if "rd_world s = []" "rd_ks s = ks" for s
    using that k(2) by (auto simp: watch_counter_def rbind_def call_alone cmd_GET_def counter_at_def rreturn_def
        split: option.splits robj.splits rvalue.splits)
  have n: "\<exists>s'. nextOfflinePacketCounter (redisInflightKey c) counter (if schema = redisIFMSchemaLegacy then [] else ''out:'') s
      = (Inr (next_offline_counter schema hs counter), s') \<and> rd_world s' = [] \<and> rd_ks s' = ks \<and> rd_touched s' = rd_touched s"
    if "rd_world s = []" "rd_ks s = ks" for s
    using that k(3) by (auto simp: nextOfflinePacketCounter_def nextOfflinePacketCounterScript_def call_alone next_offline_counter_def)
  obtain s0 where s0: "redis_watch h = (Inr (), s0)" "rd_world s0 = []" "rd_ks s0 = ks" "rd_touched s0 = (\<lambda>_. False)"
      "rh_configured s0 = rh_configured h"
    using assms(1) by (simp add: redis_watch_def call_alone ks_def)
  obtain s1 where s1: "watch_marker s0 = (Inr schema, s1)" "rd_world s1 = []" "rd_ks s1 = ks" "rd_touched s1 = (\<lambda>_. False)"
    using m[OF s0(2,3,5)] s0(4) by auto
  obtain s2 where s2: "watch_dedup dk s1 = (Inr (), s2)" "rd_world s2 = []" "rd_ks s2 = ks" "rd_touched s2 = (\<lambda>_. False)"
    using d[OF s1(2,3)] s1(4) by auto
  obtain s3 where s3: "watch_counter (redisPacketIDKey c) s2 = (Inr counter, s3)" "rd_world s3 = []" "rd_ks s3 = ks"
    "rd_touched s3 = (\<lambda>_. False)"
    using t[OF s2(2,3)] s2(4) by auto
  obtain s4 where s4: "nextOfflinePacketCounter (redisInflightKey c) counter (if schema = redisIFMSchemaLegacy then [] else ''out:'') s3
      = (Inr (next_offline_counter schema hs counter), s4)" "rd_world s4 = []" "rd_ks s4 = ks" "rd_touched s4 = (\<lambda>_. False)"
    using n[OF s3(2,3)] s3(4) by auto
  have "queue_reads dk c s0 = (Inr (schema, next_offline_counter schema hs counter), s4)"
    unfolding queue_reads_def using s1(1) s2(1) s3(1) s4(1) k(6) by (simp add: rbind_def rreturn_def)
  then show ?thesis
    using assms(2) s0(1) k queue_commands_run[OF k(3) redis_keys_distinct(1)]
    by (simp add: queue_transaction_def Let_def rbind_def exec_alone[OF s4(2,4)] s4(3) rreturn_def queue_atomic_def
        ks_def[symmetric] split: if_splits)
qed

text \<open>The search visits the identifiers from the counter on and finds the first free one.\<close>

lemma offline_search_spec:
  assumes "offset \<le> 65535"
  shows "(offline_search h pre counter offset = 0 \<and> (\<forall>i. offset \<le> i \<and> i < 65535 \<longrightarrow> \<not> offline_id_free h pre (counter + int i)))
       \<or> (\<exists>i. offset \<le> i \<and> i < 65535 \<and> offline_search h pre counter offset = counter + int i + 1
              \<and> offline_id_free h pre (counter + int i) \<and> (\<forall>j. offset \<le> j \<and> j < i \<longrightarrow> \<not> offline_id_free h pre (counter + int j)))"
  using assms
proof (induction h pre counter offset rule: offline_search.induct)
  case (1 h pre counter offset)
  consider "offset = 65535" | "offset \<le> 65534" "offline_id_free h pre (counter + int offset)"
    | "offset \<le> 65534" "\<not> offline_id_free h pre (counter + int offset)" using 1(2) by linarith
  then show ?case
  proof cases
    case 1
    then show ?thesis by (intro disjI1) (auto simp: offline_search.simps[of h pre counter 65535])
  next
    case 2
    then show ?thesis by (intro disjI2 exI[of _ offset]) (auto simp: offline_search.simps[of h pre counter offset])
  next
    case 3
    then have s: "offline_search h pre counter offset = offline_search h pre counter (Suc offset)"
      by (simp add: offline_search.simps[of h pre counter offset])
    have first: "offset \<le> j \<longleftrightarrow> j = offset \<or> Suc offset \<le> j" for j by auto
    show ?thesis using 1(1)[OF _ 3(2)] 3 unfolding s first by (auto 0 3)
  qed
qed

lemma go_rem_nonneg: "0 \<le> a \<Longrightarrow> go_rem a b = (if a = 0 then 0 else a mod \<bar>b\<bar>)"
  by (simp add: go_rem_def sgn_if)

lemma packet_id_of_pos:
  assumes "0 < n"
  shows "int (packet_id_of n) = (n - 1) mod 65535 + 1" "packet_id_of n \<in> {1..65535}"
proof -
  have r: "go_rem (n - 1) 65535 = (n - 1) mod 65535" using assms by (simp add: go_rem_nonneg)
  have b: "0 \<le> (n - 1) mod 65535" "(n - 1) mod 65535 < 65535" by simp_all
  have "((n - 1) mod 65535 mod 65536 + 1) mod 65536 = (n - 1) mod 65535 + 1"
    using b by (simp add: mod_pos_pos_trivial)
  then show 1: "int (packet_id_of n) = (n - 1) mod 65535 + 1" using b by (simp add: packet_id_of_def r)
  show "packet_id_of n \<in> {1..65535}" using 1 b by auto
qed

lemma itoa_int_nat [simp]: "itoa_int (int n) = itoa n"
  by (simp add: itoa_int_def)

lemma offline_id_free_iff:
  assumes "0 \<le> i" "pre = [] \<or> pre = ''out:''"
  shows "offline_id_free hs pre i \<longleftrightarrow>
    map_of hs (pre @ itoa (packet_id_of (i + 1))) = None \<and> map_of hs (itoa (packet_id_of (i + 1))) = None"
proof -
  have "i mod 65535 + 1 = int (packet_id_of (i + 1))" using packet_id_of_pos(1)[of "i + 1"] assms(1) by simp
  then show ?thesis using assms(2) by (auto simp: offline_id_free_def Let_def)
qed

lemma packet_id_of_hits:
  assumes "0 \<le> counter" "pid \<in> {1..65535}"
  obtains i where "i < 65535" "packet_id_of (counter + int i + 1) = pid"
proof
  define d where "d = (int pid - 1 - counter) mod 65535"
  have d: "0 \<le> d" "d < 65535" by (simp_all add: d_def)
  show "nat d < 65535" using d by simp
  have "(counter + d) mod 65535 = (int pid - 1) mod 65535" by (simp add: d_def mod_simps)
  also have "\<dots> = int pid - 1" using assms(2) by simp
  finally have "int (packet_id_of (counter + int (nat d) + 1)) = int pid"
    using packet_id_of_pos(1)[of "counter + d + 1"] assms(1) d by simp
  then show "packet_id_of (counter + int (nat d) + 1) = pid" by simp
qed

lemma offline_search_result:
  fixes hs :: "(string \<times> rvalue) list"
  assumes "0 \<le> counter" "pre = [] \<or> pre = ''out:''"
  defines "n \<equiv> offline_search hs pre counter 0"
  shows "n = 0 \<longleftrightarrow> (\<forall>i\<in>{1..65535}. map_of hs (pre @ itoa i) \<noteq> None \<or> map_of hs (itoa i) \<noteq> None)"
    and "n \<noteq> 0 \<Longrightarrow> counter < n \<and> n \<le> counter + 65535 \<and> packet_id_of n \<in> {1..65535}
      \<and> map_of hs (pre @ itoa (packet_id_of n)) = None \<and> map_of hs (itoa (packet_id_of n)) = None"
proof -
  have free: "offline_id_free hs pre (counter + int i) \<longleftrightarrow> map_of hs (pre @ itoa (packet_id_of (counter + int i + 1))) = None
      \<and> map_of hs (itoa (packet_id_of (counter + int i + 1))) = None" for i
    using offline_id_free_iff[of "counter + int i" pre hs] assms(1,2) by simp
  have found: "\<exists>i<65535. n = counter + int i + 1 \<and> offline_id_free hs pre (counter + int i)" if "n \<noteq> 0"
    using offline_search_spec[of 0 hs pre counter] that unfolding n_def by auto
  have none: "\<not> offline_id_free hs pre (counter + int i)" if "n = 0" "i < 65535" for i
    using offline_search_spec[of 0 hs pre counter] that assms(1) unfolding n_def by auto
  show *: "n \<noteq> 0 \<Longrightarrow> counter < n \<and> n \<le> counter + 65535 \<and> packet_id_of n \<in> {1..65535}
      \<and> map_of hs (pre @ itoa (packet_id_of n)) = None \<and> map_of hs (itoa (packet_id_of n)) = None"
    using found free assms(1) packet_id_of_pos(2)[of n] by auto
  show "n = 0 \<longleftrightarrow> (\<forall>i\<in>{1..65535}. map_of hs (pre @ itoa i) \<noteq> None \<or> map_of hs (itoa i) \<noteq> None)"
  proof
    assume z: "n = 0"
    show "\<forall>i\<in>{1..65535}. map_of hs (pre @ itoa i) \<noteq> None \<or> map_of hs (itoa i) \<noteq> None"
    proof
      fix pid :: nat assume "pid \<in> {1..65535}"
      then obtain i where i: "i < 65535" "packet_id_of (counter + int i + 1) = pid" by (rule packet_id_of_hits[OF assms(1)])
      show "map_of hs (pre @ itoa pid) \<noteq> None \<or> map_of hs (itoa pid) \<noteq> None"
        using none[OF z i(1)] unfolding free i(2) by simp
    qed
  next
    assume "\<forall>i\<in>{1..65535}. map_of hs (pre @ itoa i) \<noteq> None \<or> map_of hs (itoa i) \<noteq> None"
    then show "n = 0" using * by fast
  qed
qed




text \<open>What a caller may rely on of one enqueue: the message is added under a fresh identifier in the format of
  the schema, the publish is marked, and no key of anything else changes.\<close>

definition queue_effect :: "string \<Rightarrow> int \<Rightarrow> string \<Rightarrow> InflightMessage \<Rightarrow> nat \<Rightarrow> keyspace \<Rightarrow> keyspace \<Rightarrow> bool" where
  "queue_effect dk now c msg pid k k' \<longleftrightarrow>
     (\<exists>schema hs counter.
        marker_schema k = Some schema \<and> hash_at k (redisInflightKey c) = Some hs \<and>
        hash_at k' (redisInflightKey c) =
          Some (AList.update (offline_field schema pid) (marshalOfflineInflight now c pid msg) hs) \<and>
        (dk \<noteq> '''' \<longrightarrow> k dk = None \<and> k' dk \<noteq> None) \<and>
        (\<forall>key. key \<notin> {redisInflightKey c, redisPacketIDKey c, dk} \<longrightarrow> k' key = k key) \<and>
        counter_at k (redisPacketIDKey c) = Some counter \<and>
        (0 \<le> counter \<longrightarrow> pid \<in> {1..65535} \<and> map_of hs (itoa pid) = None \<and> map_of hs (offline_field schema pid) = None))"

lemma queue_atomic_effect:
  assumes "queue_atomic cfg now dk c msg k = (Inr pid, k')" "dk = [] \<or> dk = dedup_key p c"
  shows "queue_effect dk now c msg pid k k'"
proof -
  obtain schema counter hs n where k: "marker_schema k = Some schema" "counter_at k (redisPacketIDKey c) = Some counter"
    "hash_at k (redisInflightKey c) = Some hs" "dk = [] \<or> k dk = None" "n = next_offline_counter schema hs counter" "n \<noteq> 0"
    "pid = packet_id_of n"
    and k': "k' = (\<lambda>k. if dk = [] then k else k(dk \<mapsto> RString (VStr ''1'')))
       (k(redisPacketIDKey c \<mapsto> RString (VStr (itoa_int n)),
          redisInflightKey c \<mapsto> RHash (AList.update (offline_field schema pid) (marshalOfflineInflight now c pid msg) hs)))"
    using assms(1) by (auto simp: queue_atomic_def Let_def split: option.splits if_splits)
  have "pid \<in> {1..65535} \<and> map_of hs (itoa pid) = None \<and> map_of hs (offline_field schema pid) = None" if "0 \<le> counter"
    using offline_search_result(2)[OF that, of "if schema = redisIFMSchemaLegacy then [] else ''out:''" hs] k(5-7)
    by (auto simp: next_offline_counter_def offline_field_def split: if_splits)
  moreover have "redisInflightKey c \<noteq> dk \<or> dk = []" using assms(2) redis_keys_distinct(3)[of p c c] by auto
  ultimately show ?thesis
    using k(1-4) unfolding queue_effect_def k'
    by (intro exI[of _ schema] exI[of _ hs] exI[of _ counter]) (auto simp: hash_at_def redis_keys_distinct)
qed

text \<open>C3. Enqueueing for an offline client is atomic whatever other gateways do and whatever calls are lost.
  Either nothing was written (then the call failed, or it found the publish already marked and returned
  packet identifier 0), or the last thing it did was one single change that adds the message under a fresh
  identifier together with its counter and its mark; a call that reports a queued message made that change,
  and only a call that lost the reply can have made it without reporting it. Undisturbed, and with an
  identifier free, the call succeeds.\<close>

theorem queue_offline_atomic:
  assumes "QueueOfflineInflight finished now p c msg h = (r, h')"
  defines "dk \<equiv> (if p = uuid_Nil then '''' else dedup_key p c)"
  shows "(\<exists>l. rd_log h' = rd_log h @ l \<and>
     ((\<forall>(k, k')\<in>set l. k' = k)
        \<and> ((\<exists>e. r = Inl e) \<or> r = Inr (0, False) \<and> p \<noteq> uuid_Nil \<and> (\<exists>k. (k, k) \<in> set l \<and> k dk \<noteq> None))
      \<or> (\<exists>l0 k k' pid i. l = l0 @ [(k, k')] \<and> (\<forall>(k, k')\<in>set l0. k' = k) \<and> queue_effect dk (now i) c msg pid k k'
           \<and> (r = Inr (pid, True) \<or> r = Inl RNet))))
   \<and> (\<forall>pid k'. rd_world h = [] \<and> \<not> finished 0 \<and> queue_atomic (rh_configured h) (now 0) dk c msg (rd_ks h) = (Inr pid, k')
        \<longrightarrow> r = Inr (pid, True) \<and> rd_ks h' = k')"
proof
  have dk: "dk = [] \<or> dk = dedup_key p c" "dk = [] \<longleftrightarrow> p = uuid_Nil" by (auto simp: dk_def redis_keys_distinct)
  have q: "(if p \<noteq> uuid_Nil then dedup_key p c else []) = dk" by (simp add: dk_def)
  show "\<exists>l. rd_log h' = rd_log h @ l \<and>
     ((\<forall>(k, k')\<in>set l. k' = k)
        \<and> ((\<exists>e. r = Inl e) \<or> r = Inr (0, False) \<and> p \<noteq> uuid_Nil \<and> (\<exists>k. (k, k) \<in> set l \<and> k dk \<noteq> None))
      \<or> (\<exists>l0 k k' pid i. l = l0 @ [(k, k')] \<and> (\<forall>(k, k')\<in>set l0. k' = k) \<and> queue_effect dk (now i) c msg pid k k'
           \<and> (r = Inr (pid, True) \<or> r = Inl RNet)))"
  proof (cases "finished 0")
    case True
    then show ?thesis using assms(1) by (simp add: QueueOfflineInflight_def) auto
  next
    case False
    then have "queue_attempts 32 0 finished now dk c msg h = (r, h')"
      using assms(1) by (simp add: QueueOfflineInflight_def q)
    then obtain l where l: "rd_log h' = rd_log h @ l" "queue_outcome (rh_configured h) now dk c msg l r"
      using queue_attempts_outcome by blast
    from l(2)[unfolded queue_outcome_def] show ?thesis
    proof
      assume a: "(\<forall>(k, k')\<in>set l. k' = k) \<and> (case r of Inl e \<Rightarrow> True
        | Inr (pid, queued) \<Rightarrow> \<not> queued \<and> pid = 0 \<and> dk \<noteq> [] \<and> (\<exists>k. (k, k) \<in> set l \<and> k dk \<noteq> None))"
      have b: "(\<exists>e. r = Inl e) \<or> r = Inr (0, False) \<and> p \<noteq> uuid_Nil \<and> (\<exists>k. (k, k) \<in> set l \<and> k dk \<noteq> None)"
        using a[THEN conjunct2] dk(2) by (cases r) auto
      show ?thesis by (intro exI[of _ l] conjI[OF l(1)] disjI1 conjI[OF a[THEN conjunct1] b])
    next
      assume "\<exists>l0 k k' pid i. l = l0 @ [(k, k')] \<and> (\<forall>(k, k')\<in>set l0. k' = k) \<and>
          queue_atomic (rh_configured h) (now i) dk c msg k = (Inr pid, k') \<and> (r = Inr (pid, True) \<or> r = Inl RNet)"
      then obtain l0 k k' pid i where w: "l = l0 @ [(k, k')]" "\<forall>(k, k')\<in>set l0. k' = k"
        "queue_atomic (rh_configured h) (now i) dk c msg k = (Inr pid, k')" "r = Inr (pid, True) \<or> r = Inl RNet"
        by (elim exE conjE)
      show ?thesis
        by (intro exI[of _ l] conjI l(1) disjI2 exI[of _ l0] exI[of _ k] exI[of _ k'] exI[of _ pid] exI[of _ i] w
            queue_atomic_effect[OF w(3) dk(1)])
    qed
  qed
  show "\<forall>pid k'. rd_world h = [] \<and> \<not> finished 0 \<and> queue_atomic (rh_configured h) (now 0) dk c msg (rd_ks h) = (Inr pid, k')
        \<longrightarrow> r = Inr (pid, True) \<and> rd_ks h' = k'"
  proof (intro allI impI, elim conjE)
    fix pid k'
    assume a: "rd_world h = []" "\<not> finished 0" "queue_atomic (rh_configured h) (now 0) dk c msg (rd_ks h) = (Inr pid, k')"
    obtain h1 where h1: "queue_transaction (now 0) dk c msg h = (Inr pid, h1)" "rd_ks h1 = k'"
      using queue_transaction_alone[OF a(1,3)] by blast
    have "queue_attempts (Suc 31) 0 finished now dk c msg h = (Inr (pid, True), h1)"
      unfolding queue_attempts.simps h1(1) by simp
    then show "r = Inr (pid, True) \<and> rd_ks h' = k'"
      using assms(1) a(2) h1(2) by (simp add: QueueOfflineInflight_def q)
  qed
qed

lemma queue_offline_atomic_witness:
  "fst (QueueOfflineInflight (\<lambda>_. False) (\<lambda>_. 7) ''u1'' ''c'' \<lparr>im_Topic = ''t'', im_Payload = ''p'', im_QoS = 1\<rparr>
     \<lparr>rd_ks = [redisIFMSchemaKey \<mapsto> RString (VStr ''2'')], rd_world = [], rd_touched = (\<lambda>_. True), rd_log = [],
      rh_ifmSchema = 1, rh_configured = 0\<rparr>) = Inr (1, True)"
proof -
  define msg where "msg = \<lparr>im_Topic = ''t'', im_Payload = ''p'', im_QoS = 1\<rparr>"
  define h where "h = \<lparr>rd_ks = [redisIFMSchemaKey \<mapsto> RString (VStr ''2'')], rd_world = [], rd_touched = (\<lambda>_. True), rd_log = [],
      rh_ifmSchema = 1, rh_configured = 0\<rparr>"
  obtain r h' where run: "QueueOfflineInflight (\<lambda>_. False) (\<lambda>_. 7) ''u1'' ''c'' msg h = (r, h')" by fastforce
  have m: "parse_marker (VStr ''2'') = Some 2" by code_simp
  have keys: "redisPacketIDKey ''c'' \<noteq> redisIFMSchemaKey" "dedup_key ''u1'' ''c'' \<noteq> redisIFMSchemaKey"
    "redisInflightKey ''c'' \<noteq> redisIFMSchemaKey" "dedup_key ''u1'' ''c'' \<noteq> []" by code_simp+
  have id: "packet_id_of 1 = 1" by code_simp
  have u: "''u1'' \<noteq> uuid_Nil" by (simp add: uuid_Nil_def)
  have n: "next_offline_counter 2 [] 0 = 1"
    by (simp add: next_offline_counter_def redisIFMSchemaLegacy_def offline_search.simps[of _ _ _ 0] offline_id_free_def Let_def)
  have "\<exists>k'. queue_atomic (rh_configured h) 7 (dedup_key ''u1'' ''c'') ''c'' msg (rd_ks h) = (Inr 1, k')"
    using keys by (simp add: queue_atomic_def h_def marker_schema_def m counter_at_def hash_at_def n id Let_def)
  then have "r = Inr (1, True)"
    using queue_offline_atomic[OF run, THEN conjunct2] u by (auto simp: h_def)
  then show ?thesis using run by (simp add: msg_def h_def)
qed

end
