(* ===== verification/RedisFence.thy ===== *)
theory RedisFence
  imports RedisQueue
begin

text \<open>
  The schema fence of the inflight hashes: every change of a write hook is made under the marker whose field
  format it uses. The last theorem shows what a dropped \<open>PUBREL\<close> leaves behind.
\<close>

subsection \<open>The schema fence\<close>

text \<open>The marker as the fence reads it, a field of a hash, and the changes a fenced operation may make: none,
  or one under a marker whose schema uses the changed fields.\<close>

definition marker_is :: "keyspace \<Rightarrow> int \<Rightarrow> bool" where
  "marker_is k schema \<longleftrightarrow>
     (case k redisIFMSchemaKey of
        None \<Rightarrow> schema = redisIFMSchemaLegacy
      | Some (RString v) \<Rightarrow> v = VStr (itoa_int schema)
      | _ \<Rightarrow> False)"

definition field_at :: "keyspace \<Rightarrow> string \<Rightarrow> string \<Rightarrow> rvalue option" where
  "field_at k key f = Option.bind (hash_at k key) (\<lambda>hs. map_of hs f)"

definition fenced_change :: "string \<Rightarrow> (int \<Rightarrow> string list) \<Rightarrow> keyspace \<times> keyspace \<Rightarrow> bool" where
  "fenced_change key fs = (\<lambda>(k, k'). k' = k \<or>
     (\<exists>schema. marker_is k schema \<and> (\<forall>key'. key' \<noteq> key \<longrightarrow> k' key' = k key')
        \<and> (\<forall>f. f \<notin> set (fs schema) \<longrightarrow> field_at k' key f = field_at k key f)))"

lemma itoa_int_one: "itoa_int schema = ''1'' \<longleftrightarrow> schema = 1"
proof
  assume a: "itoa_int schema = ''1''"
  show "schema = 1"
  proof (cases "schema < 0")
    case True
    then show ?thesis using a by (simp add: itoa_int_def)
  next
    case False
    have "itoa 1 = ''1''" by code_simp
    then have "itoa (nat schema) = itoa 1" using a False by (simp add: itoa_int_def)
    then show ?thesis by simp
  qed
next
  have "itoa_int 1 = ''1''" by code_simp
  then show "schema = 1 \<Longrightarrow> itoa_int schema = ''1''" by simp
qed

lemma fenced_cases:
  obtains "fenced schema rejected cmd k = (Inr rejected, k)" | "fenced schema rejected cmd k = (Inl RWrongType, k)"
  | "marker_is k schema" "fenced schema rejected cmd k = cmd k"
proof -
  have "fenced schema rejected cmd k = (Inr rejected, k) \<or> fenced schema rejected cmd k = (Inl RWrongType, k)
      \<or> marker_is k schema \<and> fenced schema rejected cmd k = cmd k"
    by (auto simp: fenced_def marker_is_def itoa_int_one redisIFMSchemaLegacy_def split: option.split robj.split)
  then show thesis using that by blast
qed

lemma map_of_filter_keys: "map_of (filter (\<lambda>(f, _). f \<notin> F) hs) f = (if f \<in> F then None else map_of hs f)"
  by (induction hs) auto

lemma field_at_put:
  "field_at (put_hash key hs k) key f = map_of hs f" "key' \<noteq> key \<Longrightarrow> put_hash key hs k key' = k key'"
  by (auto simp: field_at_def put_hash_def hash_at_def)

text \<open>Commands that change only the given fields of one hash.\<close>

definition touches :: "string \<Rightarrow> string list \<Rightarrow> 'a command \<Rightarrow> bool" where
  "touches key fs cmd \<longleftrightarrow>
     (\<forall>k. (\<forall>key'. key' \<noteq> key \<longrightarrow> snd (cmd k) key' = k key')
        \<and> (\<forall>f. f \<notin> set fs \<longrightarrow> field_at (snd (cmd k)) key f = field_at k key f))"

lemma touches_commands:
  "touches key [f] (cmd_ok (cmd_HSET key f v))" "touches key fs (cmd_ok (cmd_HDEL key fs))"
  "touches key [f] (\<lambda>k. case cmd_HSETNX key f v k of (Inl e, k') \<Rightarrow> (Inl e, k') | (Inr b, k') \<Rightarrow> (Inr (Some b), k'))"
  by (auto simp: touches_def cmd_ok_def cmd_HSET_def cmd_HDEL_def cmd_HSETNX_def field_at_put map_of_filter_keys update_conv
      split: option.split, auto simp: field_at_def)

lemma fenced_change_fenced:
  assumes "touches key (fs schema) cmd"
  shows "fenced_change key fs (k, snd (fenced schema rejected cmd k))"
  by (cases rule: fenced_cases[where schema = schema and rejected = rejected and cmd = cmd and k = k]) (use assms in \<open>auto simp: fenced_change_def touches_def\<close>)

lemma fenced_change_refl [simp]: "fenced_change key fs (k, k)"
  by (simp add: fenced_change_def)

lemma reads_fenced: "\<forall>(k, k')\<in>set l. k' = k \<Longrightarrow> \<forall>e\<in>set l. fenced_change key fs e"
  by (auto simp: fenced_change_def)

lemma quiet_refresh: "quiet refreshSchemaVersion"
proof -
  have r: "quiet readIFMSchema" unfolding readIFMSchema_def
    by (auto intro!: quiet_bind quiet_call quiet_return quiet_validate split: option.split)
  have "quiet (rbind readIFMSchema (\<lambda>schema. rbind (setSchemaVersion schema) (\<lambda>_. rreturn schema)))"
    by (intro quiet_bind r quiet_set quiet_return)
  then show ?thesis by (auto simp: quiet_def refreshSchemaVersion_def reading_refl)
qed

text \<open>An attempt: the changes it made respect the fence, and if it succeeded, some change was made and left the
  wanted result.\<close>

definition fence_ok ::
  "string \<Rightarrow> (int \<Rightarrow> string list) \<Rightarrow> (int \<Rightarrow> keyspace \<Rightarrow> bool) \<Rightarrow> (RedisSessionHook \<Rightarrow> (rerr + unit) \<times> RedisSessionHook) \<Rightarrow> bool" where
  "fence_ok key fs Q m \<longleftrightarrow>
     (\<forall>h r h'. m h = (r, h') \<longrightarrow>
        (\<exists>l. rd_log h' = rd_log h @ l \<and> (\<forall>e\<in>set l. fenced_change key fs e)
           \<and> (r = Inr () \<longrightarrow> (\<exists>k k' schema. (k, k') \<in> set l \<and> marker_is k schema \<and> Q schema k'))))"

lemma fence_ok_fail: "fence_ok key fs Q (rfail e)"
  by (simp add: fence_ok_def rfail_def)

lemma fence_ok_quiet:
  assumes "quiet m" "\<And>a. fence_ok key fs Q (f a)"
  shows "fence_ok key fs Q (rbind m f)"
  unfolding fence_ok_def
proof (intro allI impI)
  fix h r h' assume "rbind m f h = (r, h')"
  then show "\<exists>l. rd_log h' = rd_log h @ l \<and> (\<forall>e\<in>set l. fenced_change key fs e)
           \<and> (r = Inr () \<longrightarrow> (\<exists>k k' schema. (k, k') \<in> set l \<and> marker_is k schema \<and> Q schema k'))"
  proof (cases rule: rbind_cases)
    case (stop e)
    obtain l where "rd_log h' = rd_log h @ l" "\<forall>(k, k')\<in>set l. k' = k"
      using reading_log[OF quietD(1)[OF assms(1) stop(1)]] by (auto simp: log_reads_def)
    then show ?thesis using stop(2) reads_fenced by (intro exI[of _ l]) simp
  next
    case (go a s1)
    obtain l1 where l1: "rd_log s1 = rd_log h @ l1" "\<forall>(k, k')\<in>set l1. k' = k"
      using reading_log[OF quietD(1)[OF assms(1) go(1)]] by (auto simp: log_reads_def)
    obtain l2 where l2: "rd_log h' = rd_log s1 @ l2" "\<forall>e\<in>set l2. fenced_change key fs e"
        "r = Inr () \<longrightarrow> (\<exists>k k' schema. (k, k') \<in> set l2 \<and> marker_is k schema \<and> Q schema k')"
      using assms(2)[of a] go(2) unfolding fence_ok_def by blast
    show ?thesis using l1(1) l2 reads_fenced[OF l1(2), of key fs] by (intro exI[of _ "l1 @ l2"]) auto
  qed
qed

text \<open>A fenced command is followed either by the result it found or by another attempt.\<close>

lemma fenced_call:
  assumes "touches key (fs schema) cmd" "redis_call (fenced schema rejected cmd) h = (r, h')"
  shows "\<exists>l. rd_log h' = rd_log h @ l \<and> (\<forall>e\<in>set l. fenced_change key fs e)
     \<and> (\<forall>a. r = Inr a \<and> a \<noteq> rejected \<longrightarrow> (\<exists>k k'. (k, k') \<in> set l \<and> marker_is k schema \<and> cmd k = (Inr a, k')))"
proof -
  note step = assms(2)[unfolded redis_call_def]
  have ch: "fenced_change key fs (k, snd (fenced schema rejected cmd k))" for k
    by (rule fenced_change_fenced[where fs = fs, OF assms(1)])
  have acc: "marker_is k schema \<and> cmd k = (Inr a, snd (fenced schema rejected cmd k))"
    if "fst (fenced schema rejected cmd k) = Inr a" "a \<noteq> rejected" for k a
    using that by (cases rule: fenced_cases[where schema = schema and rejected = rejected and cmd = cmd and k = k])
      (auto intro: prod_eqI)
  show ?thesis
  proof (cases h rule: redis_step_cases[of "\<lambda>_. fenced schema rejected cmd"])
    case (served k w)
    then have "rd_log h' = rd_log h @ [(k, snd (fenced schema rejected cmd k))]" "r = fst (fenced schema rejected cmd k)"
      using step by auto
    then show ?thesis using ch[of k] acc[of k] by (intro exI[of _ "[(k, snd (fenced schema rejected cmd k))]"]) auto
  next
    case (lost k w)
    then show ?thesis using step by auto
  next
    case (reply_lost k w)
    then have "rd_log h' = rd_log h @ [(k, snd (fenced schema rejected cmd k))]" "r = Inl RNet" using step by auto
    then show ?thesis using ch[of k] by (intro exI[of _ "[(k, snd (fenced schema rejected cmd k))]"]) auto
  qed
qed

lemma fence_ok_retry:
  assumes t: "touches key (fs schema) cmd"
    and ok: "\<And>k a k'. cmd k = (Inr a, k') \<Longrightarrow> a \<noteq> rejected \<Longrightarrow> accept a \<Longrightarrow> Q schema k'"
    and again: "fence_ok key fs Q again"
    and m: "\<And>h. m h = (case redis_call (fenced schema rejected cmd) h of
        (Inl e, h') \<Rightarrow> (Inl e, h')
      | (Inr a, h') \<Rightarrow> if a = rejected then (if rh_configured h' \<noteq> 0 then (Inl RSchemaConflict, h') else again h')
                     else if accept a then (Inr (), h') else (Inl e0, h'))"
  shows "fence_ok key fs Q m"
  unfolding fence_ok_def
proof (intro allI impI)
  fix h r h' assume run: "m h = (r, h')"
  obtain x h1 where x: "redis_call (fenced schema rejected cmd) h = (x, h1)" by fastforce
  obtain l where l: "rd_log h1 = rd_log h @ l" "\<forall>e\<in>set l. fenced_change key fs e"
    "\<And>a. x = Inr a \<Longrightarrow> a \<noteq> rejected \<Longrightarrow> \<exists>k k'. (k, k') \<in> set l \<and> marker_is k schema \<and> cmd k = (Inr a, k')"
    using fenced_call[where fs = fs, OF t x] by blast
  show "\<exists>l. rd_log h' = rd_log h @ l \<and> (\<forall>e\<in>set l. fenced_change key fs e)
           \<and> (r = Inr () \<longrightarrow> (\<exists>k k' schema. (k, k') \<in> set l \<and> marker_is k schema \<and> Q schema k'))"
  proof (cases "x = Inr rejected \<and> rh_configured h1 = 0")
    case True
    then have "again h1 = (r, h')" using run m x by auto
    then obtain l2 where "rd_log h' = rd_log h1 @ l2" "\<forall>e\<in>set l2. fenced_change key fs e"
        "r = Inr () \<longrightarrow> (\<exists>k k' schema. (k, k') \<in> set l2 \<and> marker_is k schema \<and> Q schema k')"
      using again unfolding fence_ok_def by blast
    then show ?thesis using l by (intro exI[of _ "l @ l2"]) auto
  next
    case False
    then have h: "h' = h1" "r = Inr () \<Longrightarrow> \<exists>a. x = Inr a \<and> a \<noteq> rejected \<and> accept a"
      using run m x by (auto split: sum.splits if_splits)
    have "\<exists>k k' schema. (k, k') \<in> set l \<and> marker_is k schema \<and> Q schema k'" if "r = Inr ()"
      using h(2)[OF that] l(3) ok by blast
    then show ?thesis using l(1,2) h(1) by (intro exI[of _ l]) auto
  qed
qed

text \<open>The fields the operations use under a schema.\<close>

definition publish_fields :: "MqttPacket \<Rightarrow> int \<Rightarrow> string list" where
  "publish_fields pk schema = [if schema = redisIFMSchemaV2 then inflightFieldKey pk else FormatID pk]"

definition delete_fields :: "MqttPacket \<Rightarrow> bool \<Rightarrow> int \<Rightarrow> string list" where
  "delete_fields pk dropped schema =
     (if schema = redisIFMSchemaV2
      then [if dropped then inflightDroppedFieldKey pk else inflightCompletionFieldKey pk, FormatID pk] else [FormatID pk])"

lemma field_at_HSET: "cmd_ok (cmd_HSET key f v) k = (Inr a, k') \<Longrightarrow> a \<and> field_at k' key f = Some v"
  by (auto simp: cmd_ok_def cmd_HSET_def field_at_put update_conv split: option.splits)

lemma field_at_HDEL: "cmd_ok (cmd_HDEL key fs) k = (Inr a, k') \<Longrightarrow> a \<and> (\<forall>f\<in>set fs. field_at k' key f = None)"
  by (auto simp: cmd_ok_def cmd_HDEL_def field_at_put map_of_filter_keys split: option.splits)

lemma fenced_no_schema_error:
  "redis_call (fenced schema rejected (cmd_ok (cmd_HSET key f v))) h \<noteq> (Inl RSchemaChanged, h')"
  by (auto dest!: call_error simp: fenced_def cmd_ok_def cmd_HSET_def split: option.splits robj.splits if_splits)

lemma publish_attempts_fence:
  "fence_ok (redisInflightKey c) (publish_fields pk)
     (\<lambda>schema k'. \<forall>f\<in>set (publish_fields pk schema). field_at k' (redisInflightKey c) f = Some (stored_message c pk sent f))
     (publish_attempts n schema c pk sent)"
proof (induction n arbitrary: schema)
  case 0
  show ?case by (simp only: publish_attempts.simps fence_ok_fail)
next
  case (Suc n)
  define f where "f = (if schema = redisIFMSchemaV2 then inflightFieldKey pk else FormatID pk)"
  define cmd where "cmd = cmd_ok (cmd_HSET (redisInflightKey c) f (stored_message c pk sent f))"
  define again where "again = rbind refreshSchemaVersion (\<lambda>schema'. publish_attempts n schema' c pk sent)"
  have pf: "publish_fields pk schema = [f]" by (simp add: publish_fields_def f_def)
  have m: "publish_attempts (Suc n) schema c pk sent h = (case redis_call (fenced schema False cmd) h of
        (Inl e, h') \<Rightarrow> (Inl e, h')
      | (Inr a, h') \<Rightarrow> if a = False then (if rh_configured h' \<noteq> 0 then (Inl RSchemaConflict, h') else again h')
                     else if id a then (Inr (), h') else (Inl RNet, h'))" for h
    using fenced_no_schema_error[of schema False "redisInflightKey c" f "stored_message c pk sent f" h]
    by (auto simp: fencedHSet_def rbind_def[of "redis_call _"] schemaMismatchError_def Let_def f_def[symmetric] cmd_def again_def[symmetric]
        split: sum.split prod.split)
  show ?case
  proof (rule fence_ok_retry[OF _ _ _ m])
    show "touches (redisInflightKey c) (publish_fields pk schema) cmd" by (simp add: pf cmd_def touches_commands)
    show "\<forall>f\<in>set (publish_fields pk schema). field_at k' (redisInflightKey c) f = Some (stored_message c pk sent f)"
      if "cmd k = (Inr a, k')" for k a k' using field_at_HSET that by (auto simp: pf cmd_def)
    show "fence_ok (redisInflightKey c) (publish_fields pk)
     (\<lambda>schema k'. \<forall>f\<in>set (publish_fields pk schema). field_at k' (redisInflightKey c) f = Some (stored_message c pk sent f)) again"
      unfolding again_def by (intro fence_ok_quiet quiet_refresh Suc)
  qed
qed

lemma delete_attempts_fence:
  "fence_ok (redisInflightKey c) (delete_fields pk dropped)
     (\<lambda>schema k'. \<forall>f\<in>set (delete_fields pk dropped schema). field_at k' (redisInflightKey c) f = None)
     (delete_attempts n schema c pk dropped)"
proof (induction n arbitrary: schema)
  case 0
  show ?case by (simp only: delete_attempts.simps fence_ok_fail)
next
  case (Suc n)
  define cmd where "cmd = cmd_ok (cmd_HDEL (redisInflightKey c) (delete_fields pk dropped schema))"
  define again where "again = rbind refreshSchemaVersion (\<lambda>schema'. delete_attempts n schema' c pk dropped)"
  have m: "delete_attempts (Suc n) schema c pk dropped h = (case redis_call (fenced schema False cmd) h of
        (Inl e, h') \<Rightarrow> (Inl e, h')
      | (Inr a, h') \<Rightarrow> if a = False then (if rh_configured h' \<noteq> 0 then (Inl RSchemaConflict, h') else again h')
                     else if id a then (Inr (), h') else (Inl RNet, h'))" for h
    by (auto simp: rbind_def[of "redis_call _"] schemaMismatchError_def Let_def cmd_def delete_fields_def[symmetric] again_def[symmetric]
        split: sum.split prod.split)
  show ?case
  proof (rule fence_ok_retry[OF _ _ _ m])
    show "touches (redisInflightKey c) (delete_fields pk dropped schema) cmd" by (simp add: cmd_def touches_commands)
    show "\<forall>f\<in>set (delete_fields pk dropped schema). field_at k' (redisInflightKey c) f = None"
      if "cmd k = (Inr a, k')" for k a k' using field_at_HDEL that by (auto simp: cmd_def)
    show "fence_ok (redisInflightKey c) (delete_fields pk dropped)
     (\<lambda>schema k'. \<forall>f\<in>set (delete_fields pk dropped schema). field_at k' (redisInflightKey c) f = None) again"
      unfolding again_def by (intro fence_ok_quiet quiet_refresh Suc)
  qed
qed

lemma field_at_HSETNX:
  assumes "(case cmd_HSETNX key f v k of (Inl e, k') \<Rightarrow> (Inl e, k') | (Inr b, k') \<Rightarrow> (Inr (Some b), k')) = (Inr (Some True), k')"
  shows "field_at k' key f = Some v"
  using assms by (auto simp: cmd_HSETNX_def field_at_put update_conv split: option.splits if_splits)

lemma enqueue_attempts_fence:
  "fence_ok (redisInflightKey c) (\<lambda>schema. [offline_field schema pid])
     (\<lambda>schema k'. field_at k' (redisInflightKey c) (offline_field schema pid) = Some data)
     (enqueue_attempts n schema c pid data)"
proof (induction n arbitrary: schema)
  case 0
  show ?case by (simp only: enqueue_attempts.simps fence_ok_fail)
next
  case (Suc n)
  define cmd where "cmd = (\<lambda>k. case cmd_HSETNX (redisInflightKey c) (offline_field schema pid) data k of
      (Inl e, k') \<Rightarrow> (Inl e, k') | (Inr b, k') \<Rightarrow> (Inr (Some b), k'))"
  define again where "again = rbind refreshSchemaVersion (\<lambda>schema'. enqueue_attempts n schema' c pid data)"
  have no: "redis_call (fenced schema None cmd) h \<noteq> (Inl RSchemaChanged, h')" for h h'
    by (auto dest!: call_error simp: fenced_def cmd_def cmd_HSETNX_def split: option.splits robj.splits if_splits)
  have m: "enqueue_attempts (Suc n) schema c pid data h = (case redis_call (fenced schema None cmd) h of
        (Inl e, h') \<Rightarrow> (Inl e, h')
      | (Inr a, h') \<Rightarrow> if a = None then (if rh_configured h' \<noteq> 0 then (Inl RSchemaConflict, h') else again h')
                     else if a = Some True then (Inr (), h') else (Inl RInUse, h'))" for h
    using no[of h] by (auto simp: fencedHSetNX_def rbind_def[of "redis_call _"] schemaMismatchError_def cmd_def[symmetric]
        again_def[symmetric] split: sum.split prod.split option.split)
  show ?case
  proof (rule fence_ok_retry[OF _ _ _ m])
    show "touches (redisInflightKey c) [offline_field schema pid] cmd" by (simp add: cmd_def touches_commands)
    show "field_at k' (redisInflightKey c) (offline_field schema pid) = Some data"
      if "cmd k = (Inr a, k')" "a = Some True" for k a k'
      using that field_at_HSETNX by (auto simp: cmd_def)
    show "fence_ok (redisInflightKey c) (\<lambda>schema. [offline_field schema pid])
     (\<lambda>schema k'. field_at k' (redisInflightKey c) (offline_field schema pid) = Some data) again"
      unfolding again_def by (intro fence_ok_quiet quiet_refresh Suc)
  qed
qed

lemma fence_ok_state: "(\<And>x. fence_ok key fs Q (m x)) \<Longrightarrow> fence_ok key fs Q (\<lambda>h. m (g h) h)"
  unfolding fence_ok_def by blast

text \<open>C4. The schema fence. Whatever schema a gateway believes in, whatever other gateways do between its calls
  and whatever calls are lost, storing, completing, dropping and enqueueing an inflight message change only
  the fields that the schema in force at that moment uses for it, and nothing when the marker is another
  one. When such an operation reports success, a change was made under the schema of the marker and left
  the message stored, or its fields removed. An inbound acknowledgement of QoS 1 touches nothing.\<close>

theorem redis_schema_fence:
  fixes c pk sent now pid msg
  defines "key \<equiv> redisInflightKey c"
  shows "(\<not> (mp_InboundFlow pk \<and> mp_Type pk = Puback) \<longrightarrow>
        fence_ok key (publish_fields pk)
          (\<lambda>schema k'. \<forall>f\<in>set (publish_fields pk schema). field_at k' key f = Some (stored_message c pk sent f))
          (OnQosPublishResult c pk sent)
      \<and> fence_ok key (delete_fields pk False)
          (\<lambda>schema k'. \<forall>f\<in>set (delete_fields pk False schema). field_at k' key f = None) (OnQosCompleteResult c pk))
    \<and> (mp_InboundFlow pk \<and> mp_Type pk = Puback \<longrightarrow>
        OnQosPublishResult c pk sent h = (Inr (), h) \<and> OnQosCompleteResult c pk h = (Inr (), h))
    \<and> fence_ok key (delete_fields pk True)
        (\<lambda>schema k'. \<forall>f\<in>set (delete_fields pk True schema). field_at k' key f = None) (OnQosDroppedResult c pk)
    \<and> fence_ok key (\<lambda>schema. [offline_field schema pid])
        (\<lambda>schema k'. field_at k' key (offline_field schema pid) = Some (marshalOfflineInflight now c pid msg))
        (EnqueueOfflineInflight now c pid msg)"
  unfolding key_def
proof (intro conjI impI)
  assume no: "\<not> (mp_InboundFlow pk \<and> mp_Type pk = Puback)"
  have "OnQosPublishResult c pk sent = (\<lambda>h. publish_attempts 2 (schemaVersion h) c pk sent h)"
    using no by (auto simp: OnQosPublishResult_def)
  then show "fence_ok (redisInflightKey c) (publish_fields pk)
          (\<lambda>schema k'. \<forall>f\<in>set (publish_fields pk schema). field_at k' (redisInflightKey c) f = Some (stored_message c pk sent f))
          (OnQosPublishResult c pk sent)"
    by (simp only:) (rule fence_ok_state[OF publish_attempts_fence])
  have "OnQosCompleteResult c pk = (\<lambda>h. delete_attempts 2 (schemaVersion h) c pk False h)"
    using no by (auto simp: OnQosCompleteResult_def deleteInflight_def)
  then show "fence_ok (redisInflightKey c) (delete_fields pk False)
          (\<lambda>schema k'. \<forall>f\<in>set (delete_fields pk False schema). field_at k' (redisInflightKey c) f = None) (OnQosCompleteResult c pk)"
    by (simp only:) (rule fence_ok_state[OF delete_attempts_fence])
next
  have "OnQosDroppedResult c pk = (\<lambda>h. delete_attempts 2 (schemaVersion h) c pk True h)"
    by (auto simp: OnQosDroppedResult_def deleteInflight_def)
  then show "fence_ok (redisInflightKey c) (delete_fields pk True)
        (\<lambda>schema k'. \<forall>f\<in>set (delete_fields pk True schema). field_at k' (redisInflightKey c) f = None) (OnQosDroppedResult c pk)"
    by (simp only:) (rule fence_ok_state[OF delete_attempts_fence])
  show "fence_ok (redisInflightKey c) (\<lambda>schema. [offline_field schema pid])
        (\<lambda>schema k'. field_at k' (redisInflightKey c) (offline_field schema pid) = Some (marshalOfflineInflight now c pid msg))
        (EnqueueOfflineInflight now c pid msg)"
    unfolding EnqueueOfflineInflight_def by (intro fence_ok_quiet quiet_refresh enqueue_attempts_fence)
qed (simp_all add: OnQosPublishResult_def OnQosCompleteResult_def)

definition fence_packet :: MqttPacket where
  "fence_packet = \<lparr>mp_Type = 3, mp_PacketID = 5, mp_Qos = 1, mp_TopicName = ''t'', mp_Payload = ''p'', mp_Created = 0,
     mp_InboundFlow = False\<rparr>"

definition fence_state :: RedisSessionHook where
  "fence_state = \<lparr>rd_ks = Map.empty, rd_world = [(Served, \<lambda>k. k(redisIFMSchemaKey \<mapsto> RString (VStr ''2'')))],
     rd_touched = (\<lambda>_. False), rd_log = [], rh_ifmSchema = 1, rh_configured = 0\<rparr>"

lemma redis_schema_fence_witness:
  "fst (OnQosPublishResult ''c'' fence_packet 9 fence_state) = Inr ()
   \<and> (\<exists>k k' schema. (k, k') \<in> set (rd_log (snd (OnQosPublishResult ''c'' fence_packet 9 fence_state))) \<and> marker_is k schema \<and>
      (\<forall>f\<in>set (publish_fields fence_packet schema). field_at k' (redisInflightKey ''c'') f = Some (stored_message ''c'' fence_packet 9 f)))"
proof
  show r: "fst (OnQosPublishResult ''c'' fence_packet 9 fence_state) = Inr ()" by code_simp
  obtain h' where run: "OnQosPublishResult ''c'' fence_packet 9 fence_state = (Inr (), h')"
    using r by (metis prod.collapse)
  have np: "\<not> (mp_InboundFlow fence_packet \<and> mp_Type fence_packet = Puback)" by (simp add: fence_packet_def)
  have "rd_log fence_state = []" by (simp add: fence_state_def)
  then show "\<exists>k k' schema. (k, k') \<in> set (rd_log (snd (OnQosPublishResult ''c'' fence_packet 9 fence_state))) \<and> marker_is k schema \<and>
      (\<forall>f\<in>set (publish_fields fence_packet schema). field_at k' (redisInflightKey ''c'') f = Some (stored_message ''c'' fence_packet 9 f))"
    using redis_schema_fence[THEN conjunct1, THEN mp, OF np, THEN conjunct1, unfolded fence_ok_def, THEN spec, THEN spec, THEN spec,
        THEN mp, OF run] run by auto
qed


lemma directional_keys:
  "inflightFieldKey pk = inflightDroppedFieldKey pk \<longleftrightarrow> mp_Type pk \<noteq> Pubrel" "inflightFieldKey pk \<noteq> FormatID pk"
proof -
  have "CHR '':'' \<notin> set (itoa n)" for n using itoa_digits[of "CHR '':''" n] by auto
  moreover have "inflightFieldKey pk = a @ FormatID pk \<Longrightarrow> CHR '':'' \<in> set (inflightFieldKey pk)" for a
    by (auto simp: inflightFieldKey_def split: if_splits)
  ultimately show "inflightFieldKey pk \<noteq> FormatID pk" by (metis FormatID_def append_Nil)
  show "inflightFieldKey pk = inflightDroppedFieldKey pk \<longleftrightarrow> mp_Type pk \<noteq> Pubrel"
    by (auto simp: inflightFieldKey_def inflightDroppedFieldKey_def isInboundInflightPacket_def Puback_def Pubrec_def Pubrel_def Pubcomp_def)
qed

lemma fenced_alone:
  assumes "rd_world h = []" "rd_ks h redisIFMSchemaKey = Some (RString (VStr ''2''))"
  shows "redis_call (fenced 2 rejected cmd) h =
    (fst (cmd (rd_ks h)), h\<lparr>rd_ks := snd (cmd (rd_ks h)), rd_log := rd_log h @ [(rd_ks h, snd (cmd (rd_ks h)))]\<rparr>)"
proof -
  have "itoa_int 2 = ''2''" by code_simp
  then show ?thesis using assms by (simp add: call_alone fenced_def)
qed

text \<open>A message stored under schema 2 and then dropped, undisturbed: it is gone, unless it is a \<open>PUBREL\<close>,
  which stays in the store because the drop looks for it among the inbound fields.\<close>

theorem dropped_pubrel_stays:
  assumes "rd_world h = []" "rd_ks h redisIFMSchemaKey = Some (RString (VStr ''2''))" "rh_ifmSchema h = 2"
    and "hash_at (rd_ks h) (redisInflightKey c) \<noteq> None" "redisInflightKey c \<noteq> redisIFMSchemaKey"
    and "\<not> (mp_InboundFlow pk \<and> mp_Type pk = Puback)"
    and "OnQosPublishResult c pk sent h = (r1, h1)" "OnQosDroppedResult c pk h1 = (r2, h2)"
  shows "r1 = Inr () \<and> r2 = Inr ()
    \<and> field_at (rd_ks h1) (redisInflightKey c) (inflightFieldKey pk) = Some (stored_message c pk sent (inflightFieldKey pk))
    \<and> field_at (rd_ks h2) (redisInflightKey c) (inflightFieldKey pk) =
        (if mp_Type pk = Pubrel then Some (stored_message c pk sent (inflightFieldKey pk)) else None)"
proof -
  define key where "key = redisInflightKey c"
  define f where "f = inflightFieldKey pk"
  define v where "v = stored_message c pk sent f"
  obtain hs where hs: "hash_at (rd_ks h) key = Some hs" using assms(4) by (auto simp: key_def)
  have s: "schemaVersion h = 2" using assms(3) by (simp add: schemaVersion_def redisIFMSchemaV2_def)
  have p: "OnQosPublishResult c pk sent h = (Inr (), h\<lparr>rd_ks := put_hash key (AList.update f v hs) (rd_ks h),
      rd_log := rd_log h @ [(rd_ks h, put_hash key (AList.update f v hs) (rd_ks h))]\<rparr>)"
    using assms(6) hs
    by (auto simp: OnQosPublishResult_def s numeral_2_eq_2 fencedHSet_def rbind_def fenced_alone[OF assms(1,2)]
        redisIFMSchemaV2_def Let_def cmd_ok_def cmd_HSET_def key_def f_def v_def)
  then have h1: "r1 = Inr ()" "h1 = h\<lparr>rd_ks := put_hash key (AList.update f v hs) (rd_ks h),
      rd_log := rd_log h @ [(rd_ks h, put_hash key (AList.update f v hs) (rd_ks h))]\<rparr>"
    using assms(7) by auto
  define hs1 where "hs1 = AList.update f v hs"
  have k1: "rd_world h1 = []" "rd_ks h1 redisIFMSchemaKey = Some (RString (VStr ''2''))" "schemaVersion h1 = 2"
    "hash_at (rd_ks h1) key = Some hs1"
    using assms(1,2,5) s by (auto simp: h1(2) put_hash_def hash_at_def key_def schemaVersion_def hs1_def)
  define D where "D = {inflightDroppedFieldKey pk, FormatID pk}"
  have d: "OnQosDroppedResult c pk h1 = (Inr (), h1\<lparr>rd_ks := put_hash key (filter (\<lambda>(f, _). f \<notin> D) hs1) (rd_ks h1),
      rd_log := rd_log h1 @ [(rd_ks h1, put_hash key (filter (\<lambda>(f, _). f \<notin> D) hs1) (rd_ks h1))]\<rparr>)"
    using k1(4)
    by (simp add: OnQosDroppedResult_def deleteInflight_def k1(3) numeral_2_eq_2 rbind_def fenced_alone[OF k1(1,2)]
        redisIFMSchemaV2_def Let_def cmd_ok_def cmd_HDEL_def key_def D_def)
  have "field_at (rd_ks h2) key f = (if mp_Type pk = Pubrel then Some v else None)"
    using d assms(8) directional_keys[of pk]
    by (auto simp: field_at_put map_of_filter_keys hs1_def update_conv f_def) (simp_all add: D_def)
  moreover have "field_at (rd_ks h1) key f = Some v" by (simp add: h1(2) field_at_put update_conv)
  ultimately show ?thesis using h1(1) d assms(8) by (simp add: key_def f_def v_def)
qed

definition pubrel_packet :: MqttPacket where
  "pubrel_packet = \<lparr>mp_Type = 6, mp_PacketID = 9, mp_Qos = 1, mp_TopicName = '''', mp_Payload = '''', mp_Created = 0,
     mp_InboundFlow = False\<rparr>"

definition pubrel_state :: RedisSessionHook where
  "pubrel_state = \<lparr>rd_ks = [redisIFMSchemaKey \<mapsto> RString (VStr ''2'')], rd_world = [], rd_touched = (\<lambda>_. False), rd_log = [],
     rh_ifmSchema = 2, rh_configured = 0\<rparr>"

lemma dropped_pubrel_stays_witness:
  "field_at (rd_ks (snd (OnQosDroppedResult ''c'' pubrel_packet (snd (OnQosPublishResult ''c'' pubrel_packet 0 pubrel_state)))))
     (redisInflightKey ''c'') ''out:9'' \<noteq> None"
proof -
  have f: "inflightFieldKey pubrel_packet = ''out:9''" "redisInflightKey ''c'' \<noteq> redisIFMSchemaKey"
    "mp_Type pubrel_packet = Pubrel" by code_simp+
  obtain r1 h1 where 1: "OnQosPublishResult ''c'' pubrel_packet 0 pubrel_state = (r1, h1)" by fastforce
  obtain r2 h2 where 2: "OnQosDroppedResult ''c'' pubrel_packet h1 = (r2, h2)" by fastforce
  have "field_at (rd_ks h2) (redisInflightKey ''c'') (inflightFieldKey pubrel_packet) \<noteq> None"
    using dropped_pubrel_stays[OF _ _ _ _ f(2) _ 1 2] f
    by (simp add: pubrel_state_def hash_at_def pubrel_packet_def)
  then show ?thesis using 1 2 f by simp
qed

end
