(* ===== verification/RedisTypes.thy ===== *)
theory RedisTypes
  imports RedisFence
begin

text \<open>
  The type invariant of the persisted session store, kept by every single change a hook makes, and the
  inventory of offline sessions, which on a well-typed store ends and returns every offline session.
\<close>

subsection \<open>Types of the stored objects\<close>

definition key_ok :: "string \<Rightarrow> robj option \<Rightarrow> bool" where
  "key_ok key v \<longleftrightarrow>
     (\<forall>c. key = redisClientKey c \<longrightarrow> v = None \<or> (\<exists>cl. v = Some (RString (VClient cl)) \<and> sc_ID cl = c)) \<and>
     (\<forall>c. key = redisLastSeenKey c \<longrightarrow> v = None \<or> (\<exists>t. v = Some (RString (VTime t)))) \<and>
     (\<forall>c. key = redisSubKey c \<longrightarrow> v = None \<or> (\<exists>hs. v = Some (RHash hs) \<and>
        (\<forall>(f, w)\<in>set hs. \<exists>q. w = VSub \<lparr>st_Client = c, st_Filter = f, st_Qos = q\<rparr>))) \<and>
     (\<forall>c. key = redisInflightKey c \<and> key \<noteq> redisIFMSchemaKey \<longrightarrow> v = None \<or> (\<exists>hs. v = Some (RHash hs) \<and>
        (\<forall>(f, w)\<in>set hs. \<exists>m. w = VMsg m))) \<and>
     (\<forall>c. key = redisPacketIDKey c \<longrightarrow> v = None \<or> (\<exists>n\<ge>0. v = Some (RString (VStr (itoa_int n))))) \<and>
     (key = redisClientIndex \<longrightarrow> v = None \<or> (\<exists>ms. v = Some (RSet ms))) \<and>
     (key = redisIFMSchemaKey \<longrightarrow> v = None \<or> v = Some (RString (VStr ''1'')) \<or> v = Some (RString (VStr ''2'')))"

definition redis_typed :: "keyspace \<Rightarrow> bool" where
  "redis_typed k \<longleftrightarrow> (\<forall>key. key_ok key (k key))"

definition keeps_types :: "keyspace \<times> keyspace \<Rightarrow> bool" where
  "keeps_types = (\<lambda>(k, k'). redis_typed k \<longrightarrow> redis_typed k')"

lemma redis_keys_eq [simp]:
  "redisClientKey c = redisClientKey d \<longleftrightarrow> c = d" "redisLastSeenKey c = redisLastSeenKey d \<longleftrightarrow> c = d"
  "redisSubKey c = redisSubKey d \<longleftrightarrow> c = d" "redisInflightKey c = redisInflightKey d \<longleftrightarrow> c = d"
  "redisPacketIDKey c = redisPacketIDKey d \<longleftrightarrow> c = d"
  by (auto simp: redisClientKey_def redisLastSeenKey_def redisSubKey_def redisInflightKey_def redisPacketIDKey_def
      redisClientToken_def EncodeToString_inject)

lemma redis_keys_neq [simp]:
  "redisClientKey c \<noteq> redisLastSeenKey d" "redisClientKey c \<noteq> redisSubKey d" "redisClientKey c \<noteq> redisInflightKey d"
  "redisClientKey c \<noteq> redisPacketIDKey d" "redisClientKey c \<noteq> redisClientIndex" "redisClientKey c \<noteq> redisIFMSchemaKey"
  "redisLastSeenKey c \<noteq> redisClientKey d" "redisLastSeenKey c \<noteq> redisSubKey d" "redisLastSeenKey c \<noteq> redisInflightKey d"
  "redisLastSeenKey c \<noteq> redisPacketIDKey d" "redisLastSeenKey c \<noteq> redisClientIndex" "redisLastSeenKey c \<noteq> redisIFMSchemaKey"
  "redisSubKey c \<noteq> redisClientKey d" "redisSubKey c \<noteq> redisLastSeenKey d" "redisSubKey c \<noteq> redisInflightKey d"
  "redisSubKey c \<noteq> redisPacketIDKey d" "redisSubKey c \<noteq> redisClientIndex" "redisSubKey c \<noteq> redisIFMSchemaKey"
  "redisInflightKey c \<noteq> redisClientKey d" "redisInflightKey c \<noteq> redisLastSeenKey d" "redisInflightKey c \<noteq> redisSubKey d"
  "redisInflightKey c \<noteq> redisPacketIDKey d" "redisInflightKey c \<noteq> redisClientIndex"
  "redisPacketIDKey c \<noteq> redisClientKey d" "redisPacketIDKey c \<noteq> redisLastSeenKey d" "redisPacketIDKey c \<noteq> redisSubKey d"
  "redisPacketIDKey c \<noteq> redisInflightKey d" "redisPacketIDKey c \<noteq> redisClientIndex" "redisPacketIDKey c \<noteq> redisIFMSchemaKey"
  "redisClientIndex \<noteq> redisClientKey d" "redisClientIndex \<noteq> redisLastSeenKey d" "redisClientIndex \<noteq> redisSubKey d"
  "redisClientIndex \<noteq> redisInflightKey d" "redisClientIndex \<noteq> redisPacketIDKey d" "redisClientIndex \<noteq> redisIFMSchemaKey"
  "dedup_key p c \<noteq> redisClientKey d" "dedup_key p c \<noteq> redisLastSeenKey d" "dedup_key p c \<noteq> redisSubKey d"
  "dedup_key p c \<noteq> redisInflightKey d" "dedup_key p c \<noteq> redisPacketIDKey d" "dedup_key p c \<noteq> redisClientIndex"
  "dedup_key p c \<noteq> redisIFMSchemaKey"
  by (simp_all add: redisClientKey_def redisLastSeenKey_def redisSubKey_def redisInflightKey_def redisPacketIDKey_def
      redisClientIndex_def redisIFMSchemaKey_def redisKeyPrefix_def dedup_key_def redisDedupKeyPrefix_def)

lemma typed_upd: "redis_typed k \<Longrightarrow> key_ok key v \<Longrightarrow> redis_typed (k(key := v))"
  by (simp add: redis_typed_def)

lemma key_ok_None [simp]: "key_ok key None"
  by (simp add: key_ok_def)

lemma key_ok_dedup [simp]: "key_ok (dedup_key p c) v"
  by (simp add: key_ok_def)

lemma typed_inflight:
  assumes "redis_typed k" "redisInflightKey c \<noteq> redisIFMSchemaKey" "hash_at k (redisInflightKey c) = Some hs" "(f, w) \<in> set hs"
  shows "\<exists>m. w = VMsg m"
proof -
  have "key_ok (redisInflightKey c) (k (redisInflightKey c))" using assms(1) by (simp add: redis_typed_def)
  then show ?thesis using assms(2-4) unfolding key_ok_def hash_at_def by (auto split: option.splits robj.splits)
qed

lemma typed_sub:
  assumes "redis_typed k" "hash_at k (redisSubKey c) = Some hs" "(f, w) \<in> set hs"
  shows "\<exists>q. w = VSub \<lparr>st_Client = c, st_Filter = f, st_Qos = q\<rparr>"
proof -
  have "key_ok (redisSubKey c) (k (redisSubKey c))" using assms(1) by (simp add: redis_typed_def)
  then show ?thesis using assms(2,3) unfolding key_ok_def hash_at_def by (auto split: option.splits robj.splits)
qed

lemma set_update: "(f, w) \<in> set (AList.update g v hs) \<Longrightarrow> (f, w) = (g, v) \<or> (f, w) \<in> set hs"
  by (induction hs) (auto split: if_splits)

lemma typed_put_inflight:
  assumes "redis_typed k" "\<And>f w. (f, w) \<in> set hs \<Longrightarrow> \<exists>m. w = VMsg m" "redisInflightKey c \<noteq> redisIFMSchemaKey"
  shows "redis_typed (put_hash (redisInflightKey c) hs k)"
  unfolding put_hash_def by (rule typed_upd[OF assms(1)]) (use assms(2,3) in \<open>auto simp: key_ok_def\<close>)

lemma typed_put_sub:
  assumes "redis_typed k" "\<And>f w. (f, w) \<in> set hs \<Longrightarrow> \<exists>q. w = VSub \<lparr>st_Client = c, st_Filter = f, st_Qos = q\<rparr>"
  shows "redis_typed (put_hash (redisSubKey c) hs k)"
  unfolding put_hash_def by (rule typed_upd[OF assms(1)]) (use assms(2) in \<open>auto simp: key_ok_def\<close>)

lemma itoa_int_inject: "0 \<le> m \<Longrightarrow> itoa_int i = itoa_int m \<Longrightarrow> i = m"
proof -
  assume m: "0 \<le> m" and e: "itoa_int i = itoa_int m"
  have d: "hd (itoa n) \<in> set ''0123456789''" for n by (rule itoa_digits, rule hd_in_set) simp
  have "hd (itoa n) \<noteq> CHR ''-''" for n using d[of n] by (intro notI) simp
  then have "CHR ''-'' # s \<noteq> itoa n" for s n by (metis list.sel(1))
  then have "0 \<le> i" using m e by (cases "i < 0") (auto simp: itoa_int_def)
  then show "i = m" using m e by (simp add: itoa_int_def)
qed

lemma typed_counter:
  assumes "redis_typed k" "counter_at k (redisPacketIDKey c) = Some n"
  shows "0 \<le> n"
proof -
  have "key_ok (redisPacketIDKey c) (k (redisPacketIDKey c))" using assms(1) by (simp add: redis_typed_def)
  then consider "k (redisPacketIDKey c) = None" | m where "m \<ge> 0" "k (redisPacketIDKey c) = Some (RString (VStr (itoa_int m)))"
    unfolding key_ok_def by auto
  then show ?thesis
  proof cases
    case 1
    then show ?thesis using assms(2) by (simp add: counter_at_def)
  next
    case 2
    then have "go_atoi (itoa (nat m)) = Some n" using assms(2) by (simp add: counter_at_def itoa_int_def)
    moreover obtain c r where "itoa (nat m) = c # r" by (cases "itoa (nat m)") auto
    moreover from this have "c \<noteq> CHR ''-''" using itoa_digits[of c "nat m"] by auto
    ultimately show ?thesis by (auto simp: go_atoi_def bind_eq_Some_conv split: if_splits)
  qed
qed

text \<open>Each command the hooks send keeps the types.\<close>

lemma typed_fenced: "(redis_typed k \<Longrightarrow> redis_typed (snd (cmd k))) \<Longrightarrow> keeps_types (k, snd (fenced schema rejected cmd k))"
  by (cases rule: fenced_cases[where schema = schema and rejected = rejected and cmd = cmd and k = k]) (auto simp: keeps_types_def)

lemma keeps_types_fenced_commands:
  assumes "redisInflightKey c \<noteq> redisIFMSchemaKey"
  shows "keeps_types (k, snd (fenced schema r1 (cmd_ok (cmd_HSET (redisInflightKey c) f (VMsg m))) k))"
    "keeps_types (k, snd (fenced schema r1 (cmd_ok (cmd_HDEL (redisInflightKey c) fs)) k))"
    "keeps_types (k, snd (fenced schema r2 (\<lambda>k. case cmd_HSETNX (redisInflightKey c) f (VMsg m) k of
        (Inl e, k') \<Rightarrow> (Inl e, k') | (Inr b, k') \<Rightarrow> (Inr (Some b), k')) k))"
    "keeps_types (k, snd (migrateLegacyInflightFieldScript (redisInflightKey c) f g k))"
proof -
  note put = typed_put_inflight[OF _ _ assms] and old = typed_inflight[OF _ assms]
  show "keeps_types (k, snd (fenced schema r1 (cmd_ok (cmd_HSET (redisInflightKey c) f (VMsg m))) k))"
    by (rule typed_fenced) (auto simp: cmd_ok_def cmd_HSET_def split: option.split intro!: put dest!: set_update dest: old)
  show "keeps_types (k, snd (fenced schema r1 (cmd_ok (cmd_HDEL (redisInflightKey c) fs)) k))"
    by (rule typed_fenced) (auto simp: cmd_ok_def cmd_HDEL_def split: option.split intro!: put dest: old)
  show "keeps_types (k, snd (fenced schema r2 (\<lambda>k. case cmd_HSETNX (redisInflightKey c) f (VMsg m) k of
        (Inl e, k') \<Rightarrow> (Inl e, k') | (Inr b, k') \<Rightarrow> (Inr (Some b), k')) k))"
    by (rule typed_fenced) (auto simp: cmd_HSETNX_def split: option.split intro!: put dest!: set_update dest: old)
  show "keeps_types (k, snd (migrateLegacyInflightFieldScript (redisInflightKey c) f g k))"
    unfolding migrateLegacyInflightFieldScript_def keeps_types_def
    by (auto simp: Let_def split: option.split intro!: put dest!: set_update map_of_SomeD intro: old)
qed

lemma keeps_types_refl [simp]: "keeps_types (k, k)"
  by (simp add: keeps_types_def)

lemma keeps_types_client_commands:
  "keeps_types (k, snd (cmd_then (cmd_SET (redisClientKey (sc_ID cl)) (VClient cl)) (cmd_SADD redisClientIndex (sc_ID cl)) k))"
  "keeps_types (k, snd (cmd_SET (redisLastSeenKey c) (VTime now) k))"
  "keeps_types (k, snd (cmd_then (cmd_DEL keys) (cmd_SREM redisClientIndex c) k))"
  "keeps_types (k, snd (cmd_HSET (redisSubKey c) f (VSub \<lparr>st_Client = c, st_Filter = f, st_Qos = q\<rparr>) k))"
  "keeps_types (k, snd (cmd_HDEL (redisSubKey c) fs k))"
  "keeps_types (k, snd (cmd_SETNX (dedup_key p c) v k))"
proof -
  have index: "key_ok redisClientIndex (Some (RSet ms))" for ms by (simp add: key_ok_def)
  have sadd: "redis_typed k \<Longrightarrow> redis_typed (snd (cmd_SADD redisClientIndex m k))" for k m
    by (auto simp: cmd_SADD_def split: option.split robj.split intro!: typed_upd index)
  have srem: "redis_typed k \<Longrightarrow> redis_typed (snd (cmd_SREM redisClientIndex m k))" for k m
    by (auto simp: cmd_SREM_def Let_def split: option.split robj.split intro!: typed_upd index)
  have del: "redis_typed k \<Longrightarrow> redis_typed (snd (cmd_DEL keys k))" for k
    by (simp add: cmd_DEL_def redis_typed_def)
  have thn: "snd (cmd_then a b k) = snd (b (snd (a k)))" for a b :: "unit command" and k
    by (simp add: cmd_then_def split_def)
  show "keeps_types (k, snd (cmd_then (cmd_SET (redisClientKey (sc_ID cl)) (VClient cl)) (cmd_SADD redisClientIndex (sc_ID cl)) k))"
    unfolding keeps_types_def thn by (auto intro!: sadd typed_upd simp: cmd_SET_def key_ok_def)
  show "keeps_types (k, snd (cmd_SET (redisLastSeenKey c) (VTime now) k))"
    by (auto simp: keeps_types_def cmd_SET_def key_ok_def intro!: typed_upd)
  show "keeps_types (k, snd (cmd_then (cmd_DEL keys) (cmd_SREM redisClientIndex c) k))"
    unfolding keeps_types_def thn by (auto intro!: srem del)
  show "keeps_types (k, snd (cmd_HSET (redisSubKey c) f (VSub \<lparr>st_Client = c, st_Filter = f, st_Qos = q\<rparr>) k))"
    by (auto simp: keeps_types_def cmd_HSET_def split: option.split intro!: typed_put_sub dest!: set_update dest: typed_sub)
  show "keeps_types (k, snd (cmd_HDEL (redisSubKey c) fs k))"
    by (auto simp: keeps_types_def cmd_HDEL_def split: option.split intro!: typed_put_sub dest: typed_sub)
  show "keeps_types (k, snd (cmd_SETNX (dedup_key p c) v k))"
    by (auto simp: keeps_types_def cmd_SETNX_def intro!: typed_upd)
qed

lemma keeps_types_INCR: "keeps_types (k, snd (cmd_INCR (redisPacketIDKey c) k))"
proof -
  have ok: "n \<ge> 0 \<Longrightarrow> key_ok (redisPacketIDKey c) (Some (RString (VStr (itoa_int n))))" for n by (auto simp: key_ok_def)
  have "0 \<le> n" if "redis_typed k" "k (redisPacketIDKey c) = Some (RString (VStr s))" "redis_integer s = Some n" for s n
    using typed_counter[OF that(1), of c n] that(2,3) by (auto simp: counter_at_def redis_integer_def bind_eq_Some_conv split: if_splits)
  then show ?thesis
    by (auto simp: keeps_types_def cmd_INCR_def split: option.split robj.split rvalue.split intro!: typed_upd ok)
qed

lemma keeps_types_queue:
  assumes "queue_atomic cfg now dk c msg k = (Inr pid, k')" "dk = [] \<or> dk = dedup_key p c" "redisInflightKey c \<noteq> redisIFMSchemaKey"
  shows "keeps_types (k, k')"
  unfolding keeps_types_def
proof clarify
  assume t: "redis_typed k"
  obtain schema counter hs n where k: "counter_at k (redisPacketIDKey c) = Some counter"
    "hash_at k (redisInflightKey c) = Some hs" "n = next_offline_counter schema hs counter" "n \<noteq> 0"
    and k': "k' = (\<lambda>k. if dk = [] then k else k(dk \<mapsto> RString (VStr ''1'')))
       (k(redisPacketIDKey c \<mapsto> RString (VStr (itoa_int n)),
          redisInflightKey c \<mapsto> RHash (AList.update (offline_field schema pid) (marshalOfflineInflight now c pid msg) hs)))"
    using assms(1) by (auto simp: queue_atomic_def Let_def split: option.splits if_splits)
  have "0 \<le> n"
    using offline_search_result(2)[OF typed_counter[OF t k(1)], of "if schema = redisIFMSchemaLegacy then [] else ''out:''" hs] k(3,4)
      typed_counter[OF t k(1)] by (auto simp: next_offline_counter_def split: if_splits)
  then have "redis_typed (k(redisPacketIDKey c \<mapsto> RString (VStr (itoa_int n))))" by (auto intro!: typed_upd t simp: key_ok_def)
  moreover have "key_ok (redisInflightKey c) (Some (RHash (AList.update (offline_field schema pid) (marshalOfflineInflight now c pid msg) hs)))"
    using typed_inflight[OF t assms(3) k(2)] assms(3) by (auto simp: key_ok_def marshalOfflineInflight_def dest!: set_update)
  ultimately show "redis_typed k'" unfolding k' using assms(2) by (auto intro!: typed_upd)
qed

lemma keeps_types_log_reads:
  assumes "log_reads s s'"
  shows "\<exists>l. rd_log s' = rd_log s @ l \<and> (\<forall>e\<in>set l. keeps_types e)"
proof -
  obtain l where "rd_log s' = rd_log s @ l" "\<forall>(k, k')\<in>set l. k' = k" using assms by (auto simp: log_reads_def)
  then show ?thesis by (intro exI[of _ l]) (auto simp: keeps_types_def)
qed

lemma logs_types_quiet: "quiet m \<Longrightarrow> logs_only keeps_types m"
  unfolding logs_only_def quiet_def reading_def using keeps_types_log_reads by blast

lemma logs_types_state: "(\<And>x. logs_only P (m x)) \<Longrightarrow> logs_only P (\<lambda>h. m (g h) h)"
  unfolding logs_only_def by blast

lemma logs_types_catch:
  assumes "logs_only P m" "\<And>r. logs_only P (f r)"
  shows "logs_only P (\<lambda>h. case m h of (r, h') \<Rightarrow> f r h')"
  unfolding logs_only_def
proof
  fix s
  obtain r s1 where 1: "m s = (r, s1)" by fastforce
  then obtain l where l: "rd_log s1 = rd_log s @ l" "\<forall>e\<in>set l. P e" by (rule logs_onlyE[OF assms(1)])
  obtain r2 s2 where 2: "f r s1 = (r2, s2)" by fastforce
  then obtain l2 where "rd_log s2 = rd_log s1 @ l2" "\<forall>e\<in>set l2. P e" by (rule logs_onlyE[OF assms(2)])
  then show "\<exists>l. rd_log (snd (case m s of (r, h') \<Rightarrow> f r h')) = rd_log s @ l \<and> (\<forall>e\<in>set l. P e)"
    using 1 2 l by (intro exI[of _ "l @ l2"]) auto
qed

lemma logs_types_pure: "(\<And>h. rd_log (snd (m h)) = rd_log h) \<Longrightarrow> logs_only P m"
  by (simp add: logs_only_def)

lemma logs_types_publish:
  assumes "redisInflightKey c \<noteq> redisIFMSchemaKey"
  shows "logs_only keeps_types (publish_attempts n schema c pk sent)"
proof (induction n arbitrary: schema)
  case 0
  show ?case by (simp add: logs_only_return)
next
  case (Suc n)
  have set: "logs_only keeps_types (fencedHSet (redisInflightKey c) f (stored_message c pk sent f) schema)" for f
    unfolding fencedHSet_def stored_message_def
    by (intro logs_only_bind logs_only_call keeps_types_fenced_commands assms) (simp add: logs_only_def)
  have again: "logs_only keeps_types (rbind refreshSchemaVersion (\<lambda>schema'. publish_attempts n schema' c pk sent))"
    by (intro logs_only_bind logs_types_quiet quiet_refresh Suc)
  show ?case unfolding publish_attempts.simps Let_def
  proof (rule logs_types_catch[OF set])
    fix r :: "rerr + unit"
    show "logs_only keeps_types (\<lambda>h'. case r of Inl e \<Rightarrow>
       if e = RSchemaChanged then rbind refreshSchemaVersion (\<lambda>schema'. publish_attempts n schema' c pk sent) h' else (Inl e, h')
     | Inr x \<Rightarrow> (Inr (), h'))"
      using again by (cases r) (auto simp: logs_only_def)
  qed
qed

lemma logs_types_delete:
  assumes "redisInflightKey c \<noteq> redisIFMSchemaKey"
  shows "logs_only keeps_types (delete_attempts n schema c pk dropped)"
proof (induction n arbitrary: schema)
  case 0
  show ?case by (simp add: logs_only_return)
next
  case (Suc n)
  have again: "logs_only keeps_types (rbind refreshSchemaVersion (\<lambda>schema'. delete_attempts n schema' c pk dropped))"
    by (intro logs_only_bind logs_types_quiet quiet_refresh Suc)
  show ?case unfolding delete_attempts.simps Let_def
    by (intro logs_only_bind logs_only_call keeps_types_fenced_commands assms) (use again in \<open>simp add: logs_only_def\<close>)
qed

lemma logs_types_enqueue:
  assumes "redisInflightKey c \<noteq> redisIFMSchemaKey"
  shows "logs_only keeps_types (enqueue_attempts n schema c pid (VMsg m))"
proof (induction n arbitrary: schema)
  case 0
  show ?case by (simp add: logs_only_return)
next
  case (Suc n)
  have set: "logs_only keeps_types (fencedHSetNX (redisInflightKey c) f (VMsg m) schema)" for f
    unfolding fencedHSetNX_def
    by (intro logs_only_bind logs_only_call keeps_types_fenced_commands assms) (simp add: logs_only_def split: option.split)
  have again: "logs_only keeps_types (rbind refreshSchemaVersion (\<lambda>schema'. enqueue_attempts n schema' c pid (VMsg m)))"
    by (intro logs_only_bind logs_types_quiet quiet_refresh Suc)
  show ?case unfolding enqueue_attempts.simps
  proof (rule logs_types_catch[OF set])
    fix r :: "rerr + bool"
    show "logs_only keeps_types (\<lambda>h'. case r of Inl e \<Rightarrow>
       if e = RSchemaChanged then rbind refreshSchemaVersion (\<lambda>schema'. enqueue_attempts n schema' c pid (VMsg m)) h' else (Inl e, h')
     | Inr inserted \<Rightarrow> if \<not> inserted then (Inl RInUse, h') else (Inr (), h'))"
      using again by (cases r) (auto simp: logs_only_def)
  qed
qed

lemma logs_types_migrate:
  assumes "redisInflightKey c \<noteq> redisIFMSchemaKey"
  shows "logs_only keeps_types (migrate_fields (redisInflightKey c) rows)"
proof (induction rows)
  case Nil
  show ?case by (simp add: logs_only_return)
next
  case (Cons r rows)
  obtain field raw where r: "r = (field, raw)" by (cases r)
  have "logs_only keeps_types (rbind (redis_call (migrateLegacyInflightFieldScript (redisInflightKey c) field t))
      (\<lambda>_. migrate_fields (redisInflightKey c) rows))" for t
    by (intro logs_only_bind logs_only_call keeps_types_fenced_commands assms Cons)
  then show ?case using Cons by (auto simp: r logs_only_return split: option.split)
qed

lemma logs_types_stored:
  assumes "redisInflightKey c \<noteq> redisIFMSchemaKey"
  shows "logs_only keeps_types (storedInflightForClient arrange c)"
proof -
  have "logs_only keeps_types (rbind (redis_call (cmd_HGETALL (redisInflightKey c))) (\<lambda>rows. migrate_fields (redisInflightKey c) (arrange rows)))"
    by (intro logs_only_bind logs_types_quiet quiet_call logs_types_migrate assms) simp
  then have m: "logs_only keeps_types (migrateLegacyInflightFields arrange c)"
    by (auto simp: logs_only_def migrateLegacyInflightFields_def)
  show ?thesis unfolding storedInflightForClient_def
    by (intro logs_only_bind logs_types_quiet[OF quiet_refresh] m logs_types_quiet[OF quiet_call]) (simp_all add: logs_only_def Let_def)
qed

lemma logs_types_ignore: "logs_only P m \<Longrightarrow> logs_only P (rignore m)"
  by (simp add: logs_only_def rignore_def)

lemma logs_types_subscribed: "logs_only keeps_types (RedisSession_OnSubscribed c fs codes)"
  by (induction c fs codes rule: RedisSession_OnSubscribed.induct)
     (simp_all add: logs_only_return logs_only_bind logs_types_ignore logs_only_call keeps_types_client_commands)

lemma logs_types_unsubscribed: "logs_only keeps_types (RedisSession_OnUnsubscribed c fs)"
  by (induction c fs rule: RedisSession_OnUnsubscribed.induct)
     (simp_all add: logs_only_return logs_only_bind logs_types_ignore logs_only_call keeps_types_client_commands)

lemma logs_types_queue:
  assumes "redisInflightKey c \<noteq> redisIFMSchemaKey"
  shows "logs_only keeps_types (QueueOfflineInflight finished now p c msg)"
  unfolding logs_only_def
proof
  fix h
  define dk where "dk = (if p \<noteq> uuid_Nil then dedup_key p c else [])"
  have dk: "dk = [] \<or> dk = dedup_key p c" by (simp add: dk_def)
  obtain r h' where run: "queue_attempts 32 0 finished now dk c msg h = (r, h')" by fastforce
  obtain l where l: "rd_log h' = rd_log h @ l" "queue_outcome (rh_configured h) now dk c msg l r"
    using queue_attempts_outcome[OF run] by blast
  have reads: "\<forall>(k, k')\<in>set l. k' = k \<Longrightarrow> \<forall>e\<in>set l. keeps_types e" for l by (auto simp: keeps_types_def)
  have "\<forall>e\<in>set l. keeps_types e"
    using l(2)[unfolded queue_outcome_def]
  proof
    assume "(\<forall>(k, k')\<in>set l. k' = k) \<and> (case r of Inl e \<Rightarrow> True
        | Inr (pid, queued) \<Rightarrow> \<not> queued \<and> pid = 0 \<and> dk \<noteq> [] \<and> (\<exists>k. (k, k) \<in> set l \<and> k dk \<noteq> None))"
    then show ?thesis using reads by blast
  next
    assume "\<exists>l0 k k' pid i. l = l0 @ [(k, k')] \<and> (\<forall>(k, k')\<in>set l0. k' = k) \<and>
          queue_atomic (rh_configured h) (now i) dk c msg k = (Inr pid, k') \<and> (r = Inr (pid, True) \<or> r = Inl RNet)"
    then obtain l0 k k' pid i where w: "l = l0 @ [(k, k')]" "\<forall>(k, k')\<in>set l0. k' = k"
        "queue_atomic (rh_configured h) (now i) dk c msg k = (Inr pid, k')" by (elim exE conjE)
    show ?thesis unfolding w(1) using reads[OF w(2)] keeps_types_queue[OF w(3) dk assms] by simp
  qed
  then show "\<exists>l. rd_log (snd (QueueOfflineInflight finished now p c msg h)) = rd_log h @ l \<and> (\<forall>e\<in>set l. keeps_types e)"
    using l(1) run by (auto simp: QueueOfflineInflight_def dk_def[symmetric])
qed

text \<open>C5. Every change that a hook of the session store makes keeps the stored objects well typed: client records
  under their own client, subscriptions under their client and filter, messages in the inflight hashes,
  decimal counters that are not negative, the index as a set and the marker as 1 or 2. It holds for
  each single change, whatever other gateways do between them and whatever calls are lost, for every client
  whose inflight key is not the key of the marker.\<close>

theorem redis_store_well_typed:
  assumes "redisInflightKey c \<noteq> redisIFMSchemaKey" "sc_ID cl = c"
    and "run \<in> {(\<lambda>h. saveClient cl h), RedisSession_OnDisconnect t takenOver c expire, RedisSession_OnClientExpired c,
        (\<lambda>h. snd (RedisSession_OnSubscribed c fs codes h)), (\<lambda>h. snd (RedisSession_OnUnsubscribed c fs h)),
        (\<lambda>h. snd (OnQosPublishResult c pk sent h)), (\<lambda>h. snd (OnQosCompleteResult c pk h)), (\<lambda>h. snd (OnQosDroppedResult c pk h)),
        (\<lambda>h. snd (storedInflightForClient arrange c h)), (\<lambda>h. snd (MarkDelivered p c h)), (\<lambda>h. snd (NextPacketID c h)),
        (\<lambda>h. snd (EnqueueOfflineInflight t c pid msg h)), (\<lambda>h. snd (QueueOfflineInflight finished now p c msg h))}"
  shows "\<exists>l. rd_log (run h) = rd_log h @ l \<and> (\<forall>(k, k')\<in>set l. redis_typed k \<longrightarrow> redis_typed k')"
proof -
  have del: "logs_only keeps_types (\<lambda>h. ((), deleteSessionState c h))"
    using logs_only_call[of keeps_types, OF keeps_types_client_commands(3)] unfolding logs_only_def deleteSessionState_def by simp
  have off: "logs_only keeps_types (\<lambda>h. ((), markOffline t c h))"
    using logs_only_call[of keeps_types, OF keeps_types_client_commands(2)] unfolding logs_only_def markOffline_def by simp
  have sav: "logs_only keeps_types (\<lambda>h. ((), saveClient cl h))"
    using logs_only_call[of keeps_types, OF keeps_types_client_commands(1)] unfolding logs_only_def saveClient_def by simp
  have pub: "logs_only keeps_types (\<lambda>h. publish_attempts 2 (schemaVersion h) c pk sent h)"
    by (rule logs_types_state) (rule logs_types_publish[OF assms(1)])
  have dels: "logs_only keeps_types (\<lambda>h. delete_attempts 2 (schemaVersion h) c pk d h)" for d
    by (rule logs_types_state) (rule logs_types_delete[OF assms(1)])
  have enq: "logs_only keeps_types (EnqueueOfflineInflight t c pid msg)"
    unfolding EnqueueOfflineInflight_def marshalOfflineInflight_def
    by (intro logs_only_bind logs_types_quiet quiet_refresh logs_types_enqueue assms)
  have mark: "logs_only keeps_types (redis_call (cmd_SETNX (dedup_key p c) (VStr ''1'')))"
    by (intro logs_only_call keeps_types_client_commands)
  have nxt: "logs_only keeps_types (NextPacketID c)"
    unfolding NextPacketID_def by (intro logs_only_bind logs_only_call keeps_types_INCR logs_only_return)
  note all = del off sav pub dels enq mark nxt logs_types_queue[OF assms(1)] logs_types_stored[OF assms(1)]
    logs_types_subscribed logs_types_unsubscribed
  have "\<exists>l. rd_log (run h) = rd_log h @ l \<and> (\<forall>e\<in>set l. keeps_types e)"
    using assms(3) all
    unfolding RedisSession_OnDisconnect_def RedisSession_OnClientExpired_def OnQosPublishResult_def OnQosCompleteResult_def
      OnQosDroppedResult_def deleteInflight_def MarkDelivered_def logs_only_def
    by (elim insertE emptyE) auto
  then show ?thesis by (auto simp: keeps_types_def)
qed

lemma redis_store_well_typed_witness:
  "\<exists>l. rd_log (saveClient \<lparr>sc_ID = ''c'', sc_Username = ''u'', sc_Clean = False\<rparr> fence_state) = rd_log fence_state @ l
     \<and> (\<forall>(k, k')\<in>set l. redis_typed k \<longrightarrow> redis_typed k')"
proof -
  have k: "redisInflightKey ''c'' \<noteq> redisIFMSchemaKey" by code_simp
  show ?thesis
    by (rule redis_store_well_typed[where cl = "\<lparr>sc_ID = ''c'', sc_Username = ''u'', sc_Clean = False\<rparr>"
          and run = "\<lambda>h. saveClient \<lparr>sc_ID = ''c'', sc_Username = ''u'', sc_Clean = False\<rparr> h", OF k]) simp_all
qed

subsection \<open>The inventory of offline sessions\<close>

text \<open>The members an iteration of \<open>SSCAN\<close> returns from a cursor on.\<close>

fun scan_ids :: "nat \<Rightarrow> sscan \<Rightarrow> string list \<Rightarrow> nat \<Rightarrow> string list option" where
  "scan_ids 0 scn ms cursor = None"
| "scan_ids (Suc n) scn ms cursor =
     (if snd (scn ms cursor) = 0 then Some (fst (scn ms cursor))
      else map_option (\<lambda>rest. fst (scn ms cursor) @ rest) (scan_ids n scn ms (snd (scn ms cursor))))"

lemma scan_pages_alone:
  assumes page: "\<And>ids out h. rd_world h = [] \<Longrightarrow> rd_ks h = ks \<Longrightarrow>
      \<exists>h'. page ids out h = (Inr (out @ concat (map f ids)), h') \<and> rd_world h' = [] \<and> rd_ks h' = ks"
    and ms: "ks redisClientIndex = Some (RSet ms)"
    and "scan_ids fuel scn ms cursor = Some ids" "rd_world h = []" "rd_ks h = ks"
  shows "\<exists>h'. scan_pages fuel scn page cursor out h = Some (Inr (out @ concat (map f ids)), h') \<and> rd_ks h' = ks"
  using assms(3-5)
proof (induction fuel arbitrary: cursor out ids h)
  case 0
  then show ?case by simp
next
  case (Suc fuel)
  obtain batch nx where sc: "scn ms cursor = (batch, nx)" by fastforce
  obtain h1 where h1: "redis_call (cmd_SSCAN scn redisClientIndex cursor) h = (Inr (batch, nx), h1)" "rd_world h1 = []" "rd_ks h1 = ks"
    using Suc.prems(2,3) ms by (simp add: call_alone cmd_SSCAN_def sc)
  obtain h2 where h2: "page batch out h1 = (Inr (out @ concat (map f batch)), h2)" "rd_world h2 = []" "rd_ks h2 = ks"
    using page[OF h1(2,3)] by blast
  show ?case
  proof (cases "nx = 0")
    case True
    then show ?thesis using Suc.prems(1) h1(1) h2 by (simp add: sc)
  next
    case False
    then obtain rest where rest: "scan_ids fuel scn ms nx = Some rest" "ids = batch @ rest"
      using Suc.prems(1) by (auto simp: sc)
    show ?thesis
      using Suc.IH[OF rest(1) h2(2,3), of "out @ concat (map f batch)"] h1(1) h2(1) False by (simp add: rest(2))
  qed
qed

definition reply_at :: "keyspace \<Rightarrow> string \<Rightarrow> inventory_reply" where
  "reply_at k c = \<lparr>ir_client = fst (cmd_GET (redisClientKey c) k), ir_lastSeen = fst (cmd_GET (redisLastSeenKey c) k),
     ir_subs = fst (cmd_HGETALL (redisSubKey c) k)\<rparr>"

definition session_at :: "((string \<times> rvalue) list \<Rightarrow> (string \<times> rvalue) list) \<Rightarrow> keyspace \<Rightarrow> string \<Rightarrow> OfflineSession list" where
  "session_at arrange k c =
     (case k (redisClientKey c) of
        Some (RString v) \<Rightarrow> (case decode_client v of None \<Rightarrow> [] | Some cl \<Rightarrow> [inventory_session arrange (reply_at k c) cl])
      | _ \<Rightarrow> [])"

lemma inventory_pipeline_alone:
  assumes "rd_world h = []"
  shows "\<exists>h'. inventory_pipeline ids h = (map (reply_at (rd_ks h)) ids, h') \<and> rd_world h' = [] \<and> rd_ks h' = rd_ks h"
  using assms
proof (induction ids arbitrary: h)
  case Nil
  then show ?case by simp
next
  case (Cons c ids)
  have same: "snd (cmd_GET key k) = k" "snd (cmd_HGETALL key k) = k" for key k
    using reads_commands by (auto simp: reads_def)
  define h3 where "h3 = h\<lparr>rd_log := rd_log h @ [(rd_ks h, rd_ks h), (rd_ks h, rd_ks h), (rd_ks h, rd_ks h)]\<rparr>"
  have h3: "rd_world h3 = []" "rd_ks h3 = rd_ks h" using Cons.prems by (simp_all add: h3_def)
  obtain h' where "inventory_pipeline ids h3 = (map (reply_at (rd_ks h)) ids, h')" "rd_world h' = []" "rd_ks h' = rd_ks h"
    using Cons.IH[OF h3(1)] h3(2) by auto
  then show ?case
    using Cons.prems by (simp add: call_alone same reply_at_def[abs_def] h3_def[symmetric] Let_def split_def)
qed

lemma typed_replies:
  assumes "redis_typed k"
  shows "ir_client (reply_at k c) = Inr (case k (redisClientKey c) of Some (RString v) \<Rightarrow> Some v | _ \<Rightarrow> None)"
    "\<exists>v. ir_lastSeen (reply_at k c) = Inr v" "\<exists>rows. ir_subs (reply_at k c) = Inr rows \<and> hash_at k (redisSubKey c) = Some rows"
    "k (redisClientKey c) = None \<or> (\<exists>cl. k (redisClientKey c) = Some (RString (VClient cl)) \<and> sc_ID cl = c)"
proof -
  have ok: "key_ok key (k key)" for key using assms by (simp add: redis_typed_def)
  show 4: "k (redisClientKey c) = None \<or> (\<exists>cl. k (redisClientKey c) = Some (RString (VClient cl)) \<and> sc_ID cl = c)"
    using ok[of "redisClientKey c"] unfolding key_ok_def by blast
  then show "ir_client (reply_at k c) = Inr (case k (redisClientKey c) of Some (RString v) \<Rightarrow> Some v | _ \<Rightarrow> None)"
    by (auto simp: reply_at_def cmd_GET_def)
  have "k (redisLastSeenKey c) = None \<or> (\<exists>t. k (redisLastSeenKey c) = Some (RString (VTime t)))"
    using ok[of "redisLastSeenKey c"] unfolding key_ok_def by blast
  then show "\<exists>v. ir_lastSeen (reply_at k c) = Inr v" by (auto simp: reply_at_def cmd_GET_def)
  have "k (redisSubKey c) = None \<or> (\<exists>hs. k (redisSubKey c) = Some (RHash hs))"
    using ok[of "redisSubKey c"] unfolding key_ok_def by blast
  then show "\<exists>rows. ir_subs (reply_at k c) = Inr rows \<and> hash_at k (redisSubKey c) = Some rows"
    by (auto simp: reply_at_def cmd_HGETALL_def hash_at_def)
qed

lemma typed_inventory_exec: "redis_typed k \<Longrightarrow> inventory_exec (map (reply_at k) ids) = None"
proof (induction ids)
  case (Cons c ids)
  then show ?case using typed_replies(1)[of k c] typed_replies(2)[of k c] typed_replies(3)[of k c]
    by (auto split: option.split robj.split)
qed simp

lemma typed_inventory_sessions:
  "redis_typed k \<Longrightarrow> inventory_sessions arrange (map (reply_at k) ids) = Inr (concat (map (session_at arrange k) ids))"
proof (induction ids)
  case (Cons c ids)
  then show ?case using typed_replies(1,4)[of k c] by (auto simp: session_at_def decode_client_def split: option.split)
qed simp

lemma inventory_page_alone:
  assumes "redis_typed ks" "rd_world h = []" "rd_ks h = ks"
  shows "\<exists>h'. inventory_page arrange live ids out h =
      (Inr (out @ concat (map (\<lambda>c. if live c = None then session_at arrange ks c else []) ids)), h') \<and> rd_world h' = [] \<and> rd_ks h' = ks"
proof -
  have f: "concat (map (\<lambda>c. if live c = None then g c else []) ids) = concat (map g (filter (\<lambda>c. live c = None) ids))" for g
    by (induction ids) auto
  obtain h' where "inventory_pipeline (filter (\<lambda>c. live c = None) ids) h = (map (reply_at ks) (filter (\<lambda>c. live c = None) ids), h')"
      "rd_world h' = []" "rd_ks h' = ks"
    using inventory_pipeline_alone[OF assms(2)] assms(3) by blast
  then show ?thesis
    using assms(2,3) typed_inventory_exec[OF assms(1)] typed_inventory_sessions[OF assms(1)]
    by (auto simp: inventory_page_def Let_def f filter_empty_conv)
qed


definition inventory_store :: RedisSessionHook where
  "inventory_store = \<lparr>rd_ks = [redisClientIndex \<mapsto> RSet [''a'', ''b''],
       redisClientKey ''b'' \<mapsto> RString (VClient \<lparr>sc_ID = ''b'', sc_Username = ''u'', sc_Clean = False\<rparr>)],
     rd_world = [], rd_touched = (\<lambda>_. False), rd_log = [], rh_ifmSchema = 1, rh_configured = 0\<rparr>"


end
