(* ===== verification/Auth.thy ===== *)
theory Auth
  imports Redis
begin

text \<open>
  Device authentication (\<open>internal/auth\<close>): identities, per-tenant policy and its cache, certificates, JSON
  web tokens and key sets, the PostgreSQL and the file provider, the credential cache and the device CA cache.
  UUIDs appear as their canonical text, times as nanoseconds. What other packages compute is a parameter:
  \<open>parse\<close> for \<open>uuid.Parse\<close>, the PEM and X.509 functions, the parser and signature check of the JWT library,
  \<open>bcrypt\<close>, SHA-256, and the answers of HTTP endpoints.
\<close>

subsection \<open>Identities\<close>

record DeviceInfo =
  di_ID :: string
  di_TenantID :: string
  di_TenantSlug :: string
  di_FleetID :: "string option"
  di_FleetIDStr :: string
  di_Identity :: string

datatype auth_err = ErrInvalidCredentials | ErrAuthNotConfigured | ErrInvalidKid | ErrUnknownKid | ErrCert | ErrJWT | ErrStorage

type_synonym uuid_parser = "string \<Rightarrow> string option"

definition uuid_zero :: string where
  "uuid_zero = ''00000000-0000-0000-0000-000000000000''"

definition RedpandaTopic :: "DeviceInfo \<Rightarrow> string \<Rightarrow> string \<Rightarrow> string" where
  "RedpandaTopic d category typ =
     ''keel.'' @ di_TenantSlug d @ ''.'' @ di_FleetIDStr d @ ''.'' @ di_ID d @ ''.'' @ category @ ''.'' @ typ"

definition NewPendingDeviceInfo :: "uuid_parser \<Rightarrow> string \<Rightarrow> string \<Rightarrow> DeviceInfo" where
  "NewPendingDeviceInfo parse deviceID tenantID =
     \<lparr>di_ID = (case parse deviceID of None \<Rightarrow> uuid_zero | Some u \<Rightarrow> u),
      di_TenantID = (case parse tenantID of None \<Rightarrow> uuid_zero | Some u \<Rightarrow> u),
      di_TenantSlug = ''pending'', di_FleetID = None, di_FleetIDStr = ''nofleet'', di_Identity = ''''\<rparr>"

subsection \<open>The PostgreSQL provider\<close>

text \<open>The rows of the joined tables that the queries range over; a query keeps the first row that satisfies its
  condition, and \<open>None\<close> for the database is a failed query.\<close>

record DeviceRow =
  dr_id :: string
  dr_tenant_id :: string
  dr_slug :: string
  dr_fleet_id :: "string option"

record CredentialRow =
  cr_device_id :: string
  cr_type :: string
  cr_value :: string
  cr_expires_at :: "int option"

definition device_info :: "DeviceRow \<Rightarrow> DeviceInfo" where
  "device_info d =
     \<lparr>di_ID = dr_id d, di_TenantID = dr_tenant_id d, di_TenantSlug = dr_slug d, di_FleetID = dr_fleet_id d,
      di_FleetIDStr = (case dr_fleet_id d of None \<Rightarrow> ''nofleet'' | Some f \<Rightarrow> f), di_Identity = ''''\<rparr>"

definition first_device :: "(DeviceRow \<Rightarrow> bool) \<Rightarrow> DeviceRow list option \<Rightarrow> auth_err + DeviceInfo" where
  "first_device P db =
     (case db of
        None \<Rightarrow> Inl ErrStorage
      | Some rows \<Rightarrow> (case filter P rows of [] \<Rightarrow> Inl ErrInvalidCredentials | d # _ \<Rightarrow> Inr (device_info d)))"

definition Validator_Validate ::
  "uuid_parser \<Rightarrow> int \<Rightarrow> DeviceRow list option \<Rightarrow> CredentialRow list \<Rightarrow> string \<Rightarrow> string \<Rightarrow> auth_err + DeviceInfo" where
  "Validator_Validate parse now db creds deviceID token =
     (case parse deviceID of
        None \<Rightarrow> Inl ErrInvalidCredentials
      | Some u \<Rightarrow>
          first_device (\<lambda>d. dr_id d = u \<and>
             list_ex (\<lambda>c. cr_device_id c = dr_id d \<and> cr_type c = ''mqtt_token'' \<and> cr_value c = token \<and>
                (case cr_expires_at c of None \<Rightarrow> True | Some t \<Rightarrow> t > now)) creds) db)"

definition Validator_LookupByCN ::
  "uuid_parser \<Rightarrow> DeviceRow list option \<Rightarrow> string \<Rightarrow> string \<Rightarrow> auth_err + DeviceInfo" where
  "Validator_LookupByCN parse db deviceID tenantID =
     (case (parse deviceID, parse tenantID) of
        (Some dev, Some ten) \<Rightarrow> first_device (\<lambda>d. dr_id d = dev \<and> dr_tenant_id d = ten) db
      | _ \<Rightarrow> Inl ErrInvalidCredentials)"

subsection \<open>The credential cache and the file provider\<close>

record credentialCache =
  cc_cache :: "string \<rightharpoonup> int"
  cc_ttl :: int

definition cacheKey :: "(string \<Rightarrow> string) \<Rightarrow> string \<Rightarrow> string \<Rightarrow> string" where
  "cacheKey sha256hex deviceID token = deviceID @ '':'' @ sha256hex token"

definition credentialCache_check :: "(string \<Rightarrow> string) \<Rightarrow> int \<Rightarrow> credentialCache \<Rightarrow> string \<Rightarrow> string \<Rightarrow> bool" where
  "credentialCache_check sha now c deviceID token =
     (case cc_cache c (cacheKey sha deviceID token) of None \<Rightarrow> False | Some ts \<Rightarrow> now - ts < cc_ttl c)"

definition credentialCache_set :: "(string \<Rightarrow> string) \<Rightarrow> int \<Rightarrow> string \<Rightarrow> string \<Rightarrow> credentialCache \<Rightarrow> credentialCache" where
  "credentialCache_set sha now deviceID token c =
     c\<lparr>cc_cache := (cc_cache c)(cacheKey sha deviceID token \<mapsto> now)\<rparr>"

definition credentialCache_invalidate :: "credentialCache \<Rightarrow> credentialCache" where
  "credentialCache_invalidate c = c\<lparr>cc_cache := Map.empty\<rparr>"

record fileCredential =
  fc_DeviceID :: string
  fc_Username :: string
  fc_TenantID :: string
  fc_TenantSlug :: string
  fc_FleetID :: string
  fc_PasswordHash :: string
  fc_JWTPublicKeyPEM :: string

definition credentialKey :: "fileCredential \<Rightarrow> string" where
  "credentialKey c = (if fc_Username c \<noteq> '''' then fc_Username c else fc_DeviceID c)"

record FileProvider =
  fp_byKey :: "(string \<times> fileCredential) list"
  fp_credCache :: credentialCache

fun index_credentials :: "uuid_parser \<Rightarrow> fileCredential list \<Rightarrow> (string \<times> fileCredential) list \<Rightarrow> (string \<times> fileCredential) list option" where
  "index_credentials parse [] m = Some m"
| "index_credentials parse (c # cs) m =
     (if parse (fc_DeviceID c) = None then None
      else if map_of m (credentialKey c) \<noteq> None then None
      else index_credentials parse cs ((credentialKey c, c) # m))"

text \<open>\<open>file\<close> is the parsed credential file, \<open>None\<close> when it cannot be read or parsed.\<close>

definition FileProvider_load :: "uuid_parser \<Rightarrow> fileCredential list option \<Rightarrow> FileProvider \<Rightarrow> (auth_err + unit) \<times> FileProvider" where
  "FileProvider_load parse file f =
     (case file of
        None \<Rightarrow> (Inl ErrStorage, f)
      | Some creds \<Rightarrow>
          (case index_credentials parse creds [] of
             None \<Rightarrow> (Inl ErrStorage, f)
           | Some m \<Rightarrow> (Inr (), f\<lparr>fp_byKey := m, fp_credCache := credentialCache_invalidate (fp_credCache f)\<rparr>)))"

definition toDeviceInfo :: "uuid_parser \<Rightarrow> fileCredential \<Rightarrow> auth_err + DeviceInfo" where
  "toDeviceInfo parse c =
     (case parse (fc_DeviceID c) of
        None \<Rightarrow> Inl ErrStorage
      | Some dev \<Rightarrow>
          (case parse (fc_TenantID c) of
             None \<Rightarrow> Inl ErrStorage
           | Some ten \<Rightarrow>
               let fleet = (if fc_FleetID c \<noteq> '''' then parse (fc_FleetID c) else None)
               in Inr \<lparr>di_ID = dev, di_TenantID = ten, di_TenantSlug = fc_TenantSlug c, di_FleetID = fleet,
                       di_FleetIDStr = (case fleet of None \<Rightarrow> ''nofleet'' | Some fid \<Rightarrow> fid), di_Identity = ''''\<rparr>))"

definition load_if_empty :: "uuid_parser \<Rightarrow> fileCredential list option \<Rightarrow> FileProvider \<Rightarrow> (auth_err + unit) \<times> FileProvider" where
  "load_if_empty parse file f = (if fp_byKey f = [] then FileProvider_load parse file f else (Inr (), f))"

text \<open>\<open>bcrypt hash token\<close> is the comparison, \<open>None\<close> for an error other than a mismatch; \<open>now\<close> is the time of the cache
  lookup, \<open>now'\<close> the time the validation is recorded.\<close>

definition FileProvider_ValidatePassword ::
  "uuid_parser \<Rightarrow> (string \<Rightarrow> string) \<Rightarrow> (string \<Rightarrow> string \<Rightarrow> bool option) \<Rightarrow> int \<Rightarrow> int \<Rightarrow> fileCredential list option \<Rightarrow>
   string \<Rightarrow> string \<Rightarrow> FileProvider \<Rightarrow> (auth_err + DeviceInfo) \<times> FileProvider" where
  "FileProvider_ValidatePassword parse sha bcrypt now now' file username token f0 =
     (case load_if_empty parse file f0 of
        (Inl e, f) \<Rightarrow> (Inl e, f)
      | (Inr _, f) \<Rightarrow>
          if credentialCache_check sha now (fp_credCache f) username token then
            (case map_of (fp_byKey f) username of
               None \<Rightarrow> (Inl ErrInvalidCredentials, f)
             | Some cred \<Rightarrow> (toDeviceInfo parse cred, f))
          else
            (case map_of (fp_byKey f) username of
               None \<Rightarrow> (Inl ErrInvalidCredentials, f)
             | Some cred \<Rightarrow>
                 if fc_PasswordHash cred = '''' then (Inl ErrInvalidCredentials, f)
                 else (case bcrypt (fc_PasswordHash cred) token of
                         None \<Rightarrow> (Inl ErrStorage, f)
                       | Some False \<Rightarrow> (Inl ErrInvalidCredentials, f)
                       | Some True \<Rightarrow>
                           (toDeviceInfo parse cred,
                            f\<lparr>fp_credCache := credentialCache_set sha now' username token (fp_credCache f)\<rparr>))))"

definition FileProvider_LookupByCN ::
  "uuid_parser \<Rightarrow> fileCredential list option \<Rightarrow> string \<Rightarrow> string \<Rightarrow> FileProvider \<Rightarrow> (auth_err + DeviceInfo) \<times> FileProvider" where
  "FileProvider_LookupByCN parse file deviceID tenantID f0 =
     (case load_if_empty parse file f0 of
        (Inl e, f) \<Rightarrow> (Inl e, f)
      | (Inr _, f) \<Rightarrow>
          (case map_of (fp_byKey f) deviceID of
             None \<Rightarrow> (Inl ErrInvalidCredentials, f)
           | Some cred \<Rightarrow>
               if fc_TenantID cred \<noteq> tenantID then (Inl ErrInvalidCredentials, f) else (toDeviceInfo parse cred, f)))"

subsection \<open>Tenant policy\<close>

record TenantGatewayConfig =
  tg_PasswordAuthEnabled :: bool
  tg_JWTAuthEnabled :: bool
  tg_CertAuthEnabled :: bool
  tg_JWTPublicKeyPEM :: string
  tg_JWKSURL :: string
  tg_TrustedCAPEMs :: "string list option"
  tg_ClavexCAURL :: string
  tg_ClavexAgentToken :: string
  tg_AutoProvisioning :: bool
  tg_MaxConnections :: int
  tg_MaxBytesPerDay :: int
  tg_TracingEnabled :: bool

definition default_tenant_config :: TenantGatewayConfig where
  "default_tenant_config =
     \<lparr>tg_PasswordAuthEnabled = True, tg_JWTAuthEnabled = False, tg_CertAuthEnabled = False, tg_JWTPublicKeyPEM = '''',
      tg_JWKSURL = '''', tg_TrustedCAPEMs = None, tg_ClavexCAURL = '''', tg_ClavexAgentToken = '''', tg_AutoProvisioning = False,
      tg_MaxConnections = 0, tg_MaxBytesPerDay = 0, tg_TracingEnabled = False\<rparr>"

text \<open>A query answers an error, no row, or a row.\<close>

datatype 'a db_row = DbError | NoRows | Row 'a

definition TenantConfigCache_load :: "TenantGatewayConfig db_row \<Rightarrow> auth_err + TenantGatewayConfig" where
  "TenantConfigCache_load row =
     (case row of DbError \<Rightarrow> Inl ErrStorage | NoRows \<Rightarrow> Inr default_tenant_config | Row cfg \<Rightarrow> Inr cfg)"

record TenantConfigCache =
  tc_ttl :: int
  tc_cache :: "string \<rightharpoonup> TenantGatewayConfig \<times> int"

text \<open>\<open>now\<close> is the time of the lookup, \<open>now'\<close> the time after the query.\<close>

definition TenantConfigCache_Get ::
  "int \<Rightarrow> int \<Rightarrow> (string \<Rightarrow> TenantGatewayConfig db_row) \<Rightarrow> string \<Rightarrow> TenantConfigCache \<Rightarrow>
   (auth_err + TenantGatewayConfig) \<times> TenantConfigCache" where
  "TenantConfigCache_Get now now' db tenantID c =
     (case tc_cache c tenantID of
        Some (cfg, expiresAt) \<Rightarrow>
          if now < expiresAt then (Inr cfg, c)
          else (case TenantConfigCache_load (db tenantID) of
                  Inl e \<Rightarrow> (Inl e, c)
                | Inr cfg' \<Rightarrow> (Inr cfg', c\<lparr>tc_cache := (tc_cache c)(tenantID \<mapsto> (cfg', now' + tc_ttl c))\<rparr>))
      | None \<Rightarrow>
          (case TenantConfigCache_load (db tenantID) of
             Inl e \<Rightarrow> (Inl e, c)
           | Inr cfg' \<Rightarrow> (Inr cfg', c\<lparr>tc_cache := (tc_cache c)(tenantID \<mapsto> (cfg', now' + tc_ttl c))\<rparr>)))"

definition TenantConfigCache_Invalidate :: "string \<Rightarrow> TenantConfigCache \<Rightarrow> TenantConfigCache" where
  "TenantConfigCache_Invalidate tenantID c = c\<lparr>tc_cache := (tc_cache c)(tenantID := None)\<rparr>"

definition TenantConfigCache_TracingEnabled :: "TenantConfigCache \<Rightarrow> string \<Rightarrow> bool" where
  "TenantConfigCache_TracingEnabled c tenantID =
     (case tc_cache c tenantID of None \<Rightarrow> False | Some (cfg, _) \<Rightarrow> tg_TracingEnabled cfg)"

subsection \<open>Methods and certificates\<close>

datatype AuthMethod = AuthMethodPassword | AuthMethodJWT | AuthMethodCertificate | authMethodTestConsumer

definition DetectAuthMethod :: "string \<Rightarrow> AuthMethod" where
  "DetectAuthMethod password =
     (if length password > 4 \<and> take 3 password = ''eyJ'' then AuthMethodJWT else AuthMethodPassword)"

definition ParseClientIdentifier :: "string \<Rightarrow> (string \<times> string) option" where
  "ParseClientIdentifier clientID =
     (case go_splitn (CHR ''/'') 4 clientID of
        [a, tenantID, b, deviceID] \<Rightarrow>
          if a \<noteq> ''tenants'' \<or> b \<noteq> ''devices'' then None
          else if tenantID = '''' \<or> deviceID = '''' then None
          else Some (tenantID, deviceID)
      | _ \<Rightarrow> None)"

record Certificate =
  ct_CommonName :: string
  ct_raw :: string

record x509 =
  x5_parsesPEM :: "string \<Rightarrow> bool"
  x5_verify :: "string list \<Rightarrow> Certificate \<Rightarrow> bool"

definition VerifyCertificate :: "x509 \<Rightarrow> Certificate \<Rightarrow> string list option \<Rightarrow> auth_err + string \<times> string" where
  "VerifyCertificate x cert trustedCAPEMs =
     (case go_splitn (CHR ''@'') 2 (ct_CommonName cert) of
        [deviceID, tenantID] \<Rightarrow>
          if deviceID = '''' \<or> tenantID = '''' then Inl ErrCert
          else (case trustedCAPEMs of
                  None \<Rightarrow> Inr (deviceID, tenantID)
                | Some pems \<Rightarrow>
                    if pems = [] then Inl ErrCert
                    else if \<not> list_all (x5_parsesPEM x) pems then Inl ErrCert
                    else if \<not> x5_verify x pems cert then Inl ErrCert
                    else Inr (deviceID, tenantID))
      | _ \<Rightarrow> Inl ErrCert)"

text \<open>The device CA cache: a fresh entry is served, a stale one is refreshed, and a failed refresh serves the
  last known one.\<close>

record deviceCAEntry =
  ce_caPEMs :: "string list option"
  ce_expiresAt :: int

record DeviceCACache =
  dc_ttl :: int
  dc_entries :: "string \<rightharpoonup> deviceCAEntry"

definition device_ca_entry :: "DeviceCACache \<Rightarrow> string \<Rightarrow> deviceCAEntry" where
  "device_ca_entry c tenantID =
     (case dc_entries c tenantID of None \<Rightarrow> \<lparr>ce_caPEMs = None, ce_expiresAt = 0\<rparr> | Some e \<Rightarrow> e)"

definition device_ca_fresh :: "int \<Rightarrow> deviceCAEntry \<Rightarrow> bool" where
  "device_ca_fresh now e \<longleftrightarrow> ce_expiresAt e \<noteq> 0 \<and> now < ce_expiresAt e"

text \<open>\<open>http url token\<close> is the decoded answer of the endpoint: its certificate field, absent when it is missing, or
  \<open>None\<close> when the request, its status or the decoding fails.\<close>

definition device_ca_fetch :: "(string \<Rightarrow> string \<Rightarrow> string option option) \<Rightarrow> string \<Rightarrow> string \<Rightarrow> auth_err + string list" where
  "device_ca_fetch http caURL token =
     (case http caURL token of
        None \<Rightarrow> Inl ErrStorage
      | Some None \<Rightarrow> Inl ErrStorage
      | Some (Some pem) \<Rightarrow> if pem = '''' then Inl ErrStorage else Inr [pem])"

definition DeviceCACache_TrustedCAPEMs ::
  "int \<Rightarrow> int \<Rightarrow> (string \<Rightarrow> string \<Rightarrow> string option option) \<Rightarrow> string \<Rightarrow> string \<Rightarrow> string \<Rightarrow> DeviceCACache \<Rightarrow> (auth_err + string list) \<times> DeviceCACache" where
  "DeviceCACache_TrustedCAPEMs now now' http tenantID caURL token c =
     (let e = device_ca_entry c tenantID;
          c' = c\<lparr>dc_entries := (dc_entries c)(tenantID \<mapsto> e)\<rparr>
      in case ce_caPEMs e of
           Some pems \<Rightarrow>
             if device_ca_fresh now e then (Inr pems, c')
             else (case device_ca_fetch http caURL token of
                     Inl _ \<Rightarrow> (Inr pems, c')
                   | Inr new \<Rightarrow>
                       (Inr new, c\<lparr>dc_entries := (dc_entries c)(tenantID \<mapsto> \<lparr>ce_caPEMs = Some new, ce_expiresAt = now' + dc_ttl c\<rparr>)\<rparr>))
         | None \<Rightarrow>
             (case device_ca_fetch http caURL token of
                Inl err \<Rightarrow> (Inl err, c')
              | Inr new \<Rightarrow>
                  (Inr new, c\<lparr>dc_entries := (dc_entries c)(tenantID \<mapsto> \<lparr>ce_caPEMs = Some new, ce_expiresAt = now' + dc_ttl c\<rparr>)\<rparr>)))"

subsection \<open>Keys and tokens\<close>

datatype public_key = RSAKey nat int | ECKey string nat nat | OtherKey

definition bytes_nat :: "string \<Rightarrow> nat" where
  "bytes_nat bs = fold (\<lambda>b n. 256 * n + of_char b) bs 0"

definition int64_of :: "nat \<Rightarrow> int" where
  "int64_of n = (let m = int n mod 2 ^ 64 in if m < 2 ^ 63 then m else m - 2 ^ 64)"

record jwk =
  jk_Kty :: string
  jk_Kid :: string
  jk_N :: string
  jk_E :: string
  jk_Crv :: string
  jk_X :: string
  jk_Y :: string

definition ecCurve :: "string \<Rightarrow> string option" where
  "ecCurve crv = (if crv = ''P-256'' \<or> crv = ''P-384'' \<or> crv = ''P-521'' then Some crv else None)"

definition jwk_publicKey :: "jwk \<Rightarrow> public_key option" where
  "jwk_publicKey k =
     (if jk_Kty k = ''RSA'' then
        (case (DecodeString (jk_N k), DecodeString (jk_E k)) of
           (Some nb, Some eb) \<Rightarrow> Some (RSAKey (bytes_nat nb) (int64_of (bytes_nat eb)))
         | _ \<Rightarrow> None)
      else if jk_Kty k = ''EC'' then
        (case (ecCurve (jk_Crv k), DecodeString (jk_X k), DecodeString (jk_Y k)) of
           (Some curve, Some xb, Some yb) \<Rightarrow> Some (ECKey curve (bytes_nat xb) (bytes_nat yb))
         | _ \<Rightarrow> None)
      else None)"

definition jwks_keys :: "jwk list \<Rightarrow> string \<rightharpoonup> public_key" where
  "jwks_keys ks =
     fold (\<lambda>k m. if jk_Kid k = '''' then m else (case jwk_publicKey k of None \<Rightarrow> m | Some pub \<Rightarrow> m(jk_Kid k \<mapsto> pub))) ks Map.empty"

record jwksEntry =
  je_keys :: "(string \<rightharpoonup> public_key) option"
  je_expiresAt :: int

record JWKSCache =
  jc_ttl :: int
  jc_entries :: "string \<rightharpoonup> jwksEntry"

definition jwks_entry :: "JWKSCache \<Rightarrow> string \<Rightarrow> jwksEntry" where
  "jwks_entry c tenantID =
     (case jc_entries c tenantID of None \<Rightarrow> \<lparr>je_keys = None, je_expiresAt = 0\<rparr> | Some e \<Rightarrow> e)"

definition lookupKey :: "jwksEntry \<Rightarrow> string \<Rightarrow> public_key option" where
  "lookupKey e kid = (case je_keys e of None \<Rightarrow> None | Some m \<Rightarrow> m kid)"

definition jwks_fresh :: "int \<Rightarrow> jwksEntry \<Rightarrow> bool" where
  "jwks_fresh now e \<longleftrightarrow> je_expiresAt e \<noteq> 0 \<and> now < je_expiresAt e"

text \<open>\<open>http url\<close> is the key set the endpoint serves, \<open>None\<close> when the request, its status or the decoding
  fails; \<open>now\<close> is the time of the lookup, \<open>now'\<close> the time after the request.\<close>

definition JWKSCache_Key ::
  "int \<Rightarrow> int \<Rightarrow> (string \<Rightarrow> jwk list option) \<Rightarrow> string \<Rightarrow> string \<Rightarrow> string \<Rightarrow> JWKSCache \<Rightarrow> (auth_err + public_key) \<times> JWKSCache" where
  "JWKSCache_Key now now' http tenantID jwksURL kid c =
     (let e = jwks_entry c tenantID;
          c' = c\<lparr>jc_entries := (jc_entries c)(tenantID \<mapsto> e)\<rparr>;
          cached = lookupKey e kid
      in if cached \<noteq> None \<and> jwks_fresh now e then (Inr (the cached), c')
         else (case http jwksURL of
                 None \<Rightarrow> (case cached of Some k \<Rightarrow> (Inr k, c') | None \<Rightarrow> (Inl ErrStorage, c'))
               | Some ks \<Rightarrow>
                   let keys = jwks_keys ks;
                       c'' = c\<lparr>jc_entries := (jc_entries c)(tenantID \<mapsto> \<lparr>je_keys = Some keys, je_expiresAt = now' + jc_ttl c\<rparr>)\<rparr>
                   in (case keys kid of None \<Rightarrow> (Inl ErrUnknownKid, c'') | Some k \<Rightarrow> (Inr k, c''))))"

datatype SigningMethod = SigningMethodRSA | SigningMethodECDSA | SigningMethodOther

text \<open>A claim or header that is absent or not a string reads as the empty string.\<close>

record JwtToken =
  jt_method :: SigningMethod
  jt_kid :: string
  jt_sub :: string
  jt_tid :: string

text \<open>The functions of other packages that token validation calls: the unverified parse of a token, the check of
  its signature, audience, issue time and expiry against a key, the first PEM block of a text and the PKIX key in
  it, the key set endpoint, and the two clock readings of a key lookup.\<close>

record jwt_env =
  jl_parse :: "string \<Rightarrow> JwtToken option"
  jl_valid :: "string \<Rightarrow> public_key \<Rightarrow> bool"
  jl_pemDecode :: "string \<Rightarrow> string option"
  jl_parsePKIX :: "string \<Rightarrow> public_key option"
  jl_http :: "string \<Rightarrow> jwk list option"
  jl_now :: int
  jl_now' :: int

text \<open>A key function reads the token and may refresh the key set cache; the cache is \<open>None\<close> when none is
  configured.\<close>

type_synonym key_func = "JwtToken \<Rightarrow> JWKSCache option \<Rightarrow> (auth_err + public_key) \<times> JWKSCache option"

definition ParseWithClaims ::
  "jwt_env \<Rightarrow> string \<Rightarrow> key_func \<Rightarrow> JWKSCache option \<Rightarrow> (auth_err + JwtToken) \<times> JWKSCache option" where
  "ParseWithClaims env token keyFunc c =
     (case jl_parse env token of
        None \<Rightarrow> (Inl ErrJWT, c)
      | Some t \<Rightarrow>
          (case keyFunc t c of
             (Inl e, c') \<Rightarrow> (Inl e, c')
           | (Inr key, c') \<Rightarrow> (if jl_valid env token key then Inr t else Inl ErrJWT, c')))"

definition checkSigningMethod :: "JwtToken \<Rightarrow> public_key \<Rightarrow> auth_err + unit" where
  "checkSigningMethod t pubKey =
     (case pubKey of
        RSAKey _ _ \<Rightarrow> if jt_method t = SigningMethodRSA then Inr () else Inl ErrJWT
      | ECKey _ _ _ \<Rightarrow> if jt_method t = SigningMethodECDSA then Inr () else Inl ErrJWT
      | OtherKey \<Rightarrow> Inl ErrJWT)"

definition parsePublicKeyPEM :: "jwt_env \<Rightarrow> string \<Rightarrow> auth_err + public_key" where
  "parsePublicKeyPEM env pemData =
     (case jl_pemDecode env pemData of
        None \<Rightarrow> Inl ErrJWT
      | Some block \<Rightarrow>
          (case jl_parsePKIX env block of
             None \<Rightarrow> Inl ErrJWT
           | Some pub \<Rightarrow> if pub = OtherKey then Inl ErrJWT else Inr pub))"

definition jwtKeyFunc :: "jwt_env \<Rightarrow> string \<Rightarrow> TenantGatewayConfig \<Rightarrow> JWKSCache option \<Rightarrow> auth_err + key_func" where
  "jwtKeyFunc env tenantID cfg jwks =
     (if tg_JWKSURL cfg \<noteq> '''' then
        (if jwks = None then Inl ErrJWT
         else Inr (\<lambda>t c.
           if jt_kid t = '''' then (Inl ErrInvalidKid, c)
           else (case c of
                   None \<Rightarrow> (Inl ErrJWT, c)
                 | Some cache \<Rightarrow>
                     (case JWKSCache_Key (jl_now env) (jl_now' env) (jl_http env) tenantID (tg_JWKSURL cfg) (jt_kid t) cache of
                        (Inl _, cache') \<Rightarrow> (Inl ErrInvalidKid, Some cache')
                      | (Inr key, cache') \<Rightarrow>
                          (case checkSigningMethod t key of
                             Inl e \<Rightarrow> (Inl e, Some cache')
                           | Inr _ \<Rightarrow> (Inr key, Some cache'))))))
      else if tg_JWTPublicKeyPEM cfg \<noteq> '''' then
        (case parsePublicKeyPEM env (tg_JWTPublicKeyPEM cfg) of
           Inl e \<Rightarrow> Inl e
         | Inr pubKey \<Rightarrow>
             Inr (\<lambda>t c. (case checkSigningMethod t pubKey of Inl e \<Rightarrow> (Inl e, c) | Inr _ \<Rightarrow> (Inr pubKey, c))))
      else Inl ErrAuthNotConfigured)"

definition validateJWTClaims ::
  "jwt_env \<Rightarrow> string \<Rightarrow> key_func \<Rightarrow> string \<Rightarrow> string \<Rightarrow> bool \<Rightarrow> JWKSCache option \<Rightarrow> (auth_err + unit) \<times> JWKSCache option" where
  "validateJWTClaims env token keyFunc tenantID deviceID requireSub c =
     (case ParseWithClaims env token keyFunc c of
        (Inl e, c') \<Rightarrow> (Inl e, c')
      | (Inr t, c') \<Rightarrow>
          if requireSub \<and> jt_sub t \<noteq> deviceID then (Inl ErrJWT, c')
          else if \<not> requireSub \<and> jt_sub t \<noteq> '''' \<and> jt_sub t \<noteq> deviceID then (Inl ErrJWT, c')
          else if jt_tid t \<noteq> '''' \<and> jt_tid t \<noteq> tenantID then (Inl ErrJWT, c')
          else (Inr (), c'))"

definition ValidateJWT ::
  "jwt_env \<Rightarrow> string \<Rightarrow> string \<Rightarrow> string \<Rightarrow> TenantGatewayConfig \<Rightarrow> JWKSCache option \<Rightarrow> (auth_err + unit) \<times> JWKSCache option" where
  "ValidateJWT env tenantID deviceID token cfg c =
     (case jwtKeyFunc env tenantID cfg c of
        Inl e \<Rightarrow> (Inl e, c) | Inr keyFunc \<Rightarrow> validateJWTClaims env token keyFunc tenantID deviceID True c)"

definition ValidateJWTFromClientID ::
  "jwt_env \<Rightarrow> string \<Rightarrow> string \<Rightarrow> string \<Rightarrow> TenantGatewayConfig \<Rightarrow> JWKSCache option \<Rightarrow> (auth_err + unit) \<times> JWKSCache option" where
  "ValidateJWTFromClientID env tenantID deviceID token cfg c =
     (case jwtKeyFunc env tenantID cfg c of
        Inl e \<Rightarrow> (Inl e, c) | Inr keyFunc \<Rightarrow> validateJWTClaims env token keyFunc tenantID deviceID False c)"

end
