(* ===== verification/Broker.thy ===== *)
theory Broker
  imports Redis Acl
begin

text \<open>
  The self-contained parts of \<open>internal/broker\<close>: the per-key rate limiter (\<open>ratelimit.go\<close>), the keep-alive cap
  (\<open>max_keepalive.go\<close>), the daily volume quota (\<open>internal/forwarder/volume.go\<close>) and the retained message store
  (\<open>retained.go\<close>). The token bucket of \<open>golang.org/x/time/rate\<close>, \<open>net.SplitHostPort\<close> and the rounding of Lua
  numbers are parameters.
\<close>

subsection \<open>Rate limiter\<close>

record 'l rateLimiterEntry =
  re_limiter :: 'l
  re_lastSeen :: int

record 'l keyedRateLimiter =
  rl_ttl :: int
  rl_entries :: "string \<rightharpoonup> 'l rateLimiterEntry"

definition rl_sweep :: "int \<Rightarrow> 'l keyedRateLimiter \<Rightarrow> 'l keyedRateLimiter" where
  "rl_sweep now l =
     l\<lparr>rl_entries := \<lambda>key. (case rl_entries l key of
         None \<Rightarrow> None
       | Some e \<Rightarrow> if now - re_lastSeen e > rl_ttl l then None else Some e)\<rparr>"

text \<open>\<open>fresh\<close> is a new bucket with the configured limit and burst, \<open>Allow now\<close> takes a token from a bucket;
  a limiter that is not configured allows everything.\<close>

definition rl_allow ::
  "'l \<Rightarrow> (int \<Rightarrow> 'l \<Rightarrow> bool \<times> 'l) \<Rightarrow> int \<Rightarrow> string \<Rightarrow> 'l keyedRateLimiter option \<Rightarrow> bool \<times> 'l keyedRateLimiter option" where
  "rl_allow fresh Allow now key limiter =
     (case limiter of
        None \<Rightarrow> (True, None)
      | Some l \<Rightarrow>
          let b = (case rl_entries l key of None \<Rightarrow> fresh | Some e \<Rightarrow> re_limiter e);
              (ok, b') = Allow now b
          in (ok, Some (l\<lparr>rl_entries := (rl_entries l)(key \<mapsto> \<lparr>re_limiter = b', re_lastSeen = now\<rparr>)\<rparr>)))"

definition remoteIP :: "(string \<Rightarrow> string option) \<Rightarrow> string \<Rightarrow> string" where
  "remoteIP splitHost addr = (case splitHost addr of None \<Rightarrow> addr | Some host \<Rightarrow> host)"

subsection \<open>Keep-alive cap\<close>

record keepalive_state =
  ka_Keepalive :: nat
  ka_ServerKeepalive :: bool

definition MaxKeepAlive_OnConnect :: "nat \<Rightarrow> nat \<Rightarrow> nat \<Rightarrow> keepalive_state \<Rightarrow> keepalive_state" where
  "MaxKeepAlive_OnConnect maxSeconds version requested st =
     (if version \<noteq> 5 then st
      else if requested \<noteq> 0 \<and> requested \<le> maxSeconds then st
      else st\<lparr>ka_Keepalive := maxSeconds, ka_ServerKeepalive := True\<rparr>)"

subsection \<open>Daily volume quota\<close>

definition cmd_INCRBY :: "string \<Rightarrow> int \<Rightarrow> int command" where
  "cmd_INCRBY key d k =
     (case k key of
        None \<Rightarrow> (Inr d, k(key \<mapsto> RString (VStr (itoa_int d))))
      | Some (RString (VStr s)) \<Rightarrow>
          (case redis_integer s of
             None \<Rightarrow> (Inl RBadValue, k)
           | Some n \<Rightarrow>
               if n + d < - (2 ^ 63) \<or> n + d \<ge> 2 ^ 63 then (Inl RBadValue, k)
               else (Inr (n + d), k(key \<mapsto> RString (VStr (itoa_int (n + d))))))
      | Some (RString _) \<Rightarrow> (Inl RBadValue, k)
      | _ \<Rightarrow> (Inl RWrongType, k))"

text \<open>\<open>day\<close> is the UTC date of the call.\<close>

definition DailyBytesKey :: "string \<Rightarrow> string \<Rightarrow> string" where
  "DailyBytesKey tenantID day = ''keel:gw:rl:bytes:'' @ tenantID @ '':'' @ day"

text \<open>The script: \<open>tonumber\<close> reads the stored counter and \<open>dbl\<close> rounds to the double that holds a Lua number;
  the expiry it sets does not change a value.\<close>

definition luaCheckAndRecord :: "(string \<Rightarrow> int option) \<Rightarrow> (int \<Rightarrow> int) \<Rightarrow> string \<Rightarrow> int \<Rightarrow> int \<Rightarrow> int command" where
  "luaCheckAndRecord tonumber dbl key mx add k =
     (if dbl mx > 0 then
        (case cmd_GET key k of
           (Inl e, k') \<Rightarrow> (Inl e, k')
         | (Inr v, k') \<Rightarrow>
             let cur = (case v of Some (VStr s) \<Rightarrow> (case tonumber s of None \<Rightarrow> 0 | Some n \<Rightarrow> n) | _ \<Rightarrow> 0)
             in if dbl (cur + dbl add) > dbl mx then (Inr (- 1), k') else cmd_INCRBY key (dbl add) k')
      else cmd_INCRBY key (dbl add) k)"

definition CheckAndRecordBytes ::
  "(string \<Rightarrow> int option) \<Rightarrow> (int \<Rightarrow> int) \<Rightarrow> bool \<Rightarrow> string \<Rightarrow> string \<Rightarrow> int \<Rightarrow> int \<Rightarrow> 's redis_scheme \<Rightarrow> bool \<times> 's redis_scheme" where
  "CheckAndRecordBytes tonumber dbl configured day tenantID msgBytes maxBytes s =
     (if \<not> configured then (True, s)
      else case redis_call (luaCheckAndRecord tonumber dbl (DailyBytesKey tenantID day) maxBytes msgBytes) s of
             (Inl _, s') \<Rightarrow> (True, s')
           | (Inr result, s') \<Rightarrow> (result \<noteq> - 1, s'))"

subsection \<open>Retained messages\<close>

definition retainedKeyPrefix :: string where "retainedKeyPrefix = ''keel:retained:''"
definition retainedIndexKey :: string where "retainedIndexKey = ''keel:retained:index''"

definition retainedKey :: "string \<Rightarrow> string" where
  "retainedKey topic = retainedKeyPrefix @ topic"

definition Retained_Delete :: "string \<Rightarrow> 's redis_scheme \<Rightarrow> (rerr + unit) \<times> 's redis_scheme" where
  "Retained_Delete topic = redis_call (cmd_then (cmd_DEL [retainedKey topic]) (cmd_SREM retainedIndexKey topic))"

definition Retained_Set :: "string \<Rightarrow> string \<Rightarrow> 's redis_scheme \<Rightarrow> (rerr + unit) \<times> 's redis_scheme" where
  "Retained_Set topic payload =
     (if payload = '''' then Retained_Delete topic
      else redis_call (cmd_then (cmd_SET (retainedKey topic) (VStr payload)) (cmd_SADD retainedIndexKey topic)))"

definition containsWildcard :: "string \<Rightarrow> bool" where
  "containsWildcard filt = list_ex (\<lambda>c. c = CHR ''+'' \<or> c = CHR ''#'') filt"

definition cmd_SMEMBERS :: "string \<Rightarrow> string list command" where
  "cmd_SMEMBERS key k =
     (case k key of None \<Rightarrow> (Inr [], k) | Some (RSet ms) \<Rightarrow> (Inr ms, k) | _ \<Rightarrow> (Inl RWrongType, k))"

definition cmd_MGET :: "string list \<Rightarrow> rvalue option list command" where
  "cmd_MGET keys k = (Inr (map (\<lambda>key. case k key of Some (RString v) \<Rightarrow> Some v | _ \<Rightarrow> None) keys), k)"

text \<open>\<open>bytes\<close> is the byte string of a stored value.\<close>

definition Retained_fetch ::
  "(rvalue \<Rightarrow> string) \<Rightarrow> string list \<Rightarrow> 's redis_scheme \<Rightarrow> (rerr + (string \<times> string) list) \<times> 's redis_scheme" where
  "Retained_fetch bytes topics =
     (if topics = [] then rreturn []
      else rbind (redis_call (cmd_MGET (map retainedKey topics)))
             (\<lambda>vals. rreturn (List.map_filter (\<lambda>(t, v). map_option (\<lambda>x. (t, bytes x)) v) (zip topics vals))))"

definition Retained_Match ::
  "(rvalue \<Rightarrow> string) \<Rightarrow> string \<Rightarrow> string list \<Rightarrow> 's redis_scheme \<Rightarrow> (rerr + (string \<times> string) list) \<times> 's redis_scheme" where
  "Retained_Match bytes filt exclude =
     (if \<not> containsWildcard filt then
        (if filt \<in> set exclude then rreturn [] else Retained_fetch bytes [filt])
      else rbind (redis_call (cmd_SMEMBERS retainedIndexKey))
             (\<lambda>members. Retained_fetch bytes (filter (\<lambda>t. t \<notin> set exclude \<and> MatchTopic filt t) members)))"

subsection \<open>Behaviour\<close>

lemma retainedKey_inject [simp]: "retainedKey a = retainedKey b \<longleftrightarrow> a = b"
  by (simp add: retainedKey_def)

lemma retainedKey_index [simp]:
  "retainedKey t = retainedIndexKey \<longleftrightarrow> t = ''index''" "retainedIndexKey = retainedKey t \<longleftrightarrow> t = ''index''"
  by (auto simp: retainedKey_def retainedKeyPrefix_def retainedIndexKey_def)

lemma served_call:
  assumes "rd_world s = []"
  shows "fst (redis_call cmd s) = fst (cmd (rd_ks s))" "rd_ks (snd (redis_call cmd s)) = snd (cmd (rd_ks s))"
    "rd_world (snd (redis_call cmd s)) = []"
  using assms by (simp_all add: redis_call_def redis_step_def Let_def split: prod.splits)

definition retained_index_ok :: "keyspace \<Rightarrow> bool" where
  "retained_index_ok k \<longleftrightarrow> k retainedIndexKey = None \<or> (\<exists>ms. k retainedIndexKey = Some (RSet ms))"

lemma Retained_Set_served:
  assumes "rd_world s = []" "retained_index_ok (rd_ks s)" "topic \<noteq> ''index''" "payload \<noteq> ''''"
  obtains ms where "rd_world (snd (Retained_Set topic payload s)) = []"
    "rd_ks (snd (Retained_Set topic payload s)) retainedIndexKey = Some (RSet ms)" "topic \<in> set ms"
    "rd_ks (snd (Retained_Set topic payload s)) (retainedKey topic) = Some (RString (VStr payload))"
    "fst (Retained_Set topic payload s) = Inr ()"
  using assms that
  by (auto simp: Retained_Set_def served_call cmd_then_def cmd_SET_def cmd_SADD_def retained_index_ok_def
      split: if_splits)

lemma map_filter_member: "x \<in> set (List.map_filter f xs) \<longleftrightarrow> (\<exists>y \<in> set xs. f y = Some x)"
  by (force simp: List.map_filter_def)

lemma Retained_fetch_served:
  assumes "rd_world s = []" "t \<in> set topics" "rd_ks s (retainedKey t) = Some (RString v)"
  shows "\<exists>out. fst (Retained_fetch bytes topics s) = Inr out \<and> (t, bytes v) \<in> set out"
proof -
  have "(t, Some v) \<in> set (zip topics (map (\<lambda>key. case rd_ks s key of Some (RString v) \<Rightarrow> Some v | _ \<Rightarrow> None) (map retainedKey topics)))"
    using assms(2,3) by (auto simp: in_set_conv_nth in_set_zip)
  moreover obtain r s' where r: "redis_call (cmd_MGET (map retainedKey topics)) s = (r, s')" by fastforce
  moreover have "r = fst (cmd_MGET (map retainedKey topics) (rd_ks s))"
    using served_call(1)[OF assms(1), of "cmd_MGET (map retainedKey topics)"] r by simp
  ultimately show ?thesis
    using assms(2)
    by (auto simp: Retained_fetch_def rbind_def rreturn_def cmd_MGET_def map_filter_member)
       (rule bexI[of _ "(t, Some v)"], simp_all)
qed

text \<open>C10. A retained message reaches later subscribers: after \<open>Set\<close> of a non-empty payload is served, \<open>Match\<close> with
  any filter that matches the topic (literally, or by wildcards) and does not exclude it returns the payload. The
  topic must not be \<open>index\<close>, whose key is the index itself.\<close>

theorem retained_set_match:
  assumes "rd_world s = []" "retained_index_ok (rd_ks s)" "topic \<noteq> ''index''" "payload \<noteq> ''''"
    and "\<And>x. bytes (VStr x) = x" "topic \<notin> set exclude"
    and "if containsWildcard filt then MatchTopic filt topic else filt = topic"
  shows "\<exists>out. fst (Retained_Match bytes filt exclude (snd (Retained_Set topic payload s))) = Inr out \<and>
               (topic, payload) \<in> set out"
proof -
  define s1 where "s1 = snd (Retained_Set topic payload s)"
  obtain ms where s1: "rd_world s1 = []" "rd_ks s1 retainedIndexKey = Some (RSet ms)" "topic \<in> set ms"
      "rd_ks s1 (retainedKey topic) = Some (RString (VStr payload))"
    using Retained_Set_served[OF assms(1-4)] unfolding s1_def by metis
  show ?thesis
  proof (cases "containsWildcard filt")
    case False
    then show ?thesis
      using Retained_fetch_served[OF s1(1) _ s1(4), of "[topic]" bytes] assms(5-7)
      by (simp add: Retained_Match_def s1_def[symmetric])
  next
    case True
    define ts where "ts = filter (\<lambda>t. t \<notin> set exclude \<and> MatchTopic filt t) ms"
    obtain s2 where s2: "redis_call (cmd_SMEMBERS retainedIndexKey) s1 = (Inr ms, s2)" "rd_world s2 = []" "rd_ks s2 = rd_ks s1"
      using served_call[OF s1(1), of "cmd_SMEMBERS retainedIndexKey"] s1(2)
      by (cases "redis_call (cmd_SMEMBERS retainedIndexKey) s1") (simp add: cmd_SMEMBERS_def)
    have "topic \<in> set ts" using True assms(6,7) s1(3) by (simp add: ts_def)
    then show ?thesis
      using Retained_fetch_served[OF s2(2), of topic ts "VStr payload" bytes] s1(4) s2 True assms(5)
      by (simp add: Retained_Match_def rbind_def s1_def[symmetric] ts_def)
  qed
qed

text \<open>C34. A retained publish on the topic \<open>index\<close> overwrites the set of retained topics: the call reports an
  error, and afterwards a wildcard subscription is answered with an error, so that no message retained before
  reaches it.\<close>

theorem retained_index_clobbered:
  assumes "rd_world s = []" "payload \<noteq> ''''" "containsWildcard filt"
  shows "fst (Retained_Set ''index'' payload s) = Inl RWrongType \<and>
         fst (Retained_Match bytes filt exclude (snd (Retained_Set ''index'' payload s))) = Inl RWrongType"
proof
  define s1 where "s1 = snd (Retained_Set ''index'' payload s)"
  have k: "retainedKey ''index'' = retainedIndexKey" by simp
  show "fst (Retained_Set ''index'' payload s) = Inl RWrongType"
    using assms(1,2) by (simp add: Retained_Set_def served_call cmd_then_def cmd_SET_def cmd_SADD_def k)
  have s1: "rd_world s1 = []" "rd_ks s1 retainedIndexKey = Some (RString (VStr payload))"
    using assms(1,2) by (simp_all add: s1_def Retained_Set_def served_call cmd_then_def cmd_SET_def cmd_SADD_def k)
  then have "fst (redis_call (cmd_SMEMBERS retainedIndexKey) s1) = Inl RWrongType"
    by (simp add: served_call cmd_SMEMBERS_def)
  then show "fst (Retained_Match bytes filt exclude (snd (Retained_Set ''index'' payload s))) = Inl RWrongType"
    using assms(3)
    by (cases "redis_call (cmd_SMEMBERS retainedIndexKey) s1") (simp add: Retained_Match_def rbind_def s1_def[symmetric])
qed

definition example_retained :: redis where
  "example_retained =
     \<lparr>rd_ks = [retainedIndexKey \<mapsto> RSet [''telemetry/a''], retainedKey ''telemetry/a'' \<mapsto> RString (VStr ''1'')],
      rd_world = [], rd_touched = \<lambda>_. False, rd_log = []\<rparr>"

definition example_bytes :: "rvalue \<Rightarrow> string" where
  "example_bytes v = (case v of VStr s \<Rightarrow> s | _ \<Rightarrow> ''other'')"

lemma retained_set_match_witness:
  "\<exists>out. fst (Retained_Match example_bytes ''telemetry/+'' [''telemetry/a'']
              (snd (Retained_Set ''telemetry/b'' ''2'' example_retained))) = Inr out \<and> (''telemetry/b'', ''2'') \<in> set out"
proof (rule retained_set_match)
  show "if containsWildcard ''telemetry/+'' then MatchTopic ''telemetry/+'' ''telemetry/b'' else ''telemetry/+'' = ''telemetry/b''"
    by code_simp
qed (simp_all add: example_retained_def retained_index_ok_def example_bytes_def)

lemma retained_index_clobbered_witness:
  "fst (Retained_Set ''index'' ''x'' example_retained) = Inl RWrongType \<and>
   fst (Retained_Match example_bytes ''telemetry/#'' [] (snd (Retained_Set ''index'' ''x'' example_retained))) = Inl RWrongType"
  by (rule retained_index_clobbered) (simp_all add: example_retained_def containsWildcard_def)

end
