(* ===== verification/Hooks.thy ===== *)
theory Hooks
  imports Auth Broker Fsm Router Placement Session
begin

text \<open>
  The broker hook (\<open>internal/broker/hooks.go\<close>): authentication of a CONNECT, the connection table with its
  generations and per-tenant counters, access control, the mirror of local subscriptions in the cluster routing
  table, disconnection and expiry, the session resume on another node, and the fan-out of a publish. The hook's
  fields are a record; the calls it makes on the cluster, the provider and the connectors are appended to a
  trace, and what those calls answer is part of the environment. Errors the code only logs have no other effect.
  Metrics, tracing spans and log lines are left out.
\<close>

subsection \<open>State and environment\<close>

text \<open>A connection: \<open>cl_conn\<close> identifies the client object; the subscriptions are listed in the order the loops
  over that map visit them.\<close>

record Client =
  cl_ID :: string
  cl_conn :: nat
  cl_Remote :: string
  cl_PeerCertificates :: "Certificate list"
  cl_ProtocolVersion :: nat
  cl_TakenOver :: bool
  cl_Subscriptions :: "string list"

record clientState =
  cs_info :: DeviceInfo
  cs_method :: AuthMethod
  cs_username :: string
  cs_client :: nat
  cs_generation :: "64 word"

record PublishPacket =
  pk_Topic :: string
  pk_Payload :: string
  pk_Qos :: nat
  pk_SharedFilters :: "string list option"

record Message =
  dm_SourceNodeID :: string
  dm_TenantID :: string
  dm_Topic :: string
  dm_Payload :: string
  dm_QoS :: nat
  dm_PublishID :: string
  dm_SharedFilters :: "string list option"

datatype hook_effect =
    EClaim string string string
  | EEvict string string
  | ERelease string string
  | ELastSeen string
  | EConnection DeviceInfo string
  | EAutoProvision string string
  | ESubscribe string string
  | EUnsubscribe string string
  | EUnsubscribeBatch "string list" string
  | EPlace string string string
  | EClear string string
  | EDeliverOffline string string string nat
  | EForward string Message
  | EOutput DeviceInfo PublishPacket
  | EBackfill string "string list"

text \<open>The cluster registry as the hook sees it. \<open>rg_ClaimSession\<close> answers the node that held the session, or
  \<open>None\<close> on an error; \<open>rg_Batch\<close> tells whether it implements the batch unsubscribe, \<open>rg_LiveDeliveryPlan\<close> is
  present when it implements the planner.\<close>

record registry =
  rg_ClaimSession :: "string \<Rightarrow> string \<Rightarrow> string \<Rightarrow> string option"
  rg_IsRevoked :: "string \<Rightarrow> bool"
  rg_EvaluateACL :: "string \<Rightarrow> string \<Rightarrow> string \<Rightarrow> Action \<Rightarrow> Decision"
  rg_Batch :: bool
  rg_LiveDeliveryPlan :: "(string \<Rightarrow> string \<Rightarrow> string list \<times> (string \<times> string) list option) option"
  rg_NodesFor :: "string \<Rightarrow> string \<Rightarrow> string list"
  rg_OfflineNodesFor :: "string \<Rightarrow> string list"

text \<open>A client object of the MQTT server: whether it is closed, has a network connection or is an inline client,
  its filters and its inflight messages by packet identifier.\<close>

record ServerClient =
  sv_Closed :: bool
  sv_HasConn :: bool
  sv_Inline :: bool
  sv_Subscriptions :: "string list"
  sv_Inflight :: "nat \<rightharpoonup> StoredMessage"

record ('p, 'l) keelHook =
  kh_provider :: 'p
  kh_tenantCache :: TenantConfigCache
  kh_jwksCache :: "JWKSCache option"
  kh_deviceCACache :: "DeviceCACache option"
  kh_rdb :: "redis option"
  kh_retainedStore :: bool
  kh_outputConnectors :: bool
  kh_clusterRegistry :: "registry option"
  kh_clusterFwd :: bool
  kh_clusterNodeID :: string
  kh_offlineOwnership :: bool
  kh_liveEdgeNodeIDs :: "string list option"
  kh_offlineDeliveryStore :: bool
  kh_server :: "(string \<rightharpoonup> ServerClient) option"
  kh_sessionStore :: bool
  kh_clients :: "string \<rightharpoonup> clientState"
  kh_generation :: "string \<Rightarrow> 64 word"
  kh_clusterFilterRefs :: "string \<rightharpoonup> string set"
  kh_tenantConns :: "string \<Rightarrow> int"
  kh_packetReceivedAt :: "nat \<rightharpoonup> int"
  kh_defaultTenantID :: string
  kh_connectLimiter :: "'l keyedRateLimiter option"
  kh_publishLimiter :: "'l keyedRateLimiter option"
  kh_trace :: "hook_effect list"

text \<open>The environment: the provider, the functions of other packages, and per call site the clock readings before
  and after a cache lookup and the answers of the session store.\<close>

record ('p, 'l) hook_env =
  he_ValidatePassword :: "string \<Rightarrow> string \<Rightarrow> 'p \<Rightarrow> (auth_err + DeviceInfo) \<times> 'p"
  he_LookupByCN :: "string \<Rightarrow> string \<Rightarrow> 'p \<Rightarrow> (auth_err + DeviceInfo) \<times> 'p"
  he_parse :: uuid_parser
  he_x509 :: x509
  he_jwt :: jwt_env
  he_tenantDB :: "string \<Rightarrow> TenantGatewayConfig db_row"
  he_caHTTP :: "string \<Rightarrow> string \<Rightarrow> string option option"
  he_clock :: "nat \<Rightarrow> int \<times> int"
  he_freshConnect :: 'l
  he_freshPublish :: 'l
  he_Allow :: "int \<Rightarrow> 'l \<Rightarrow> bool \<times> 'l"
  he_splitHost :: "string \<Rightarrow> string option"
  he_subsFor :: "nat \<Rightarrow> string \<Rightarrow> rerr + StoredSubscription list"
  he_inflightFor :: "string \<Rightarrow> rerr + StoredMessage list"
  he_publishID :: string
  he_tonumber :: "string \<Rightarrow> int option"
  he_dbl :: "int \<Rightarrow> int"
  he_day :: string

definition emit :: "hook_effect list \<Rightarrow> ('p, 'l) keelHook \<Rightarrow> ('p, 'l) keelHook" where
  "emit es h = h\<lparr>kh_trace := kh_trace h @ es\<rparr>"

definition Init :: "('p, 'l) keelHook \<Rightarrow> ('p, 'l) keelHook" where
  "Init h = h\<lparr>kh_clients := Map.empty, kh_generation := \<lambda>_. 0, kh_clusterFilterRefs := Map.empty,
              kh_tenantConns := \<lambda>_. 0, kh_packetReceivedAt := Map.empty\<rparr>"

subsection \<open>Authentication\<close>

definition testConsumerUsername :: string where "testConsumerUsername = ''test-consumer''"
definition testConsumerPassword :: string where "testConsumerPassword = ''consumer-e2e-testpass''"

definition testConsumerDeviceInfo :: DeviceInfo where
  "testConsumerDeviceInfo =
     \<lparr>di_ID = uuid_zero, di_TenantID = uuid_zero, di_TenantSlug = ''test-consumer'', di_FleetID = None,
      di_FleetIDStr = ''nofleet'', di_Identity = ''''\<rparr>"

definition tenant_config ::
  "('p, 'l) hook_env \<Rightarrow> nat \<Rightarrow> string \<Rightarrow> ('p, 'l) keelHook \<Rightarrow> (auth_err + TenantGatewayConfig) \<times> ('p, 'l) keelHook" where
  "tenant_config env site tenantID h =
     (case TenantConfigCache_Get (fst (he_clock env site)) (snd (he_clock env site)) (he_tenantDB env) tenantID (kh_tenantCache h) of
        (r, c) \<Rightarrow> (r, h\<lparr>kh_tenantCache := c\<rparr>))"

definition lookup_device ::
  "('p, 'l) hook_env \<Rightarrow> string \<Rightarrow> string \<Rightarrow> ('p, 'l) keelHook \<Rightarrow> (auth_err + DeviceInfo) \<times> ('p, 'l) keelHook" where
  "lookup_device env deviceID tenantID h =
     (case he_LookupByCN env deviceID tenantID (kh_provider h) of (r, p) \<Rightarrow> (r, h\<lparr>kh_provider := p\<rparr>))"

definition trusted_cas ::
  "('p, 'l) hook_env \<Rightarrow> string \<Rightarrow> TenantGatewayConfig \<Rightarrow> ('p, 'l) keelHook \<Rightarrow> (auth_err + string list option) \<times> ('p, 'l) keelHook" where
  "trusted_cas env tenantID cfg h =
     (case kh_deviceCACache h of
        None \<Rightarrow> (Inr (tg_TrustedCAPEMs cfg), h)
      | Some cache \<Rightarrow>
          if tg_ClavexCAURL cfg = '''' then (Inr (tg_TrustedCAPEMs cfg), h)
          else (case DeviceCACache_TrustedCAPEMs (fst (he_clock env 1)) (snd (he_clock env 1)) (he_caHTTP env) tenantID
                       (tg_ClavexCAURL cfg) (tg_ClavexAgentToken cfg) cache of
                  (Inl e, cache') \<Rightarrow> (Inl e, h\<lparr>kh_deviceCACache := Some cache'\<rparr>)
                | (Inr pems, cache') \<Rightarrow> (Inr (Some pems), h\<lparr>kh_deviceCACache := Some cache'\<rparr>)))"

definition authenticateCert ::
  "('p, 'l) hook_env \<Rightarrow> Certificate \<Rightarrow> ('p, 'l) keelHook \<Rightarrow> (DeviceInfo \<times> AuthMethod) option \<times> ('p, 'l) keelHook" where
  "authenticateCert env cert h =
     (case VerifyCertificate (he_x509 env) cert None of
        Inl _ \<Rightarrow> (None, h)
      | Inr (_, tenantID0) \<Rightarrow>
          (case tenant_config env 0 tenantID0 h of
             (Inl _, h1) \<Rightarrow> (None, h1)
           | (Inr cfg, h1) \<Rightarrow>
               if \<not> tg_CertAuthEnabled cfg then (None, h1)
               else (case trusted_cas env tenantID0 cfg h1 of
                       (Inl _, h2) \<Rightarrow> (None, h2)
                     | (Inr pems, h2) \<Rightarrow>
                         (case VerifyCertificate (he_x509 env) cert pems of
                            Inl _ \<Rightarrow> (None, h2)
                          | Inr (deviceID, tenantID) \<Rightarrow>
                              if (case kh_clusterRegistry h2 of None \<Rightarrow> False | Some rg \<Rightarrow> rg_IsRevoked rg (deviceID @ ''@'' @ tenantID))
                              then (None, h2)
                              else (case lookup_device env deviceID tenantID h2 of
                                      (Inr info, h3) \<Rightarrow>
                                        (Some (info\<lparr>di_Identity := deviceID @ ''@'' @ tenantID\<rparr>, AuthMethodCertificate), h3)
                                    | (Inl _, h3) \<Rightarrow>
                                        if tg_AutoProvisioning cfg then
                                          (Some ((NewPendingDeviceInfo (he_parse env) deviceID tenantID)\<lparr>di_Identity := deviceID @ ''@'' @ tenantID\<rparr>,
                                                 AuthMethodCertificate),
                                           emit [EAutoProvision tenantID deviceID] h3)
                                        else (None, h3))))))"

definition authenticate_jwt ::
  "('p, 'l) hook_env \<Rightarrow> bool \<Rightarrow> string \<Rightarrow> string \<Rightarrow> string \<Rightarrow> TenantGatewayConfig \<Rightarrow> AuthMethod \<Rightarrow> ('p, 'l) keelHook \<Rightarrow>
   (DeviceInfo \<times> AuthMethod) option \<times> ('p, 'l) keelHook" where
  "authenticate_jwt env fromClientID tenantID deviceID password cfg method h =
     (if \<not> tg_JWTAuthEnabled cfg then (None, h)
      else (case (if fromClientID then ValidateJWTFromClientID else ValidateJWT) (he_jwt env) tenantID deviceID password cfg (kh_jwksCache h) of
              (Inl _, c) \<Rightarrow> (None, h\<lparr>kh_jwksCache := c\<rparr>)
            | (Inr _, c) \<Rightarrow>
                (case lookup_device env deviceID tenantID (h\<lparr>kh_jwksCache := c\<rparr>) of
                   (Inl _, h') \<Rightarrow> (None, h')
                 | (Inr info, h') \<Rightarrow> (Some (info, method), h'))))"

definition credential_names :: "string \<Rightarrow> string \<Rightarrow> string \<Rightarrow> string \<times> string" where
  "credential_names defaultTenantID clientID username =
     (case go_splitn (CHR ''@'') 2 username of
        [deviceID, tenantID] \<Rightarrow> (deviceID, tenantID)
      | _ \<Rightarrow> if username \<noteq> '''' then (username, defaultTenantID) else (clientID, defaultTenantID))"

definition authenticate ::
  "('p, 'l) hook_env \<Rightarrow> Client \<Rightarrow> string \<Rightarrow> string \<Rightarrow> ('p, 'l) keelHook \<Rightarrow> (DeviceInfo \<times> AuthMethod) option \<times> ('p, 'l) keelHook" where
  "authenticate env cl username password h =
     (case cl_PeerCertificates cl of
        cert # _ \<Rightarrow> authenticateCert env cert h
      | [] \<Rightarrow>
          if username = testConsumerUsername then
            (if password = testConsumerPassword then (Some (testConsumerDeviceInfo, authMethodTestConsumer), h) else (None, h))
          else
            (case (ParseClientIdentifier (cl_ID cl), password) of
               (Some (tid, did), _ # _) \<Rightarrow>
                 (case tenant_config env 0 tid h of
                    (Inl _, h1) \<Rightarrow> (None, h1)
                  | (Inr cfg, h1) \<Rightarrow> authenticate_jwt env True tid did password cfg (DetectAuthMethod password) h1)
             | _ \<Rightarrow>
                 (case credential_names (kh_defaultTenantID h) (cl_ID cl) username of
                    (deviceID, tenantID) \<Rightarrow>
                      (case tenant_config env 0 tenantID h of
                         (Inl _, h1) \<Rightarrow> (None, h1)
                       | (Inr cfg, h1) \<Rightarrow>
                           if DetectAuthMethod password = AuthMethodJWT then
                             authenticate_jwt env False tenantID deviceID password cfg AuthMethodJWT h1
                           else if \<not> tg_PasswordAuthEnabled cfg then (None, h1)
                           else (case he_ValidatePassword env deviceID password (kh_provider h1) of
                                   (Inl _, p) \<Rightarrow> (None, h1\<lparr>kh_provider := p\<rparr>)
                                 | (Inr info, p) \<Rightarrow> (Some (info, AuthMethodPassword), h1\<lparr>kh_provider := p\<rparr>))))))"

text \<open>\<open>autoProvision\<close> over the outcomes of its requests: the result it counts and the attempts it made. A request
  that cannot be built ends the loop.\<close>

datatype provision_outcome = RequestError | DoError | Status nat
datatype provision_result = ProvCreated | ProvExists | ProvError

fun provision_attempts :: "nat \<Rightarrow> (nat \<Rightarrow> provision_outcome) \<Rightarrow> nat \<Rightarrow> provision_result \<times> nat" where
  "provision_attempts 0 outcome made = (ProvError, made)"
| "provision_attempts (Suc n) outcome made =
     (case outcome made of
        RequestError \<Rightarrow> (ProvError, made)
      | DoError \<Rightarrow> provision_attempts n outcome (Suc made)
      | Status st \<Rightarrow>
          if st = 201 \<or> st = 200 then (ProvCreated, Suc made)
          else if st = 409 then (ProvExists, Suc made)
          else provision_attempts n outcome (Suc made))"

definition autoProvision :: "string \<Rightarrow> (nat \<Rightarrow> provision_outcome) \<Rightarrow> provision_result \<times> nat" where
  "autoProvision url outcome = (if url = '''' then (ProvError, 0) else provision_attempts 3 outcome 0)"

subsection \<open>Connecting\<close>

definition forwardConnectionEvent :: "DeviceInfo \<Rightarrow> string \<Rightarrow> ('p, 'l) keelHook \<Rightarrow> ('p, 'l) keelHook" where
  "forwardConnectionEvent info st h = (if kh_outputConnectors h then emit [EConnection info st] h else h)"

definition claimClusterSession :: "string \<Rightarrow> string \<Rightarrow> string \<Rightarrow> ('p, 'l) keelHook \<Rightarrow> bool \<times> ('p, 'l) keelHook" where
  "claimClusterSession clientID tenantStr identity h =
     (case kh_clusterRegistry h of
        None \<Rightarrow> (True, h)
      | Some rg \<Rightarrow>
          let h1 = emit [EClaim clientID (kh_clusterNodeID h) identity] h in
          (case rg_ClaimSession rg clientID (kh_clusterNodeID h) identity of
             None \<Rightarrow>
               (False, h1\<lparr>kh_clients := (kh_clients h1)(clientID := None),
                          kh_tenantConns := (if kh_tenantConns h1 tenantStr > 0
                                             then (kh_tenantConns h1)(tenantStr := kh_tenantConns h1 tenantStr - 1)
                                             else kh_tenantConns h1)\<rparr>)
           | Some evictedFrom \<Rightarrow>
               (True, if evictedFrom \<noteq> '''' \<and> evictedFrom \<noteq> kh_clusterNodeID h \<and> kh_clusterFwd h
                      then emit [EEvict evictedFrom clientID] h1 else h1)))"

definition register_connection :: "Client \<Rightarrow> string \<Rightarrow> DeviceInfo \<Rightarrow> AuthMethod \<Rightarrow> ('p, 'l) keelHook \<Rightarrow> ('p, 'l) keelHook" where
  "register_connection cl username info method h =
     (let g = kh_generation h (cl_ID cl) + 1; ts = di_TenantID info in
      h\<lparr>kh_generation := (kh_generation h)(cl_ID cl := g),
        kh_clients := (kh_clients h)(cl_ID cl \<mapsto>
          \<lparr>cs_info = info, cs_method = method, cs_username = username, cs_client = cl_conn cl, cs_generation = g\<rparr>),
        kh_tenantConns := (kh_tenantConns h)(ts := kh_tenantConns h ts + 1)\<rparr>)"

definition over_connection_limit :: "auth_err + TenantGatewayConfig \<Rightarrow> string \<Rightarrow> ('p, 'l) keelHook \<Rightarrow> bool" where
  "over_connection_limit r tenantStr h =
     (case r of Inl _ \<Rightarrow> False | Inr cfg \<Rightarrow> tg_MaxConnections cfg > 0 \<and> kh_tenantConns h tenantStr \<ge> tg_MaxConnections cfg)"

definition OnConnectAuthenticate ::
  "('p, 'l) hook_env \<Rightarrow> Client \<Rightarrow> string \<Rightarrow> string \<Rightarrow> ('p, 'l) keelHook \<Rightarrow> bool \<times> ('p, 'l) keelHook" where
  "OnConnectAuthenticate env cl username password h =
     (case rl_allow (he_freshConnect env) (he_Allow env) (fst (he_clock env 3)) (remoteIP (he_splitHost env) (cl_Remote cl)) (kh_connectLimiter h) of
        (False, l) \<Rightarrow> (False, h\<lparr>kh_connectLimiter := l\<rparr>)
      | (True, l) \<Rightarrow>
          (case authenticate env cl username password (h\<lparr>kh_connectLimiter := l\<rparr>) of
             (None, h1) \<Rightarrow> (False, h1)
           | (Some (info, method), h1) \<Rightarrow>
               (case tenant_config env 2 (di_TenantID info) h1 of
                  (cfg, h2) \<Rightarrow>
                    if over_connection_limit cfg (di_TenantID info) h2 then (False, h2)
                    else (case claimClusterSession (cl_ID cl) (di_TenantID info) (di_Identity info) (register_connection cl username info method h2) of
                            (False, h3) \<Rightarrow> (False, h3)
                          | (True, h3) \<Rightarrow> (True, forwardConnectionEvent info ''online'' (emit [ELastSeen (di_ID info)] h3))))))"

subsection \<open>Routing table mirror\<close>

definition addClusterFilterRef :: "string \<Rightarrow> string \<Rightarrow> ('p, 'l) keelHook \<Rightarrow> bool \<times> ('p, 'l) keelHook" where
  "addClusterFilterRef clientID filt h =
     (let clients = (case kh_clusterFilterRefs h filt of None \<Rightarrow> {} | Some cs \<Rightarrow> cs) in
      (clients = {}, h\<lparr>kh_clusterFilterRefs := (kh_clusterFilterRefs h)(filt \<mapsto> insert clientID clients)\<rparr>))"

fun removeClusterFilterRefs :: "string \<Rightarrow> string list \<Rightarrow> ('p, 'l) keelHook \<Rightarrow> string list \<times> ('p, 'l) keelHook" where
  "removeClusterFilterRefs clientID [] h = ([], h)"
| "removeClusterFilterRefs clientID (filt # fs) h =
     (case kh_clusterFilterRefs h filt of
        None \<Rightarrow> (let (lastUsers, h') = removeClusterFilterRefs clientID fs h in (filt # lastUsers, h'))
      | Some clients \<Rightarrow>
          if clients - {clientID} = {} then
            (let (lastUsers, h') = removeClusterFilterRefs clientID fs (h\<lparr>kh_clusterFilterRefs := (kh_clusterFilterRefs h)(filt := None)\<rparr>)
             in (filt # lastUsers, h'))
          else removeClusterFilterRefs clientID fs (h\<lparr>kh_clusterFilterRefs := (kh_clusterFilterRefs h)(filt \<mapsto> clients - {clientID})\<rparr>))"

definition subscribe_filter :: "string \<Rightarrow> string \<Rightarrow> ('p, 'l) keelHook \<Rightarrow> ('p, 'l) keelHook" where
  "subscribe_filter clientID filt h =
     (case addClusterFilterRef clientID filt h of
        (first, h') \<Rightarrow> if first then emit [ESubscribe filt (kh_clusterNodeID h)] h' else h')"

definition subscribeClusterFilters :: "string \<Rightarrow> string list \<Rightarrow> ('p, 'l) keelHook \<Rightarrow> ('p, 'l) keelHook" where
  "subscribeClusterFilters clientID filters h =
     (if kh_clusterRegistry h = None then h else fold (subscribe_filter clientID) filters h)"

definition subscribeClusterFiltersFromStorage :: "string \<Rightarrow> StoredSubscription list \<Rightarrow> ('p, 'l) keelHook \<Rightarrow> ('p, 'l) keelHook" where
  "subscribeClusterFiltersFromStorage clientID subs h =
     (if kh_clusterRegistry h = None then h else fold (\<lambda>s. subscribe_filter clientID (st_Filter s)) subs h)"

definition unsubscribeClusterFilters :: "Client \<Rightarrow> ('p, 'l) keelHook \<Rightarrow> ('p, 'l) keelHook" where
  "unsubscribeClusterFilters cl h =
     (case kh_clusterRegistry h of
        None \<Rightarrow> h
      | Some rg \<Rightarrow>
          if cl_Subscriptions cl = [] then h
          else (case removeClusterFilterRefs (cl_ID cl) (cl_Subscriptions cl) h of
                  (filters, h') \<Rightarrow>
                    if filters = [] then h'
                    else if rg_Batch rg then emit [EUnsubscribeBatch filters (kh_clusterNodeID h)] h'
                    else emit (map (\<lambda>f. EUnsubscribe f (kh_clusterNodeID h)) filters) h'))"

text \<open>The filters of a packet pass through a map: one entry per filter.\<close>

definition Hook_OnSubscribed :: "Client \<Rightarrow> string list \<Rightarrow> ('p, 'l) keelHook \<Rightarrow> ('p, 'l) keelHook" where
  "Hook_OnSubscribed cl filters h =
     (let h1 = subscribeClusterFilters (cl_ID cl) (remdups filters) h
      in if kh_retainedStore h then emit [EBackfill (cl_ID cl) filters] h1 else h1)"

definition Hook_OnUnsubscribed :: "Client \<Rightarrow> string list \<Rightarrow> ('p, 'l) keelHook \<Rightarrow> ('p, 'l) keelHook" where
  "Hook_OnUnsubscribed cl filters h =
     (if kh_clusterRegistry h = None then h
      else (case removeClusterFilterRefs (cl_ID cl) (remdups filters) h of
              (lastUsers, h') \<Rightarrow> emit (map (\<lambda>f. EUnsubscribe f (kh_clusterNodeID h)) lastUsers) h'))"

subsection \<open>Disconnecting and resuming\<close>

definition placeOfflineOwnership :: "Client \<Rightarrow> ('p, 'l) keelHook \<Rightarrow> ('p, 'l) keelHook" where
  "placeOfflineOwnership cl h =
     (if \<not> kh_offlineOwnership h then h
      else case kh_liveEdgeNodeIDs h of
             None \<Rightarrow> h
           | Some nodes \<Rightarrow>
               (case Owner (cl_ID cl) nodes of
                  None \<Rightarrow> h
                | Some owner \<Rightarrow> emit (map (\<lambda>f. EPlace (cl_ID cl) f owner) (cl_Subscriptions cl)) h))"

definition clearOfflineOwnership :: "('p, 'l) hook_env \<Rightarrow> string \<Rightarrow> ('p, 'l) keelHook \<Rightarrow> ('p, 'l) keelHook" where
  "clearOfflineOwnership env clientID h =
     (if \<not> kh_offlineOwnership h then h
      else case he_subsFor env 0 clientID of
             Inl _ \<Rightarrow> h
           | Inr subs \<Rightarrow> emit (map (\<lambda>s. EClear clientID (st_Filter s)) subs) h)"

definition tracked_connection :: "Client \<Rightarrow> ('p, 'l) keelHook \<Rightarrow> clientState option" where
  "tracked_connection cl h =
     (case kh_clients h (cl_ID cl) of
        None \<Rightarrow> None
      | Some st \<Rightarrow> if cs_client st = cl_conn cl \<and> cs_generation st = kh_generation h (cl_ID cl) then Some st else None)"

definition forget_client :: "string \<Rightarrow> ('p, 'l) keelHook \<Rightarrow> ('p, 'l) keelHook" where
  "forget_client clientID h =
     h\<lparr>kh_clients := (kh_clients h)(clientID := None), kh_generation := (kh_generation h)(clientID := 0)\<rparr>"

definition Hook_OnDisconnect :: "Client \<Rightarrow> bool \<Rightarrow> ('p, 'l) keelHook \<Rightarrow> ('p, 'l) keelHook" where
  "Hook_OnDisconnect cl expire h =
     (case tracked_connection cl h of
        None \<Rightarrow> h
      | Some st \<Rightarrow>
          let cleanup = (expire \<or> cl_TakenOver cl);
              ts = di_TenantID (cs_info st);
              h1 = (if kh_tenantConns h ts > 0 then h\<lparr>kh_tenantConns := (kh_tenantConns h)(ts := kh_tenantConns h ts - 1)\<rparr> else h);
              h2 = (if cleanup then forget_client (cl_ID cl) h1 else h1);
              h3 = forwardConnectionEvent (cs_info st) ''offline'' h2;
              h4 = unsubscribeClusterFilters cl (if cleanup then h3 else placeOfflineOwnership cl h3)
          in if kh_clusterRegistry h4 = None then h4 else emit [ERelease (cl_ID cl) (kh_clusterNodeID h4)] h4)"

definition Hook_OnClientExpired :: "Client \<Rightarrow> ('p, 'l) keelHook \<Rightarrow> ('p, 'l) keelHook" where
  "Hook_OnClientExpired cl h =
     (case kh_clients h (cl_ID cl) of
        None \<Rightarrow> h
      | Some st \<Rightarrow> if cs_client st = cl_conn cl then unsubscribeClusterFilters cl (forget_client (cl_ID cl) h) else h)"

definition add_inflight :: "StoredMessage list \<Rightarrow> ServerClient \<Rightarrow> ServerClient" where
  "add_inflight ms sv = sv\<lparr>sv_Inflight := fold (\<lambda>m f. f(sm_PacketID m \<mapsto> m)) ms (sv_Inflight sv)\<rparr>"

definition OnSessionEstablish :: "('p, 'l) hook_env \<Rightarrow> Client \<Rightarrow> bool \<Rightarrow> ('p, 'l) keelHook \<Rightarrow> ('p, 'l) keelHook" where
  "OnSessionEstablish env cl clean h0 =
     (case kh_server h0 of
        None \<Rightarrow> h0
      | Some server \<Rightarrow>
          if \<not> kh_sessionStore h0 \<or> clean then h0
          else
            let h = clearOfflineOwnership env (cl_ID cl) h0 in
            (case server (cl_ID cl) of
               Some existing \<Rightarrow>
                 let existing' =
                       (if \<not> sv_Closed existing \<and> sv_HasConn existing then existing
                        else case he_inflightFor env (cl_ID cl) of Inl _ \<Rightarrow> existing | Inr ms \<Rightarrow> add_inflight ms existing)
                 in subscribeClusterFilters (cl_ID cl) (sv_Subscriptions existing') (h\<lparr>kh_server := Some (server(cl_ID cl \<mapsto> existing'))\<rparr>)
             | None \<Rightarrow>
                 (case (he_subsFor env 1 (cl_ID cl), he_inflightFor env (cl_ID cl)) of
                    (Inr subs, Inr inflight) \<Rightarrow>
                      if subs = [] \<and> inflight = [] then h
                      else
                        let ghost = add_inflight inflight
                              \<lparr>sv_Closed = False, sv_HasConn = False, sv_Inline = False, sv_Subscriptions = remdups (map st_Filter subs), sv_Inflight = Map.empty\<rparr>
                        in subscribeClusterFiltersFromStorage (cl_ID cl) subs (h\<lparr>kh_server := Some (server(cl_ID cl \<mapsto> ghost))\<rparr>)
                  | _ \<Rightarrow> h)))"

subsection \<open>Access control\<close>

definition isAllowedConsumerSubscribe :: "string \<Rightarrow> bool" where
  "isAllowedConsumerSubscribe topic0 =
     (let topic = (case SharedFilter topic0 of None \<Rightarrow> topic0 | Some (_, inner) \<Rightarrow> inner) in
      topic = ''telemetry/#'' \<or> topic = ''telemetry'' \<or>
      has_prefix topic ''telemetry/'' \<and> \<not> list_ex (\<lambda>c. c = CHR ''+'' \<or> c = CHR ''#'') topic)"

definition isHonoTopicShape :: "string \<Rightarrow> string \<Rightarrow> DeviceInfo \<Rightarrow> bool" where
  "isHonoTopicShape topic pfx info = has_prefix (drop (length pfx) topic) (di_TenantID info @ ''/'')"

definition isHonoTopicOwned :: "string \<Rightarrow> string \<Rightarrow> DeviceInfo \<Rightarrow> bool" where
  "isHonoTopicOwned topic pfx info =
     (let rest = drop (length pfx) topic; td = di_TenantID info @ ''/'' @ di_ID info in
      rest = td \<or> has_prefix rest (td @ ''/''))"

definition allowed_direct_publish :: "string \<Rightarrow> DeviceInfo \<Rightarrow> bool" where
  "allowed_direct_publish topic info =
     (if topic \<in> set [''telemetry'', ''t'', ''event'', ''e'', ''status/heartbeat'', ''status/ota'', ''status/ca''] then True
      else if length topic > 2 \<and> (take 2 topic = ''t/'' \<or> take 2 topic = ''e/'') then True
      else if length topic > 10 \<and> take 10 topic = ''telemetry/'' then
        isHonoTopicOwned topic ''telemetry/'' info \<or> \<not> isHonoTopicShape topic ''telemetry/'' info
      else if length topic > 6 \<and> take 6 topic = ''event/'' then
        isHonoTopicOwned topic ''event/'' info \<or> \<not> isHonoTopicShape topic ''event/'' info
      else False)"

function isAllowedPublish :: "uuid_parser \<Rightarrow> string \<Rightarrow> DeviceInfo \<Rightarrow> bool" where
  "isAllowedPublish parse topic info =
     (if take 4 topic = ''via/'' then
        (let rest = drop 4 topic; subID = takeWhile (\<lambda>c. c \<noteq> CHR ''/'') rest in
         if subID \<noteq> '''' \<and> length subID < length rest \<and> parse subID \<noteq> None
         then isAllowedPublish parse (drop (length subID + 1) rest) info
         else False)
      else allowed_direct_publish topic info)"
  by pat_completeness auto
termination by (relation "measure (\<lambda>(_, topic, _). length topic)") auto

definition OnACLCheck :: "uuid_parser \<Rightarrow> Client \<Rightarrow> string \<Rightarrow> bool \<Rightarrow> ('p, 'l) keelHook \<Rightarrow> bool" where
  "OnACLCheck parse cl topic write h =
     (case kh_clients h (cl_ID cl) of
        None \<Rightarrow> False
      | Some st \<Rightarrow>
          let action = (if write then ActionPublish else ActionSubscribe);
              decision = (case kh_clusterRegistry h of None \<Rightarrow> None | Some rg \<Rightarrow> Some (rg_EvaluateACL rg (cl_ID cl) (cs_username st) topic action));
              info = cs_info st
          in if (case decision of None \<Rightarrow> False | Some d \<Rightarrow> DecRule d \<noteq> None) then Allowed (the decision)
             else if cs_method st = authMethodTestConsumer then \<not> write \<and> isAllowedConsumerSubscribe topic
             else if write then isAllowedPublish parse topic info
             else topic = ''command/'' @ di_ID info \<or> topic = ''command/'' @ di_ID info @ ''/#'' \<or>
                  topic = ''command/'' @ di_TenantID info @ ''//'' @ di_ID info @ ''/req/#'')"

subsection \<open>Publishing\<close>

definition OnPacketRead :: "int \<Rightarrow> Client \<Rightarrow> bool \<Rightarrow> ('p, 'l) keelHook \<Rightarrow> ('p, 'l) keelHook" where
  "OnPacketRead now cl publish h =
     (if publish then h\<lparr>kh_packetReceivedAt := (kh_packetReceivedAt h)(cl_conn cl \<mapsto> now)\<rparr> else h)"

definition OnPacketProcessed :: "Client \<Rightarrow> bool \<Rightarrow> ('p, 'l) keelHook \<Rightarrow> ('p, 'l) keelHook" where
  "OnPacketProcessed cl publish h =
     (if publish then h\<lparr>kh_packetReceivedAt := (kh_packetReceivedAt h)(cl_conn cl := None)\<rparr> else h)"

record subscribers =
  ss_Subscriptions :: "string list"
  ss_Shared :: "(string \<times> string list) list"

definition live_client :: "(string \<rightharpoonup> ServerClient) \<Rightarrow> string \<Rightarrow> bool" where
  "live_client server clientID = (case server clientID of None \<Rightarrow> False | Some sv \<Rightarrow> \<not> sv_Closed sv \<and> (sv_Inline sv \<or> sv_HasConn sv))"

definition OnSelectSubscribers :: "subscribers \<Rightarrow> PublishPacket \<Rightarrow> ('p, 'l) keelHook \<Rightarrow> subscribers" where
  "OnSelectSubscribers subs pk h =
     (case (kh_clusterRegistry h, kh_server h) of
        (Some _, Some server) \<Rightarrow>
          \<lparr>ss_Subscriptions = (if kh_offlineDeliveryStore h then filter (live_client server) (ss_Subscriptions subs) else ss_Subscriptions subs),
           ss_Shared =
             filter (\<lambda>(_, ms). ms \<noteq> [])
               (map (\<lambda>(f, ms). (f, filter (live_client server) ms))
                 (filter (\<lambda>(f, _). case pk_SharedFilters pk of None \<Rightarrow> True | Some allowed \<Rightarrow> f \<in> set allowed) (ss_Shared subs)))\<rparr>
      | _ \<Rightarrow> subs)"

definition fanOutPlan :: "registry \<Rightarrow> string \<Rightarrow> string \<Rightarrow> string list \<times> (string \<times> string) list option" where
  "fanOutPlan rg self topic =
     (let (live, sharedNodes) =
            (case rg_LiveDeliveryPlan rg of Some plan \<Rightarrow> plan topic self | None \<Rightarrow> (rg_NodesFor rg topic self, None));
          offline = rg_OfflineNodesFor rg topic
      in if offline = [] then (live, sharedNodes)
         else (fold (\<lambda>n out. if n \<in> set out then out else out @ [n]) (live @ offline) [], sharedNodes))"

definition sharedFiltersForNode :: "(string \<times> string) list option \<Rightarrow> string \<Rightarrow> string list option" where
  "sharedFiltersForNode selected nodeID =
     map_option (\<lambda>m. map fst (filter (\<lambda>(_, target). target = nodeID) m)) selected"

definition forwardClusterTargets :: "string \<Rightarrow> string list \<Rightarrow> Message \<Rightarrow> (string \<times> string) list option \<Rightarrow> hook_effect list" where
  "forwardClusterTargets self nodes msg sharedNodes =
     map (\<lambda>n. EForward n (if sharedNodes = None then msg else msg\<lparr>dm_SharedFilters := sharedFiltersForNode sharedNodes n\<rparr>))
       (filter (\<lambda>n. n \<noteq> self) nodes)"

definition forwardToClusterSubscribers ::
  "('p, 'l) hook_env \<Rightarrow> DeviceInfo \<Rightarrow> PublishPacket \<Rightarrow> ('p, 'l) keelHook \<Rightarrow> string list option \<times> ('p, 'l) keelHook" where
  "forwardToClusterSubscribers env info pk h =
     (case kh_clusterRegistry h of
        None \<Rightarrow> (None, h)
      | Some rg \<Rightarrow>
          let self = kh_clusterNodeID h;
              h1 = (if kh_offlineDeliveryStore h \<and> pk_Qos pk \<noteq> 0
                    then emit [EDeliverOffline (he_publishID env) (pk_Topic pk) (pk_Payload pk) (pk_Qos pk)] h else h);
              (nodes, sharedNodes) = fanOutPlan rg self (pk_Topic pk);
              localShared = sharedFiltersForNode sharedNodes self
          in if \<not> kh_clusterFwd h \<or> nodes = [] then (localShared, h1)
             else (localShared,
                   emit (forwardClusterTargets self nodes
                           \<lparr>dm_SourceNodeID = self, dm_TenantID = di_TenantID info, dm_Topic = pk_Topic pk, dm_Payload = pk_Payload pk,
                            dm_QoS = pk_Qos pk, dm_PublishID = he_publishID env, dm_SharedFilters = None\<rparr> sharedNodes) h1))"

definition withinDataVolumeLimit :: "('p, 'l) hook_env \<Rightarrow> string \<Rightarrow> nat \<Rightarrow> ('p, 'l) keelHook \<Rightarrow> bool \<times> ('p, 'l) keelHook" where
  "withinDataVolumeLimit env tenantID payloadBytes h =
     (case kh_rdb h of
        None \<Rightarrow> (True, h)
      | Some rdb \<Rightarrow>
          (case tenant_config env 4 tenantID h of
             (r, h1) \<Rightarrow>
               let maxBytes = (case r of Inl _ \<Rightarrow> 0 | Inr cfg \<Rightarrow> tg_MaxBytesPerDay cfg) in
               (case CheckAndRecordBytes (he_tonumber env) (he_dbl env) True (he_day env) tenantID (int payloadBytes) maxBytes rdb of
                  (ok, rdb') \<Rightarrow> (ok, h1\<lparr>kh_rdb := Some rdb'\<rparr>))))"

datatype publish_result = PublishOK | PublishQuotaExceeded | PublishRejected

definition OnPublish :: "('p, 'l) hook_env \<Rightarrow> Client \<Rightarrow> PublishPacket \<Rightarrow> ('p, 'l) keelHook \<Rightarrow> (PublishPacket \<times> publish_result) \<times> ('p, 'l) keelHook" where
  "OnPublish env cl pk h0 =
     (case kh_clients h0 (cl_ID cl) of
        None \<Rightarrow> ((pk, PublishOK), h0)
      | Some st \<Rightarrow>
          let info = cs_info st; ts = di_TenantID info;
              h = h0\<lparr>kh_packetReceivedAt := (kh_packetReceivedAt h0)(cl_conn cl := None)\<rparr>;
              (ok, l) = (if ts = uuid_zero then (True, kh_publishLimiter h)
                         else rl_allow (he_freshPublish env) (he_Allow env) (fst (he_clock env 3)) ts (kh_publishLimiter h));
              h1 = h\<lparr>kh_publishLimiter := l\<rparr>
          in if \<not> ok then
               ((pk, if cl_ProtocolVersion cl = 5 \<and> pk_Qos pk > 0 then PublishQuotaExceeded else PublishRejected), h1)
             else
               (case forwardToClusterSubscribers env info pk h1 of
                  (shared, h2) \<Rightarrow>
                    let pk' = pk\<lparr>pk_SharedFilters := shared\<rparr>;
                        h3 = (if kh_outputConnectors h2
                              then (case withinDataVolumeLimit env ts (length (pk_Payload pk)) h2 of
                                      (within, h') \<Rightarrow> if within then emit [EOutput info pk'] h' else h')
                              else h2)
                    in ((pk', PublishOK), emit [ELastSeen (di_ID info)] h3)))"


subsection \<open>Retained backfill and offline delivery\<close>

text \<open>\<open>local\<close> lists the topics whose retained message the server delivers itself, \<open>None\<close> without a server; the
  result is the messages written to the client.\<close>

fun deliverRetainedBackfill ::
  "(rvalue \<Rightarrow> string) \<Rightarrow> uuid_parser \<Rightarrow> (string \<Rightarrow> string list) option \<Rightarrow> Client \<Rightarrow> string list \<Rightarrow> ('p, 'l) keelHook \<Rightarrow> redis \<Rightarrow>
   (string \<times> string) list \<times> redis" where
  "deliverRetainedBackfill bytes parse loc cl [] h s = ([], s)"
| "deliverRetainedBackfill bytes parse loc cl (f # fs) h s =
     (if IsSharedFilter f then deliverRetainedBackfill bytes parse loc cl fs h s
      else
        let exclude = (case loc of None \<Rightarrow> [] | Some topics \<Rightarrow> topics f) in
        (case Retained_Match bytes f exclude s of
           (Inl _, s1) \<Rightarrow> deliverRetainedBackfill bytes parse loc cl fs h s1
         | (Inr msgs, s1) \<Rightarrow>
             (case deliverRetainedBackfill bytes parse loc cl fs h s1 of
                (out, s2) \<Rightarrow> (filter (\<lambda>(t, _). OnACLCheck parse cl t False h) msgs @ out, s2))))"

definition OnRetainMessage :: "PublishPacket \<Rightarrow> ('p, 'l) keelHook \<Rightarrow> redis \<Rightarrow> redis" where
  "OnRetainMessage pk h s = (if kh_retainedStore h then snd (Retained_Set (pk_Topic pk) (pk_Payload pk) s) else s)"

text \<open>The part of the registry that offline delivery uses: the candidate selector when it is implemented, else the
  owned clients and, when implemented, the choice for shared filters.\<close>

record offlineDeliveryRegistry =
  dr_Candidates :: "(string \<Rightarrow> string \<Rightarrow> string list \<times> (string \<rightharpoonup> string)) option"
  dr_OwnedClientIDs :: "string \<Rightarrow> string list"
  dr_SharedClientsFor :: "(string \<Rightarrow> string \<Rightarrow> (string \<rightharpoonup> string)) option"

definition offline_candidates :: "offlineDeliveryRegistry \<Rightarrow> string \<Rightarrow> string \<Rightarrow> string list \<times> (string \<rightharpoonup> string)" where
  "offline_candidates rg topic nodeID =
     (case dr_Candidates rg of
        Some candidates \<Rightarrow> candidates topic nodeID
      | None \<Rightarrow>
          (dr_OwnedClientIDs rg nodeID,
           case dr_SharedClientsFor rg of None \<Rightarrow> Map.empty | Some shared \<Rightarrow> shared topic nodeID))"

definition DeliverOffline ::
  "offlineDeliveryRegistry option \<Rightarrow> ((string list \<Rightarrow> 'q \<Rightarrow> (rerr + OfflineSession list) \<times> 'q) \<times>
     (string \<Rightarrow> InflightMessage \<Rightarrow> 'q \<Rightarrow> 'q \<times> (rerr + nat \<times> bool))) option \<Rightarrow>
   string \<Rightarrow> string \<Rightarrow> string \<Rightarrow> nat \<Rightarrow> 'q \<Rightarrow> 'q" where
  "DeliverOffline registry store nodeID topic payload qos q =
     (case (registry, store) of
        (Some rg, Some (sessions_of, queue)) \<Rightarrow>
          if qos = 0 then q
          else (case offline_candidates rg topic nodeID of
                  (owned, sharedSelected) \<Rightarrow>
                    if owned = [] then q
                    else (case sessions_of owned q of
                            (Inl _, q') \<Rightarrow> q'
                          | (Inr sessions, q') \<Rightarrow> fst (Deliver queue (Some sharedSelected) sessions topic payload qos q')))
      | _ \<Rightarrow> q)"


end
