(* ===== verification/HookProps.thy ===== *)
theory HookProps
  imports Hooks
begin

text \<open>
  What the broker hook guarantees: which evidence an accepted CONNECT rests on, how the providers bind a device to
  a tenant, the connection counters, and the mirror of local subscriptions in the cluster routing table as an
  invariant of every handler.
\<close>

subsection \<open>Providers\<close>

text \<open>What the hook relies on: a device found for a tenant belongs to that tenant.\<close>

locale tenant_bound =
  fixes parse :: uuid_parser
    and lookup :: "string \<Rightarrow> string \<Rightarrow> 'p \<Rightarrow> (auth_err + DeviceInfo) \<times> 'p"
  assumes bound: "lookup d t p = (Inr info, p') \<Longrightarrow> parse t = Some (di_TenantID info)"
begin

lemma never_other_tenant: "lookup d t p = (Inr info, p') \<Longrightarrow> parse t = Some u \<Longrightarrow> di_TenantID info = u"
  using bound by fastforce

lemma unparsed_tenant: "parse t = None \<Longrightarrow> \<exists>e. fst (lookup d t p) = Inl e"
  using bound[of d t p] by (cases "lookup d t p"; cases "fst (lookup d t p)") auto

end

lemma first_device_Inr: "first_device P db = Inr info \<Longrightarrow> \<exists>d. P d \<and> info = device_info d"
  by (auto simp: first_device_def filter_eq_Cons_iff split: option.splits list.splits)

interpretation pg_provider: tenant_bound parse "\<lambda>d t db. (Validator_LookupByCN parse db d t, db)" for parse
  by unfold_locales
     (auto simp: Validator_LookupByCN_def device_info_def dest!: first_device_Inr split: option.splits)

lemma toDeviceInfo_Inr:
  "toDeviceInfo parse c = Inr info \<Longrightarrow> parse (fc_DeviceID c) = Some (di_ID info) \<and> parse (fc_TenantID c) = Some (di_TenantID info)"
  by (auto simp: toDeviceInfo_def Let_def split: option.splits)

interpretation file_provider: tenant_bound parse "FileProvider_LookupByCN parse creds" for parse creds
  by unfold_locales
     (auto simp: FileProvider_LookupByCN_def dest: toDeviceInfo_Inr split: prod.splits sum.splits option.splits if_splits)

subsection \<open>Evidence of an accepted token\<close>

text \<open>The key is the one the tenant's configured source yields for this token.\<close>

definition token_evidence :: "jwt_env \<Rightarrow> string \<Rightarrow> string \<Rightarrow> string \<Rightarrow> bool \<Rightarrow> TenantGatewayConfig \<Rightarrow> JWKSCache option \<Rightarrow> bool" where
  "token_evidence env token tenantID deviceID requireSub cfg c \<longleftrightarrow>
     (\<exists>t key kf. jl_parse env token = Some t \<and> jwtKeyFunc env tenantID cfg c = Inr kf \<and> fst (kf t c) = Inr key \<and>
        checkSigningMethod t key = Inr () \<and> jl_valid env token key \<and>
        (jt_sub t = deviceID \<or> \<not> requireSub \<and> jt_sub t = '''') \<and> (jt_tid t = '''' \<or> jt_tid t = tenantID))"

lemma jwtKeyFunc_checks:
  assumes "jwtKeyFunc env tenantID cfg c0 = Inr kf" "kf t c = (Inr key, c')"
  shows "checkSigningMethod t key = Inr ()"
  using assms by (auto simp: jwtKeyFunc_def split: if_splits option.splits sum.splits prod.splits)

lemma validateJWTClaims_evidence:
  assumes "jwtKeyFunc env tenantID cfg c = Inr kf"
    and "validateJWTClaims env token kf tenantID deviceID requireSub c = (Inr u, c')"
  shows "token_evidence env token tenantID deviceID requireSub cfg c"
proof -
  obtain t where t: "ParseWithClaims env token kf c = (Inr t, c')"
      "jt_sub t = deviceID \<or> \<not> requireSub \<and> jt_sub t = ''''" "jt_tid t = '''' \<or> jt_tid t = tenantID"
    using assms(2) by (auto simp: validateJWTClaims_def split: prod.splits sum.splits if_splits)
  obtain key where k: "jl_parse env token = Some t" "jl_valid env token key" "kf t c = (Inr key, c')"
    using t(1) by (auto simp: ParseWithClaims_def split: option.splits prod.splits sum.splits if_splits)
  then have "fst (kf t c) = Inr key" by simp
  then show ?thesis using k(1,2) t(2,3) assms(1) jwtKeyFunc_checks[OF assms(1) k(3)] unfolding token_evidence_def by blast
qed

lemma ValidateJWT_evidence:
  "ValidateJWT env tenantID deviceID token cfg c = (Inr u, c') \<Longrightarrow> token_evidence env token tenantID deviceID True cfg c"
  "ValidateJWTFromClientID env tenantID deviceID token cfg c = (Inr u, c') \<Longrightarrow> token_evidence env token tenantID deviceID False cfg c"
  by (auto simp: ValidateJWT_def ValidateJWTFromClientID_def split: sum.splits intro: validateJWTClaims_evidence)

subsection \<open>Evidence of an accepted CONNECT\<close>

definition policy :: "('p, 'l) hook_env \<Rightarrow> string \<Rightarrow> ('p, 'l) keelHook \<Rightarrow> TenantGatewayConfig \<Rightarrow> bool" where
  "policy env tenantID h cfg \<longleftrightarrow> fst (tenant_config env 0 tenantID h) = Inr cfg"

definition chain_ok :: "x509 \<Rightarrow> string list option \<Rightarrow> Certificate \<Rightarrow> bool" where
  "chain_ok x pems cert \<longleftrightarrow> (case pems of None \<Rightarrow> True | Some ps \<Rightarrow> ps \<noteq> [] \<and> list_all (x5_parsesPEM x) ps \<and> x5_verify x ps cert)"

definition by_certificate :: "('p, 'l) hook_env \<Rightarrow> Client \<Rightarrow> ('p, 'l) keelHook \<Rightarrow> DeviceInfo \<Rightarrow> bool" where
  "by_certificate env cl h info \<longleftrightarrow>
     (\<exists>cert certs dev ten cfg pems h1. cl_PeerCertificates cl = cert # certs \<and> ct_CommonName cert = dev @ ''@'' @ ten \<and>
        tenant_config env 0 ten h = (Inr cfg, h1) \<and> tg_CertAuthEnabled cfg \<and>
        fst (trusted_cas env ten cfg h1) = Inr pems \<and> chain_ok (he_x509 env) pems cert \<and>
        (\<forall>rg. kh_clusterRegistry h = Some rg \<longrightarrow> \<not> rg_IsRevoked rg (dev @ ''@'' @ ten)) \<and>
        di_Identity info = dev @ ''@'' @ ten \<and>
        (he_parse env ten = Some (di_TenantID info) \<or> tg_AutoProvisioning cfg \<and> di_TenantSlug info = ''pending''))"

definition by_token :: "('p, 'l) hook_env \<Rightarrow> Client \<Rightarrow> string \<Rightarrow> string \<Rightarrow> ('p, 'l) keelHook \<Rightarrow> DeviceInfo \<Rightarrow> bool" where
  "by_token env cl username password h info \<longleftrightarrow>
     (\<exists>dev ten cfg requireSub. policy env ten h cfg \<and> tg_JWTAuthEnabled cfg \<and> token_evidence (he_jwt env) password ten dev requireSub cfg (kh_jwksCache h) \<and>
        (if requireSub then (dev, ten) = credential_names (kh_defaultTenantID h) (cl_ID cl) username
         else ParseClientIdentifier (cl_ID cl) = Some (ten, dev)) \<and>
        he_parse env ten = Some (di_TenantID info))"

definition by_password :: "('p, 'l) hook_env \<Rightarrow> Client \<Rightarrow> string \<Rightarrow> string \<Rightarrow> ('p, 'l) keelHook \<Rightarrow> DeviceInfo \<Rightarrow> bool" where
  "by_password env cl username password h info \<longleftrightarrow>
     (\<exists>dev ten cfg. (dev, ten) = credential_names (kh_defaultTenantID h) (cl_ID cl) username \<and>
        policy env ten h cfg \<and> tg_PasswordAuthEnabled cfg \<and> fst (he_ValidatePassword env dev password (kh_provider h)) = Inr info)"

lemma go_splitn_2: "go_splitn c 2 s = (case cut_first c s of None \<Rightarrow> [s] | Some (a, b) \<Rightarrow> [a, b])"
  unfolding numeral_2_eq_2 go_splitn.simps cut_first_def
  by (cases "dropWhile (\<lambda>x. x \<noteq> c) s") (simp_all only: list.case option.case prod.case)

lemma go_splitn_at: "go_splitn (CHR ''@'') 2 s = [a, b] \<Longrightarrow> s = a @ ''@'' @ b"
  by (auto simp: go_splitn_2 dest!: cut_first_SomeD split: option.splits prod.splits)

lemma VerifyCertificate_Inr:
  "VerifyCertificate x cert pems = Inr (dev, ten) \<Longrightarrow> ct_CommonName cert = dev @ ''@'' @ ten \<and> chain_ok x pems cert"
  by (auto simp: VerifyCertificate_def chain_ok_def dest!: go_splitn_at split: list.splits if_splits option.splits)


lemma tenant_config_frame:
  assumes "tenant_config env site ten h = (r, h')"
  shows "kh_clusterRegistry h' = kh_clusterRegistry h" "kh_provider h' = kh_provider h" "kh_defaultTenantID h' = kh_defaultTenantID h"
    "kh_jwksCache h' = kh_jwksCache h"
  using assms by (auto simp: tenant_config_def split: prod.splits)

lemma trusted_cas_frame: "trusted_cas env ten cfg h = (r, h') \<Longrightarrow> kh_clusterRegistry h' = kh_clusterRegistry h"
  by (auto simp: trusted_cas_def split: option.splits prod.splits sum.splits if_splits)

lemma lookup_device_bound:
  assumes "tenant_bound (he_parse env) (he_LookupByCN env)" "lookup_device env dev ten h = (Inr info, h')"
  shows "he_parse env ten = Some (di_TenantID info)"
  using tenant_bound.bound[OF assms(1)] assms(2) by (auto simp: lookup_device_def split: prod.splits)

lemma authenticateCert_evidence:
  assumes "tenant_bound (he_parse env) (he_LookupByCN env)"
    and "authenticateCert env cert h = (Some (info, m), h')" "cl_PeerCertificates cl = cert # certs"
  shows "by_certificate env cl h info \<and> m = AuthMethodCertificate"
proof -
  obtain d0 t0 where v0: "VerifyCertificate (he_x509 env) cert None = Inr (d0, t0)"
    using assms(2) by (auto simp: authenticateCert_def split: sum.splits prod.splits)
  obtain cfg h1 where c: "tenant_config env 0 t0 h = (Inr cfg, h1)" "tg_CertAuthEnabled cfg"
    using assms(2) v0 by (auto simp: authenticateCert_def split: sum.splits prod.splits if_splits)
  obtain pems h2 where p: "trusted_cas env t0 cfg h1 = (Inr pems, h2)"
    using assms(2) v0 c by (auto simp: authenticateCert_def split: sum.splits prod.splits)
  obtain dev ten where v: "VerifyCertificate (he_x509 env) cert pems = Inr (dev, ten)"
    using assms(2) v0 c p by (auto simp: authenticateCert_def split: sum.splits prod.splits)
  have t: "dev = d0" "ten = t0" using v v0 by (auto simp: VerifyCertificate_def split: list.splits if_splits option.splits)
  have rg: "kh_clusterRegistry h2 = kh_clusterRegistry h"
    using trusted_cas_frame[OF p] tenant_config_frame(1)[OF c(1)] by simp
  obtain r h3 where l: "lookup_device env dev ten h2 = (r, h3)" by fastforce
  have nr: "\<forall>rg. kh_clusterRegistry h = Some rg \<longrightarrow> \<not> rg_IsRevoked rg (dev @ ''@'' @ ten)"
    using assms(2) v0 c p v rg by (auto simp: authenticateCert_def split: if_splits)
  have res: "di_Identity info = dev @ ''@'' @ ten \<and> m = AuthMethodCertificate \<and>
      (he_parse env ten = Some (di_TenantID info) \<or> tg_AutoProvisioning cfg \<and> di_TenantSlug info = ''pending'')"
  proof -
    have live: "\<not> (case kh_clusterRegistry h2 of None \<Rightarrow> False | Some rg \<Rightarrow> rg_IsRevoked rg (dev @ ''@'' @ ten))"
      using nr rg by (simp split: option.splits)
    have eq: "authenticateCert env cert h =
        (case (r, h3) of
           (Inr i, h3) \<Rightarrow> (Some (i\<lparr>di_Identity := dev @ ''@'' @ ten\<rparr>, AuthMethodCertificate), h3)
         | (Inl _, h3) \<Rightarrow>
             if tg_AutoProvisioning cfg then
               (Some ((NewPendingDeviceInfo (he_parse env) dev ten)\<lparr>di_Identity := dev @ ''@'' @ ten\<rparr>, AuthMethodCertificate),
                emit [EAutoProvision ten dev] h3)
             else (None, h3))"
      using live by (simp only: authenticateCert_def v0 c p v l sum.case prod.case if_False if_True not_True_eq_False)
    show ?thesis
    proof (cases r)
      case (Inl e)
      then have "tg_AutoProvisioning cfg \<and> info = (NewPendingDeviceInfo (he_parse env) dev ten)\<lparr>di_Identity := dev @ ''@'' @ ten\<rparr> \<and>
          m = AuthMethodCertificate"
        using assms(2) eq by (simp split: if_splits)
      then show ?thesis by (simp add: NewPendingDeviceInfo_def)
    next
      case (Inr i)
      then have "info = i\<lparr>di_Identity := dev @ ''@'' @ ten\<rparr> \<and> m = AuthMethodCertificate" using assms(2) eq by simp
      moreover have "he_parse env ten = Some (di_TenantID i)"
        using lookup_device_bound[OF assms(1)] l Inr by blast
      ultimately show ?thesis by simp
    qed
  qed
  have "tenant_config env 0 ten h = (Inr cfg, h1)" "fst (trusted_cas env ten cfg h1) = Inr pems" using c(1) p t by simp_all
  then show ?thesis
    unfolding by_certificate_def using res nr VerifyCertificate_Inr[OF v] c(2) assms(3) by blast
qed

lemma authenticate_jwt_evidence:
  assumes "tenant_bound (he_parse env) (he_LookupByCN env)"
    and "authenticate_jwt env fromID ten dev password cfg method h = (Some (info, m), h')"
  shows "tg_JWTAuthEnabled cfg \<and> token_evidence (he_jwt env) password ten dev (\<not> fromID) cfg (kh_jwksCache h) \<and>
         he_parse env ten = Some (di_TenantID info) \<and> m = method"
  using assms(2) lookup_device_bound[OF assms(1)]
  by (cases fromID) (auto simp: authenticate_jwt_def dest: ValidateJWT_evidence split: if_splits prod.splits sum.splits)

lemma by_tokenI:
  assumes "tenant_bound (he_parse env) (he_LookupByCN env)"
    and "authenticate_jwt env fromID ten dev password cfg method h1 = (Some (info, m), h')" "tenant_config env 0 ten h = (Inr cfg, h1)"
    and "if fromID then ParseClientIdentifier (cl_ID cl) = Some (ten, dev)
         else (dev, ten) = credential_names (kh_defaultTenantID h) (cl_ID cl) username"
  shows "by_token env cl username password h info"
  unfolding by_token_def policy_def
  by (rule exI[of _ dev], rule exI[of _ ten], rule exI[of _ cfg], rule exI[of _ "\<not> fromID"])
     (use authenticate_jwt_evidence[OF assms(1,2)] tenant_config_frame(4)[OF assms(3)] assms(3,4) in \<open>cases fromID; simp\<close>)

lemma authenticate_by_names:
  assumes "cl_PeerCertificates cl = []" "username \<noteq> testConsumerUsername"
    and "ParseClientIdentifier (cl_ID cl) = None \<or> password = ''''"
    and "credential_names (kh_defaultTenantID h) (cl_ID cl) username = (dev, ten)"
  shows "authenticate env cl username password h =
     (case tenant_config env 0 ten h of
        (Inl _, h1) \<Rightarrow> (None, h1)
      | (Inr cfg, h1) \<Rightarrow>
          if DetectAuthMethod password = AuthMethodJWT then authenticate_jwt env False ten dev password cfg AuthMethodJWT h1
          else if \<not> tg_PasswordAuthEnabled cfg then (None, h1)
          else (case he_ValidatePassword env dev password (kh_provider h1) of
                  (Inl _, p) \<Rightarrow> (None, h1\<lparr>kh_provider := p\<rparr>)
                | (Inr info, p) \<Rightarrow> (Some (info, AuthMethodPassword), h1\<lparr>kh_provider := p\<rparr>)))"
proof -
  note simps = authenticate_def assms(1,2,4) list.case option.case prod.case if_False
  show ?thesis
  proof (cases "ParseClientIdentifier (cl_ID cl)")
    case None
    then show ?thesis by (simp only: simps)
  next
    case (Some a)
    then have "password = ''''" using assms(3) by simp
    then show ?thesis using Some by (cases a) (simp only: simps)
  qed
qed



subsection \<open>Password policy\<close>

lemma credential_names_at:
  "CHR ''@'' \<notin> set dev \<Longrightarrow> credential_names d c (dev @ ''@'' @ ten) = (dev, ten)"
  using cut_first_append[of "CHR ''@''" dev ten] by (simp add: credential_names_def go_splitn_2)

lemma at_not_test_consumer: "dev @ ''@'' @ ten \<noteq> testConsumerUsername"
proof
  assume "dev @ ''@'' @ ten = testConsumerUsername"
  then have "CHR ''@'' \<in> set testConsumerUsername" by (metis append_Cons in_set_conv_decomp append_Nil)
  then show False by (simp add: testConsumerUsername_def)
qed

text \<open>C33. The password policy that is enforced is the one of the tenant the user name mentions, not of the tenant the
  device belongs to: a user name with a tenant that has no configuration row is under the default policy, and the
  provider's verdict on device and password alone admits the client, whatever its own tenant allows.\<close>

theorem password_policy_of_named_tenant:
  assumes "cl_PeerCertificates cl = []" "ParseClientIdentifier (cl_ID cl) = None" "CHR ''@'' \<notin> set dev"
    and "DetectAuthMethod password = AuthMethodPassword"
    and "tc_cache (kh_tenantCache h) ten = None" "he_tenantDB env ten = NoRows"
    and "fst (he_ValidatePassword env dev password (kh_provider h)) = Inr info"
  shows "fst (authenticate env cl (dev @ ''@'' @ ten) password h) = Some (info, AuthMethodPassword)"
proof -
  obtain h1 where c: "tenant_config env 0 ten h = (Inr default_tenant_config, h1)"
    using assms(5,6) by (simp add: tenant_config_def TenantConfigCache_Get_def TenantConfigCache_load_def)
  obtain p where v: "he_ValidatePassword env dev password (kh_provider h1) = (Inr info, p)"
    using assms(7) tenant_config_frame(2)[OF c] by (cases "he_ValidatePassword env dev password (kh_provider h)") simp
  have "authenticate env cl (dev @ ''@'' @ ten) password h = (Some (info, AuthMethodPassword), h1\<lparr>kh_provider := p\<rparr>)"
    using authenticate_by_names[OF assms(1) at_not_test_consumer disjI1[OF assms(2)] credential_names_at[OF assms(3)],
        where env = env and password = password and h = h]
      assms(4) c v by (simp add: default_tenant_config_def)
  then show ?thesis by simp
qed

subsection \<open>Connection counters\<close>

lemma emit_fields [simp]:
  "kh_clients (emit es h) = kh_clients h" "kh_generation (emit es h) = kh_generation h"
  "kh_tenantConns (emit es h) = kh_tenantConns h" "kh_clusterFilterRefs (emit es h) = kh_clusterFilterRefs h"
  "kh_clusterRegistry (emit es h) = kh_clusterRegistry h" "kh_clusterNodeID (emit es h) = kh_clusterNodeID h"
  "kh_outputConnectors (emit es h) = kh_outputConnectors h" "kh_trace (emit es h) = kh_trace h @ es"
  by (simp_all add: emit_def)

text \<open>The connection table: clients, generations and counters.\<close>

definition table :: "('p, 'l) keelHook \<Rightarrow> (string \<rightharpoonup> clientState) \<times> (string \<Rightarrow> 64 word) \<times> (string \<Rightarrow> int)" where
  "table h = (kh_clients h, kh_generation h, kh_tenantConns h)"

lemma table_emit [simp]: "table (emit es h) = table h" by (simp add: table_def)

lemma table_event [simp]: "table (forwardConnectionEvent i s h) = table h" by (simp add: forwardConnectionEvent_def)

lemma table_place [simp]: "table (placeOfflineOwnership cl h) = table h"
  by (simp add: placeOfflineOwnership_def split: option.splits)

lemma table_remove [simp]: "table (snd (removeClusterFilterRefs c fs h)) = table h"
  by (induction c fs h rule: removeClusterFilterRefs.induct) (auto simp: table_def Let_def split: option.splits prod.splits)

lemma table_unsubscribe [simp]: "table (unsubscribeClusterFilters cl h) = table h"
  using table_remove[of "cl_ID cl" "cl_Subscriptions cl" h]
  by (auto simp: unsubscribeClusterFilters_def simp del: table_remove split: option.splits prod.splits)

lemma OnDisconnect_table:
  "table (Hook_OnDisconnect cl expire h) =
     (case tracked_connection cl h of
        None \<Rightarrow> table h
      | Some st \<Rightarrow>
          let ts = di_TenantID (cs_info st); n = kh_tenantConns h ts; cleanup = (expire \<or> cl_TakenOver cl) in
          (if cleanup then (kh_clients h)(cl_ID cl := None) else kh_clients h,
           if cleanup then (kh_generation h)(cl_ID cl := 0) else kh_generation h,
           if n > 0 then (kh_tenantConns h)(ts := n - 1) else kh_tenantConns h))"
proof (cases "tracked_connection cl h")
  case (Some st)
  then show ?thesis
    by (simp add: Hook_OnDisconnect_def Let_def) (simp add: table_def forget_client_def)
qed (simp add: Hook_OnDisconnect_def)

lemma register_table:
  "table (register_connection cl u info m h) =
     ((kh_clients h)(cl_ID cl \<mapsto> \<lparr>cs_info = info, cs_method = m, cs_username = u, cs_client = cl_conn cl,
                                   cs_generation = kh_generation h (cl_ID cl) + 1\<rparr>),
      (kh_generation h)(cl_ID cl := kh_generation h (cl_ID cl) + 1),
      (kh_tenantConns h)(di_TenantID info := kh_tenantConns h (di_TenantID info) + 1))"
  by (simp add: table_def register_connection_def Let_def)

text \<open>The effects on the routing table, and what authentication leaves alone.\<close>

fun is_route :: "hook_effect \<Rightarrow> bool" where
  "is_route (ESubscribe _ _) = True"
| "is_route (EUnsubscribe _ _) = True"
| "is_route (EUnsubscribeBatch _ _) = True"
| "is_route _ = False"

definition route_view :: "('p, 'l) keelHook \<Rightarrow> (string \<rightharpoonup> string set) \<times> hook_effect list" where
  "route_view h = (kh_clusterFilterRefs h, filter is_route (kh_trace h))"

definition untouched :: "('p, 'l) keelHook \<Rightarrow> ('p, 'l) keelHook \<Rightarrow> bool" where
  "untouched h h' \<longleftrightarrow> table h' = table h \<and> route_view h' = route_view h"

lemma untouched_refl [intro!, simp]: "untouched h h" by (simp add: untouched_def)

lemma untouched_trans: "untouched h h1 \<Longrightarrow> untouched h1 h2 \<Longrightarrow> untouched h h2" by (simp add: untouched_def)

lemma untouched_update [simp]:
  "untouched h (h1\<lparr>kh_provider := p\<rparr>) = untouched h h1" "untouched h (h1\<lparr>kh_tenantCache := tc\<rparr>) = untouched h h1"
  "untouched h (h1\<lparr>kh_jwksCache := jc\<rparr>) = untouched h h1" "untouched h (h1\<lparr>kh_deviceCACache := dc\<rparr>) = untouched h h1"
  "untouched h (h1\<lparr>kh_connectLimiter := l\<rparr>) = untouched h h1" "untouched h (emit [EAutoProvision t d] h1) = untouched h h1"
  by (simp_all add: untouched_def table_def route_view_def)

lemma untouched_tenant_config: "tenant_config env n t h = (r, h') \<Longrightarrow> untouched h h'"
  by (auto simp: tenant_config_def split: prod.splits)

lemma untouched_lookup: "lookup_device env d t h = (r, h') \<Longrightarrow> untouched h h'"
  by (auto simp: lookup_device_def split: prod.splits)

lemma untouched_cas: "trusted_cas env t cfg h = (r, h') \<Longrightarrow> untouched h h'"
  by (auto simp: trusted_cas_def split: option.splits prod.splits sum.splits if_splits)

lemma untouched_jwt: "authenticate_jwt env b t d pw cfg m h = (r, h') \<Longrightarrow> untouched h h'"
  by (auto simp: authenticate_jwt_def dest!: untouched_lookup split: if_splits prod.splits sum.splits)
     (simp_all add: untouched_def table_def route_view_def)

lemma untouched_cert:
  assumes "authenticateCert env cert h = (r, h')"
  shows "untouched h h'"
proof (cases "VerifyCertificate (he_x509 env) cert None")
  case (Inl e)
  then show ?thesis using assms by (simp add: authenticateCert_def)
next
  case (Inr dt)
  obtain d0 t0 where dt: "dt = (d0, t0)" by fastforce
  obtain c h1 where c: "tenant_config env 0 t0 h = (c, h1)" by fastforce
  note u1 = untouched_tenant_config[OF c]
  show ?thesis
  proof (cases c)
    case (Inl e)
    then show ?thesis using assms Inr dt c u1 by (simp add: authenticateCert_def)
  next
    case cfg: (Inr cfg)
    obtain q h2 where q: "trusted_cas env t0 cfg h1 = (q, h2)" by fastforce
    note u2 = untouched_trans[OF u1 untouched_cas[OF q]]
    have "h' = h1 \<or> h' = h2 \<or> (\<exists>d t x h3. lookup_device env d t h2 = (x, h3) \<and> (h' = h3 \<or> h' = emit [EAutoProvision t d] h3))"
      using assms Inr dt c cfg q
      by (auto simp: authenticateCert_def split: sum.splits prod.splits if_splits)
    then show ?thesis using u1 u2 by (auto dest!: untouched_lookup intro: untouched_trans)
  qed
qed

lemma untouched_authenticate:
  assumes "authenticate env cl u pw h = (r, h')"
  shows "untouched h h'"
  using assms
  by (auto simp: authenticate_def split: list.splits if_splits option.splits prod.splits sum.splits
      dest!: untouched_cert untouched_jwt untouched_tenant_config intro: untouched_trans)

lemma claim_True:
  assumes "claimClusterSession c t i h = (True, h')"
  shows "untouched h h'"
  using assms
  by (auto simp: claimClusterSession_def Let_def untouched_def table_def route_view_def split: option.splits if_splits)

lemma connect_True:
  assumes "OnConnectAuthenticate env cl u pw h = (True, h')"
  obtains info m h0 where "untouched h h0" "untouched (register_connection cl u info m h0) h'"
proof -
  obtain ok l where l: "rl_allow (he_freshConnect env) (he_Allow env) (fst (he_clock env 3)) (remoteIP (he_splitHost env) (cl_Remote cl)) (kh_connectLimiter h) = (ok, l)"
    by fastforce
  then have ok: "ok" using assms by (cases ok) (simp_all add: OnConnectAuthenticate_def)
  obtain a h1 where a: "authenticate env cl u pw (h\<lparr>kh_connectLimiter := l\<rparr>) = (a, h1)" by fastforce
  then obtain info m where i: "a = Some (info, m)" using assms l ok by (cases a) (auto simp: OnConnectAuthenticate_def)
  obtain c h2 where c: "tenant_config env 2 (di_TenantID info) h1 = (c, h2)" by fastforce
  obtain b h3 where b: "claimClusterSession (cl_ID cl) (di_TenantID info) (di_Identity info) (register_connection cl u info m h2) = (b, h3)"
    by fastforce
  have h': "b" "h' = forwardConnectionEvent info ''online'' (emit [ELastSeen (di_ID info)] h3)"
    using assms l ok a i c b by (auto simp: OnConnectAuthenticate_def split: if_splits bool.splits)
  have "untouched (h\<lparr>kh_connectLimiter := l\<rparr>) h2"
    using untouched_trans[OF untouched_authenticate[OF a] untouched_tenant_config[OF c]] .
  then have "untouched h h2" by (simp add: untouched_def table_def route_view_def)
  moreover have "untouched h3 h'" unfolding h'(2) by (simp add: untouched_def table_def route_view_def forwardConnectionEvent_def)
  moreover have "claimClusterSession (cl_ID cl) (di_TenantID info) (di_Identity info) (register_connection cl u info m h2) = (True, h3)"
    using b h'(1) by simp
  ultimately show thesis using that[of h2 info m] untouched_trans[OF claim_True] by metis
qed

text \<open>C32. A take-over leaks a connection of the tenant's quota: when a client identifier connects again before its
  previous connection has gone, and then both connections end, the tenant's counter stays one above its value
  before, although no connection of the client is left.\<close>

theorem takeover_leaks_connection:
  assumes "OnConnectAuthenticate env1 c1 u1 p1 h = (True, h1)" "OnConnectAuthenticate env2 c2 u2 p2 h1 = (True, h2)"
    and "cl_ID c2 = cl_ID c1" "cl_conn c2 \<noteq> cl_conn c1"
    and "map_option (di_TenantID \<circ> cs_info) (kh_clients h1 (cl_ID c1)) = Some ten"
        "map_option (di_TenantID \<circ> cs_info) (kh_clients h2 (cl_ID c1)) = Some ten"
    and "kh_tenantConns h ten \<ge> 0"
  shows "kh_tenantConns (Hook_OnDisconnect c2 True (Hook_OnDisconnect c1 e1 h2)) ten = kh_tenantConns h ten + 1 \<and>
         kh_clients (Hook_OnDisconnect c2 True (Hook_OnDisconnect c1 e1 h2)) (cl_ID c1) = None"
proof -
  obtain i1 m1 a1 where a: "untouched h a1" "untouched (register_connection c1 u1 i1 m1 a1) h1" using connect_True[OF assms(1)] .
  obtain i2 m2 a2 where b: "untouched h1 a2" "untouched (register_connection c2 u2 i2 m2 a2) h2" using connect_True[OF assms(2)] .
  have k1: "table h1 = table (register_connection c1 u1 i1 m1 a1)" "table a1 = table h" using a by (simp_all add: untouched_def)
  have k2: "table h2 = table (register_connection c2 u2 i2 m2 a2)" "table a2 = table h1" using b by (simp_all add: untouched_def)
  have f1: "kh_clients h1 = (kh_clients a1)(cl_ID c1 \<mapsto> \<lparr>cs_info = i1, cs_method = m1, cs_username = u1, cs_client = cl_conn c1,
                                   cs_generation = kh_generation a1 (cl_ID c1) + 1\<rparr>)"
      "kh_tenantConns h1 = (kh_tenantConns a1)(di_TenantID i1 := kh_tenantConns a1 (di_TenantID i1) + 1)" "kh_tenantConns a1 = kh_tenantConns h"
    using k1(1)[unfolded register_table] k1(2) by (simp_all add: table_def)
  have f2: "kh_clients h2 = (kh_clients a2)(cl_ID c2 \<mapsto> \<lparr>cs_info = i2, cs_method = m2, cs_username = u2, cs_client = cl_conn c2,
                                   cs_generation = kh_generation a2 (cl_ID c2) + 1\<rparr>)"
      "kh_generation h2 = (kh_generation a2)(cl_ID c2 := kh_generation a2 (cl_ID c2) + 1)"
      "kh_tenantConns h2 = (kh_tenantConns a2)(di_TenantID i2 := kh_tenantConns a2 (di_TenantID i2) + 1)" "kh_tenantConns a2 = kh_tenantConns h1"
    using k2(1)[unfolded register_table] k2(2) by (simp_all add: table_def)
  have ten: "di_TenantID i1 = ten" "di_TenantID i2 = ten" using assms(3,5,6) f1(1) f2(1) by simp_all
  have n: "kh_tenantConns h2 ten = kh_tenantConns h ten + 2" using f1 f2 ten by simp
  have "tracked_connection c1 h2 = None" using f2 assms(3,4) by (simp add: tracked_connection_def)
  then have d1: "Hook_OnDisconnect c1 e1 h2 = h2" by (simp add: Hook_OnDisconnect_def)
  obtain st where s: "tracked_connection c2 h2 = Some st" "cs_info st = i2"
    using f2 by (simp add: tracked_connection_def)
  have "table (Hook_OnDisconnect c2 True h2) = ((kh_clients h2)(cl_ID c2 := None), (kh_generation h2)(cl_ID c2 := 0),
      (kh_tenantConns h2)(ten := kh_tenantConns h2 ten - 1))"
    using OnDisconnect_table[of c2 True h2] s n ten assms(7) by (simp add: Let_def)
  then show ?thesis unfolding d1 using n assms(3) by (simp add: table_def)
qed


subsection \<open>The routing table mirror\<close>

definition route_after :: "string \<Rightarrow> hook_effect \<Rightarrow> bool \<Rightarrow> bool" where
  "route_after f e live =
     (case e of
        ESubscribe g _ \<Rightarrow> g = f \<or> live
      | EUnsubscribe g _ \<Rightarrow> g \<noteq> f \<and> live
      | EUnsubscribeBatch gs _ \<Rightarrow> f \<notin> set gs \<and> live
      | _ \<Rightarrow> live)"

text \<open>Whether the calls made so far leave this node registered for a filter.\<close>

definition routed :: "hook_effect list \<Rightarrow> string \<Rightarrow> bool" where
  "routed tr f = fold (route_after f) tr False"

definition mirrored :: "('p, 'l) keelHook \<Rightarrow> bool" where
  "mirrored h \<longleftrightarrow> (\<forall>f. kh_clusterFilterRefs h f \<noteq> Some {} \<and> (routed (kh_trace h) f \<longleftrightarrow> kh_clusterFilterRefs h f \<noteq> None))"

lemma routed_append: "routed (tr @ es) f = fold (route_after f) es (routed tr f)" by (simp add: routed_def)

lemma fold_route_filter: "fold (route_after f) (filter is_route es) b = fold (route_after f) es b"
proof (induction es arbitrary: b)
  case (Cons e es)
  then show ?case by (cases e) (simp_all add: route_after_def)
qed simp

lemma mirrored_view: "route_view h' = route_view h \<Longrightarrow> mirrored h' = mirrored h"
  unfolding mirrored_def route_view_def routed_def by (metis fold_route_filter prod.inject)

lemma mirrored_untouched: "untouched h h' \<Longrightarrow> mirrored h \<Longrightarrow> mirrored h'"
  using mirrored_view by (auto simp: untouched_def)

lemma mirrored_subscribe_filter: "mirrored h \<Longrightarrow> mirrored (subscribe_filter c f h)"
  by (auto simp: mirrored_def subscribe_filter_def addClusterFilterRef_def Let_def routed_append route_after_def emit_def
      split: option.splits)

lemma fold_invariant: "(\<And>x s. P s \<Longrightarrow> P (g x s)) \<Longrightarrow> P s \<Longrightarrow> P (fold g xs s)"
  by (induction xs arbitrary: s) simp_all

lemma mirrored_subscribe:
  "mirrored h \<Longrightarrow> mirrored (subscribeClusterFilters c fs h)"
  "mirrored h \<Longrightarrow> mirrored (subscribeClusterFiltersFromStorage c subs h)"
  unfolding subscribeClusterFilters_def subscribeClusterFiltersFromStorage_def
  by (auto intro: fold_invariant[where P = mirrored] mirrored_subscribe_filter)

lemma removeRefs_spec:
  assumes "removeClusterFilterRefs c fs h = (out, h')" "\<forall>f. kh_clusterFilterRefs h f \<noteq> Some {}"
  shows "kh_trace h' = kh_trace h \<and> kh_clusterNodeID h' = kh_clusterNodeID h \<and>
         (\<forall>f. kh_clusterFilterRefs h' f \<noteq> Some {} \<and>
              (kh_clusterFilterRefs h' f = None \<longleftrightarrow> kh_clusterFilterRefs h f = None \<or> f \<in> set out) \<and>
              (f \<in> set out \<longrightarrow> kh_clusterFilterRefs h' f = None))"
  using assms
proof (induction c fs h arbitrary: out rule: removeClusterFilterRefs.induct)
  case (1 c h)
  then show ?case by simp
next
  case (2 c f fs h)
  show ?case
  proof (cases "kh_clusterFilterRefs h f")
    case None
    obtain o' h1 where r: "removeClusterFilterRefs c fs h = (o', h1)" by fastforce
    then have "out = f # o'" "h' = h1" using 2(4) None by simp_all
    then show ?thesis using 2(1)[OF None _ 2(5), of o'] r None by auto
  next
    case (Some cs)
    show ?thesis
    proof (cases "cs - {c} = {}")
      case True
      define g where "g = h\<lparr>kh_clusterFilterRefs := (kh_clusterFilterRefs h)(f := None)\<rparr>"
      obtain o' h1 where r: "removeClusterFilterRefs c fs g = (o', h1)" by fastforce
      have e: "out = f # o'" "h' = h1" using 2(4) Some True r by (simp_all add: g_def)
      have ok: "\<forall>f. kh_clusterFilterRefs g f \<noteq> Some {}" using 2(5) by (simp add: g_def)
      show ?thesis using 2(2)[OF Some True, folded g_def, OF _ ok, of o'] r e by (auto simp: g_def split: if_splits)
    next
      case False
      define g where "g = h\<lparr>kh_clusterFilterRefs := (kh_clusterFilterRefs h)(f \<mapsto> cs - {c})\<rparr>"
      have r: "removeClusterFilterRefs c fs g = (out, h')" using 2(4) Some False by (simp add: g_def)
      have ok: "\<forall>f. kh_clusterFilterRefs g f \<noteq> Some {}" using 2(5) False by (auto simp: g_def)
      show ?thesis using 2(3)[OF Some False, folded g_def, OF r ok] Some by (auto simp: g_def split: if_splits)
    qed
  qed
qed

lemma fold_unsubscribe: "fold (route_after f) (map (\<lambda>g. EUnsubscribe g n) gs) b \<longleftrightarrow> f \<notin> set gs \<and> b"
  by (induction gs arbitrary: b) (auto simp: route_after_def)

lemma mirrored_removed:
  assumes "removeClusterFilterRefs c fs h = (out, h')" "mirrored h"
  shows "mirrored (emit (map (\<lambda>g. EUnsubscribe g n) out) h')" "mirrored (emit [EUnsubscribeBatch out n] h')"
    "out = [] \<Longrightarrow> mirrored h'"
proof -
  have s: "kh_trace h' = kh_trace h"
      "\<And>f. kh_clusterFilterRefs h' f \<noteq> Some {}"
      "\<And>f. (kh_clusterFilterRefs h' f = None) = (kh_clusterFilterRefs h f = None \<or> f \<in> set out)"
    using removeRefs_spec[OF assms(1)] assms(2) by (auto simp: mirrored_def)
  have r: "routed (kh_trace h) f \<longleftrightarrow> kh_clusterFilterRefs h f \<noteq> None" for f using assms(2) by (simp add: mirrored_def)
  show "mirrored (emit (map (\<lambda>g. EUnsubscribe g n) out) h')"
    by (auto simp: mirrored_def routed_append fold_unsubscribe s r)
  show "mirrored (emit [EUnsubscribeBatch out n] h')" by (auto simp: mirrored_def routed_append route_after_def s r)
  show "mirrored h'" if "out = []" using that s r by (simp add: mirrored_def)
qed

lemma mirrored_unsubscribe:
  assumes "mirrored h"
  shows "mirrored (unsubscribeClusterFilters cl h)"
proof -
  obtain out h' where r: "removeClusterFilterRefs (cl_ID cl) (cl_Subscriptions cl) h = (out, h')" by fastforce
  show ?thesis using assms r mirrored_removed[OF r assms] by (simp add: unsubscribeClusterFilters_def split: option.splits)
qed

text \<open>Effects other than routing calls keep the invariant.\<close>

lemma mirrored_emit: "list_all (\<lambda>e. \<not> is_route e) es \<Longrightarrow> mirrored (emit es h) = mirrored h"
  by (rule mirrored_view) (simp add: route_view_def filter_empty_conv list_all_iff)

lemma mirrored_fields [simp]:
  "mirrored (h\<lparr>kh_clients := a\<rparr>) = mirrored h" "mirrored (h\<lparr>kh_generation := b\<rparr>) = mirrored h"
  "mirrored (h\<lparr>kh_tenantConns := c\<rparr>) = mirrored h" "mirrored (h\<lparr>kh_server := d\<rparr>) = mirrored h"
  "mirrored (h\<lparr>kh_connectLimiter := l\<rparr>) = mirrored h" "mirrored (h\<lparr>kh_publishLimiter := l\<rparr>) = mirrored h"
  "mirrored (h\<lparr>kh_packetReceivedAt := e\<rparr>) = mirrored h" "mirrored (h\<lparr>kh_rdb := f\<rparr>) = mirrored h"
  "mirrored (h\<lparr>kh_clients := a, kh_generation := b\<rparr>) = mirrored h" "mirrored (h\<lparr>kh_clients := a, kh_tenantConns := c\<rparr>) = mirrored h"
  "mirrored (h\<lparr>kh_generation := b, kh_clients := a, kh_tenantConns := c\<rparr>) = mirrored h"
  by (simp_all add: mirrored_def)


lemma mirrored_register: "mirrored h \<Longrightarrow> mirrored (register_connection cl u i m h)"
  by (simp add: register_connection_def Let_def)

lemma mirrored_event: "mirrored h \<Longrightarrow> mirrored (forwardConnectionEvent i s h)"
  by (simp add: forwardConnectionEvent_def mirrored_emit)

lemma mirrored_claim:
  assumes "mirrored h" "claimClusterSession c t i h = (b, h')"
  shows "mirrored h'"
  using assms by (auto simp: claimClusterSession_def Let_def mirrored_emit split: option.splits if_splits)

lemma mirrored_connect:
  assumes "mirrored h"
  shows "mirrored (snd (OnConnectAuthenticate env cl u pw h))"
proof -
  obtain ok l where l: "rl_allow (he_freshConnect env) (he_Allow env) (fst (he_clock env 3)) (remoteIP (he_splitHost env) (cl_Remote cl)) (kh_connectLimiter h) = (ok, l)"
    by fastforce
  obtain a h1 where a: "authenticate env cl u pw (h\<lparr>kh_connectLimiter := l\<rparr>) = (a, h1)" by fastforce
  have m1: "mirrored h1" using mirrored_untouched[OF untouched_authenticate[OF a]] assms by simp
  show ?thesis
  proof (cases "ok \<and> a \<noteq> None")
    case False
    then show ?thesis using l a m1 assms by (cases ok; cases a) (simp_all add: OnConnectAuthenticate_def)
  next
    case True
    then obtain info m where i: "a = Some (info, m)" by auto
    obtain c h2 where c: "tenant_config env 2 (di_TenantID info) h1 = (c, h2)" by fastforce
    have m2: "mirrored h2" using mirrored_untouched[OF untouched_tenant_config[OF c] m1] .
    obtain b h3 where b: "claimClusterSession (cl_ID cl) (di_TenantID info) (di_Identity info) (register_connection cl u info m h2) = (b, h3)"
      by fastforce
    have m3: "mirrored h3" using mirrored_claim[OF mirrored_register[OF m2] b] .
    show ?thesis
      using True l a i c b m2 m3
      by (cases b) (simp_all add: OnConnectAuthenticate_def mirrored_event mirrored_emit)
  qed
qed

lemma mirrored_place: "mirrored h \<Longrightarrow> mirrored (placeOfflineOwnership cl h)"
  by (simp add: placeOfflineOwnership_def mirrored_emit list_all_iff split: option.splits)

lemma mirrored_disconnect:
  assumes "mirrored h"
  shows "mirrored (Hook_OnDisconnect cl expire h)"
  using assms
  by (auto simp: Hook_OnDisconnect_def Let_def forget_client_def mirrored_emit split: option.splits
      intro!: mirrored_unsubscribe mirrored_event mirrored_place)

lemma mirrored_expired: "mirrored h \<Longrightarrow> mirrored (Hook_OnClientExpired cl h)"
  by (auto simp: Hook_OnClientExpired_def forget_client_def split: option.splits intro!: mirrored_unsubscribe)

lemma mirrored_subscribed: "mirrored h \<Longrightarrow> mirrored (Hook_OnSubscribed cl fs h)"
  by (simp add: Hook_OnSubscribed_def Let_def mirrored_emit mirrored_subscribe)

lemma mirrored_unsubscribed: "mirrored h \<Longrightarrow> mirrored (Hook_OnUnsubscribed cl fs h)"
  using mirrored_removed(1) by (auto simp: Hook_OnUnsubscribed_def split: prod.splits)

lemma mirrored_establish: "mirrored h \<Longrightarrow> mirrored (OnSessionEstablish env cl clean h)"
  by (auto simp: OnSessionEstablish_def clearOfflineOwnership_def Let_def mirrored_emit list_all_iff
      split: option.splits sum.splits intro!: mirrored_subscribe)

lemma mirrored_forward:
  "mirrored h \<Longrightarrow> forwardToClusterSubscribers env info pk h = (s, h') \<Longrightarrow> mirrored h'"
  by (auto simp: forwardToClusterSubscribers_def forwardClusterTargets_def Let_def mirrored_emit list_all_iff
      split: option.splits prod.splits if_splits)

lemma mirrored_volume: "mirrored h \<Longrightarrow> withinDataVolumeLimit env t n h = (b, h') \<Longrightarrow> mirrored h'"
  by (auto simp: withinDataVolumeLimit_def Let_def dest: mirrored_untouched[OF untouched_tenant_config]
      split: option.splits prod.splits)

lemma mirrored_publish:
  assumes "mirrored h"
  shows "mirrored (snd (OnPublish env cl pk h))"
  using assms
  by (auto simp: OnPublish_def Let_def mirrored_emit split: option.splits prod.splits if_splits
      dest!: mirrored_forward[rotated] mirrored_volume[rotated])

inductive hook_run :: "('p, 'l) keelHook \<Rightarrow> bool" where
  start: "kh_trace h = [] \<Longrightarrow> hook_run (Init h)"
| connect: "hook_run h \<Longrightarrow> hook_run (snd (OnConnectAuthenticate env cl u pw h))"
| establish: "hook_run h \<Longrightarrow> hook_run (OnSessionEstablish env cl clean h)"
| subscribe: "hook_run h \<Longrightarrow> hook_run (Hook_OnSubscribed cl fs h)"
| unsubscribe: "hook_run h \<Longrightarrow> hook_run (Hook_OnUnsubscribed cl fs h)"
| publish: "hook_run h \<Longrightarrow> hook_run (snd (OnPublish env cl pk h))"
| packet_read: "hook_run h \<Longrightarrow> hook_run (OnPacketRead now cl b h)"
| packet_processed: "hook_run h \<Longrightarrow> hook_run (OnPacketProcessed cl b h)"
| disconnect: "hook_run h \<Longrightarrow> hook_run (Hook_OnDisconnect cl expire h)"
| expired: "hook_run h \<Longrightarrow> hook_run (Hook_OnClientExpired cl h)"

lemma hook_run_mirrored: "hook_run h \<Longrightarrow> mirrored h"
proof (induction rule: hook_run.induct)
  case (start h)
  then show ?case by (simp add: mirrored_def Init_def routed_def)
qed (simp_all add: mirrored_connect mirrored_establish mirrored_subscribed mirrored_unsubscribed mirrored_publish
      OnPacketRead_def OnPacketProcessed_def mirrored_disconnect mirrored_expired)

text \<open>A removal concerns the records of one client only.\<close>

definition records :: "string \<Rightarrow> string \<Rightarrow> ('p, 'l) keelHook \<Rightarrow> bool" where
  "records f c h \<longleftrightarrow> (case kh_clusterFilterRefs h f of None \<Rightarrow> False | Some cs \<Rightarrow> c \<in> cs)"

lemma records_emit [simp]: "records f c (emit es h) = records f c h" by (simp add: records_def)

lemma records_remove:
  "c' \<noteq> c \<Longrightarrow> records f c' h \<Longrightarrow> records f c' (snd (removeClusterFilterRefs c fs h))"
proof (induction c fs h rule: removeClusterFilterRefs.induct)
  case (2 c g fs h)
  show ?case
  proof (cases "kh_clusterFilterRefs h g")
    case None
    then show ?thesis using 2 by (simp add: Let_def split_beta)
  next
    case (Some cs)
    show ?thesis
    proof (cases "cs - {c} = {}")
      case True
      then have "f \<noteq> g" using 2(4,5) Some by (auto simp: records_def)
      then show ?thesis using 2(2)[OF Some True 2(4)] 2(5) Some True by (simp add: Let_def split_beta records_def)
    next
      case False
      have "records f c' (h\<lparr>kh_clusterFilterRefs := (kh_clusterFilterRefs h)(g \<mapsto> cs - {c})\<rparr>)"
        using 2(4,5) Some by (cases "f = g") (simp_all add: records_def)
      then show ?thesis using 2(3)[OF Some False 2(4)] Some False by simp
    qed
  qed
qed simp

lemma records_unsubscribe:
  "c \<noteq> cl_ID cl \<Longrightarrow> records f c h \<Longrightarrow> records f c (unsubscribeClusterFilters cl h)"
  using records_remove[of c "cl_ID cl" f h "cl_Subscriptions cl"]
  by (auto simp: unsubscribeClusterFilters_def split: option.splits prod.splits)

lemma records_disconnect:
  assumes "c \<noteq> cl_ID cl" "records f c h"
  shows "records f c (Hook_OnDisconnect cl expire h)"
  using assms
  by (auto simp: Hook_OnDisconnect_def Let_def split: option.splits intro!: records_unsubscribe)
     (auto simp: records_def forwardConnectionEvent_def placeOfflineOwnership_def forget_client_def split: option.splits)

lemma records_unsubscribed:
  "c \<noteq> cl_ID cl \<Longrightarrow> records f c h \<Longrightarrow> records f c (Hook_OnUnsubscribed cl fs h)"
  using records_remove[of c "cl_ID cl" f h "remdups fs"] by (auto simp: Hook_OnUnsubscribed_def split: prod.splits)

lemma mirrored_records: "mirrored h \<Longrightarrow> routed (kh_trace h) f \<longleftrightarrow> (\<exists>c. records f c h)"
  unfolding mirrored_def records_def by (cases "kh_clusterFilterRefs h f") (auto simp: ex_in_conv)

text \<open>C2. The routing table follows the local subscribers: after any sequence of connects, resumes, subscribes,
  unsubscribes, publishes, disconnects and expiries, the subscribe and unsubscribe calls the hook has made leave
  this node registered for a filter exactly when some local client is recorded for it; and while a client is
  recorded, neither the disconnect nor an unsubscribe of another client ends the registration.\<close>

theorem routes_mirror_local_subscribers:
  assumes "hook_run h"
  shows "(routed (kh_trace h) f \<longleftrightarrow> (\<exists>c. records f c h)) \<and>
         (\<forall>c cl. records f c h \<and> c \<noteq> cl_ID cl \<longrightarrow>
            routed (kh_trace (Hook_OnDisconnect cl expire h)) f \<and> routed (kh_trace (Hook_OnUnsubscribed cl fs h)) f)"
  using mirrored_records[OF hook_run_mirrored] assms hook_run.disconnect hook_run.unsubscribe
    records_disconnect records_unsubscribed by metis

subsection \<open>Examples\<close>

text \<open>A gateway on the PostgreSQL provider with one device of tenant \<open>A\<close>, which allows certificates only.\<close>

definition example_parse :: uuid_parser where
  "example_parse s = (if s = '''' then None else Some s)"

definition example_env :: "(DeviceRow list option, unit) hook_env" where
  "example_env =
     \<lparr>he_ValidatePassword = (\<lambda>d tok db. (Validator_Validate example_parse 0 db
          [\<lparr>cr_device_id = ''d1'', cr_type = ''mqtt_token'', cr_value = ''pw'', cr_expires_at = None\<rparr>] d tok, db)),
      he_LookupByCN = (\<lambda>d t db. (Validator_LookupByCN example_parse db d t, db)),
      he_parse = example_parse,
      he_x509 = \<lparr>x5_parsesPEM = (\<lambda>_. True), x5_verify = (\<lambda>pems c. ct_raw c = ''good'')\<rparr>,
      he_jwt = \<lparr>jl_parse = (\<lambda>_. None), jl_valid = (\<lambda>_ _. False), jl_pemDecode = (\<lambda>_. None), jl_parsePKIX = (\<lambda>_. None),
                jl_http = (\<lambda>_. None), jl_now = 0, jl_now' = 0\<rparr>,
      he_tenantDB = (\<lambda>t. if t = ''A'' then Row (default_tenant_config\<lparr>tg_PasswordAuthEnabled := False, tg_CertAuthEnabled := True,
                                                 tg_TrustedCAPEMs := Some [''ca'']\<rparr>) else NoRows),
      he_caHTTP = (\<lambda>_ _. None), he_clock = (\<lambda>_. (0, 0)), he_freshConnect = (), he_freshPublish = (),
      he_Allow = (\<lambda>_ _. (True, ())), he_splitHost = (\<lambda>_. None), he_subsFor = (\<lambda>_ _. Inr []), he_inflightFor = (\<lambda>_. Inr []),
      he_publishID = '''', he_tonumber = (\<lambda>_. None), he_dbl = (\<lambda>i. i), he_day = ''''\<rparr>"

definition example_registry :: registry where
  "example_registry =
     \<lparr>rg_ClaimSession = (\<lambda>_ _ _. Some ''''), rg_IsRevoked = (\<lambda>i. i = ''d2@A''),
      rg_EvaluateACL = (\<lambda>_ _ _ _. \<lparr>DecEffect = EffectDeny, DecRule = None\<rparr>), rg_Batch = False, rg_LiveDeliveryPlan = None,
      rg_NodesFor = (\<lambda>_ _. []), rg_OfflineNodesFor = (\<lambda>_. [])\<rparr>"

definition example_hook :: "(DeviceRow list option, unit) keelHook" where
  "example_hook = Init
     \<lparr>kh_provider = Some [\<lparr>dr_id = ''d1'', dr_tenant_id = ''A'', dr_slug = ''acme'', dr_fleet_id = None\<rparr>],
      kh_tenantCache = \<lparr>tc_ttl = 10, tc_cache = Map.empty\<rparr>, kh_jwksCache = None, kh_deviceCACache = None, kh_rdb = None,
      kh_retainedStore = False, kh_outputConnectors = False, kh_clusterRegistry = Some example_registry, kh_clusterFwd = False,
      kh_clusterNodeID = ''n1'', kh_offlineOwnership = False, kh_liveEdgeNodeIDs = None, kh_offlineDeliveryStore = False,
      kh_server = None, kh_sessionStore = False, kh_clients = Map.empty, kh_generation = \<lambda>_. 0, kh_clusterFilterRefs = Map.empty,
      kh_tenantConns = \<lambda>_. 0, kh_packetReceivedAt = Map.empty, kh_defaultTenantID = '''', kh_connectLimiter = None,
      kh_publishLimiter = None, kh_trace = []\<rparr>"

definition example_client :: "nat \<Rightarrow> Certificate list \<Rightarrow> Client" where
  "example_client n certs =
     \<lparr>cl_ID = ''c'', cl_conn = n, cl_Remote = ''h'', cl_PeerCertificates = certs, cl_ProtocolVersion = 5, cl_TakenOver = False,
      cl_Subscriptions = [''command/d1'']\<rparr>"

definition example_cert :: Certificate where
  "example_cert = \<lparr>ct_CommonName = ''d1@A'', ct_raw = ''good''\<rparr>"

definition example_info :: "string \<Rightarrow> DeviceInfo" where
  "example_info identity =
     \<lparr>di_ID = ''d1'', di_TenantID = ''A'', di_TenantSlug = ''acme'', di_FleetID = None, di_FleetIDStr = ''nofleet'', di_Identity = identity\<rparr>"

lemma example_bound: "tenant_bound (he_parse example_env) (he_LookupByCN example_env)"
  using pg_provider.tenant_bound_axioms[of example_parse] by (simp add: example_env_def)


lemma password_policy_of_named_tenant_witness:
  "fst (authenticate example_env (example_client 1 []) ''d1@A'' ''pw'' example_hook) = None \<and>
   fst (authenticate example_env (example_client 1 []) (''d1'' @ ''@'' @ ''x'') ''pw'' example_hook) =
     Some (example_info '''', AuthMethodPassword)"
proof
  show "fst (authenticate example_env (example_client 1 []) ''d1@A'' ''pw'' example_hook) = None" by code_simp
  show "fst (authenticate example_env (example_client 1 []) (''d1'' @ ''@'' @ ''x'') ''pw'' example_hook) =
     Some (example_info '''', AuthMethodPassword)"
  proof (rule password_policy_of_named_tenant)
    show "ParseClientIdentifier (cl_ID (example_client 1 [])) = None" by code_simp
    show "DetectAuthMethod ''pw'' = AuthMethodPassword" by code_simp
    show "fst (he_ValidatePassword example_env ''d1'' ''pw'' (kh_provider example_hook)) = Inr (example_info '''')" by code_simp
  qed (simp_all add: example_client_def example_hook_def Init_def example_env_def)
qed

definition example_h1 :: "(DeviceRow list option, unit) keelHook" where
  "example_h1 = snd (OnConnectAuthenticate example_env (example_client 1 [example_cert]) '''' '''' example_hook)"

definition example_h2 :: "(DeviceRow list option, unit) keelHook" where
  "example_h2 = snd (OnConnectAuthenticate example_env (example_client 2 [example_cert]) '''' '''' example_h1)"

lemma takeover_leaks_connection_witness:
  "kh_tenantConns (Hook_OnDisconnect (example_client 2 [example_cert]) True
      (Hook_OnDisconnect (example_client 1 [example_cert]) True example_h2)) ''A'' = 1 \<and>
   kh_clients (Hook_OnDisconnect (example_client 2 [example_cert]) True
      (Hook_OnDisconnect (example_client 1 [example_cert]) True example_h2)) ''c'' = None"
proof -
  have a: "fst (OnConnectAuthenticate example_env (example_client 1 [example_cert]) '''' '''' example_hook)" by code_simp
  have b: "fst (OnConnectAuthenticate example_env (example_client 2 [example_cert]) '''' '''' example_h1)" by code_simp
  have c1: "OnConnectAuthenticate example_env (example_client 1 [example_cert]) '''' '''' example_hook = (True, example_h1)"
    unfolding example_h1_def using a by (metis prod.collapse)
  have c2: "OnConnectAuthenticate example_env (example_client 2 [example_cert]) '''' '''' example_h1 = (True, example_h2)"
    unfolding example_h2_def using b by (metis prod.collapse)
  have t: "map_option (di_TenantID \<circ> cs_info) (kh_clients example_h1 ''c'') = Some ''A''"
      "map_option (di_TenantID \<circ> cs_info) (kh_clients example_h2 ''c'') = Some ''A''" by code_simp+
  show ?thesis
    using takeover_leaks_connection[OF c1 c2, of "''A''" True] t
    by (simp add: example_client_def example_hook_def Init_def)
qed

definition example_two :: "(DeviceRow list option, unit) keelHook" where
  "example_two = Hook_OnSubscribed ((example_client 2 [])\<lparr>cl_ID := ''other''\<rparr>) [''command/d1'']
     (Hook_OnSubscribed (example_client 1 []) [''command/d1''] example_hook)"

lemma routes_mirror_local_subscribers_witness:
  "records ''command/d1'' ''other'' example_two \<and> routed (kh_trace example_two) ''command/d1'' \<and>
   routed (kh_trace (Hook_OnUnsubscribed (example_client 1 []) [''command/d1''] example_two)) ''command/d1''"
proof -
  have "hook_run example_two"
    unfolding example_two_def example_hook_def by (intro hook_run.subscribe hook_run.start) simp
  moreover have "records ''command/d1'' ''other'' example_two"
    by (simp add: records_def example_two_def Hook_OnSubscribed_def subscribeClusterFilters_def subscribe_filter_def
        addClusterFilterRef_def example_client_def example_hook_def Init_def Let_def emit_def)
  moreover have "''other'' \<noteq> cl_ID (example_client 1 [])" by (simp add: example_client_def)
  ultimately show ?thesis
    using routes_mirror_local_subscribers[of example_two "''command/d1''" True "[''command/d1'']"] by blast
qed

end
