(* ===== verification/Registry.thy ===== *)
theory Registry
  imports Caches Router
begin

text \<open>
  The registries of \<^verbatim>\<open>internal/cluster/raft\<close>: \<open>LocalRegistry\<close> (\<^verbatim>\<open>registry.go\<close>) submits commands to
  raft, \<open>RemoteRegistry\<close> (\<^verbatim>\<open>remote_registry.go\<close>) calls core nodes over gRPC, \<open>RPCServer\<close>
  (\<^verbatim>\<open>rpc_server.go\<close>) serves those calls, \<open>CoreRegistry\<close> (\<^verbatim>\<open>core_registry.go\<close>) composes raft with the
  router and forwards a write to the leader, and \<open>EdgeRegistry\<close> (\<^verbatim>\<open>edge_registry.go\<close>) composes a
  router, the remote registry and the two caches.

  The raft library and the network are the environment, held in the record \<open>core_cluster\<close>: who leads,
  which answer the next \<^verbatim>\<open>raft.Apply\<close> gives, what each node believes the leader's address to be,
  which node listens on an address and what the network does to the next call. An answer may be lost
  after the call was carried out, and an entry may be committed although \<^verbatim>\<open>Apply\<close> reports an error.
  Only the leader's state machine is advanced by a commit; the other replicas catch up on their own.

  The lemmas show that in a settled cluster a write submitted anywhere is applied exactly once and
  answered by the leader's state machine; that under every fault the log only ever grows by the
  submitted command and a reported success means that it was committed; that remote reads fail
  closed; and what a retried claim and a lagging replica can get wrong.
\<close>

subsection \<open>Errors and environment\<close>

datatype raft_error = ErrNotLeader | ErrLeadershipLost | ErrApplyOther | FsmPanic

datatype grpc_code = FailedPrecondition | Internal | Unimplemented | Unavailable | DeadlineExceeded

datatype reg_error =
    ApplyFailed raft_error
  | CommandFailed apply_error
  | RouteWriteFailed
  | RouterClosed
  | NoCorePeers
  | DialFailed string
  | RpcFailed grpc_code

text \<open>The answer to one \<^verbatim>\<open>raft.Apply\<close> on the leader: the entry is committed, or an error is
  reported, the entry is committed all the same when the flag says so, and leadership may move.\<close>

datatype raft_answer = RaftOk | RaftFault raft_error bool "string option"

text \<open>What the network does to one call: carry it, refuse it, or carry it and lose the answer.\<close>

datatype net_answer = NetOk | NetDown | NetLost

record core_cluster =
  cc_leader :: "string option"
  cc_raft :: "raft_answer list"
  cc_now :: int
  cc_fsm :: "string \<Rightarrow> state"
  cc_log :: "Command list"
  cc_view :: "string \<Rightarrow> string option"
  cc_listen :: "string \<rightharpoonup> string"
  cc_dial :: "string \<Rightarrow> bool"
  cc_net :: "net_answer list"
  cc_store :: ClusterStore
  cc_router :: "string \<Rightarrow> Router"
  cc_visit :: "(string \<times> Subscription) list \<Rightarrow> (string \<times> Subscription) list"
  cc_roleOrder :: "string \<Rightarrow> string list"
  cc_bindingOrder :: "string \<Rightarrow> string list"
  cc_rulesetOrder :: "string \<Rightarrow> string list"

type_synonym 'a reg_call = "core_cluster \<Rightarrow> core_cluster \<times> (reg_error + 'a)"

definition commit_entry :: "string \<Rightarrow> Command \<Rightarrow> core_cluster \<Rightarrow> core_cluster \<times> applyResult option" where
  "commit_entry n cmd c =
     (case Apply (cc_now c) (Some cmd) (cc_fsm c n) of
        None \<Rightarrow> (c, None)
      | Some (st, res) \<Rightarrow> (c\<lparr>cc_fsm := (cc_fsm c)(n := st), cc_log := cc_log c @ [cmd]\<rparr>, Some res))"

definition raft_commit :: "string \<Rightarrow> Command \<Rightarrow> core_cluster \<Rightarrow> core_cluster \<times> (raft_error + applyResult)" where
  "raft_commit n cmd c =
     (case commit_entry n cmd c of
        (c', Some res) \<Rightarrow> (c', Inr res)
      | (c', None) \<Rightarrow> (c', Inl FsmPanic))"

text \<open>A node that is not the leader refuses; the leader follows the next answer of the environment.\<close>

definition raft_Apply :: "string \<Rightarrow> Command \<Rightarrow> core_cluster \<Rightarrow> core_cluster \<times> (raft_error + applyResult)" where
  "raft_Apply n cmd c =
     (if cc_leader c \<noteq> Some n then (c, Inl ErrNotLeader)
      else case cc_raft c of
        [] \<Rightarrow> raft_commit n cmd c
      | RaftOk # as \<Rightarrow> raft_commit n cmd (c\<lparr>cc_raft := as\<rparr>)
      | RaftFault e committed l # as \<Rightarrow>
          let c' = c\<lparr>cc_raft := as, cc_leader := l\<rparr>;
              at = (case l of Some m \<Rightarrow> m | None \<Rightarrow> n)
          in (if committed then fst (commit_entry at cmd c') else c', Inl e))"

subsection \<open>LocalRegistry\<close>

text \<open>The arguments of a call name the node whose registry it is. The encoding of a command cannot
  fail, and \<open>Apply\<close> always answers with an \<open>applyResult\<close>, so the two branches of the source for
  those cases have no counterpart.\<close>

definition LocalRegistry_apply :: "string \<Rightarrow> Command \<Rightarrow> applyResult reg_call" where
  "LocalRegistry_apply n cmd c =
     (case raft_Apply n cmd c of
        (c', Inl e) \<Rightarrow> (c', Inl (ApplyFailed e))
      | (c', Inr res) \<Rightarrow> (case res_err res of Some e \<Rightarrow> (c', Inl (CommandFailed e)) | None \<Rightarrow> (c', Inr res)))"

definition map_reg :: "('a \<Rightarrow> 'b) \<Rightarrow> 'a reg_call \<Rightarrow> 'b reg_call" where
  "map_reg f call c = (case call c of (c', Inl e) \<Rightarrow> (c', Inl e) | (c', Inr x) \<Rightarrow> (c', Inr (f x)))"

abbreviation ignore_result :: "'a reg_call \<Rightarrow> unit reg_call" where
  "ignore_result \<equiv> map_reg (\<lambda>_. ())"

definition LocalRegistry_ClaimSession :: "string \<Rightarrow> string \<Rightarrow> string \<Rightarrow> string \<Rightarrow> string reg_call" where
  "LocalRegistry_ClaimSession n clientID nodeID identity =
     map_reg res_evictedNode (LocalRegistry_apply n (zeroCommand\<lparr>cmdOp := OpClaimSession,
       cmdClientID := clientID, cmdNodeID := nodeID, cmdIdentity := identity\<rparr>))"

definition LocalRegistry_ReleaseSession :: "string \<Rightarrow> string \<Rightarrow> string \<Rightarrow> unit reg_call" where
  "LocalRegistry_ReleaseSession n clientID nodeID =
     ignore_result (LocalRegistry_apply n (zeroCommand\<lparr>cmdOp := OpReleaseSession,
       cmdClientID := clientID, cmdNodeID := nodeID\<rparr>))"

definition LocalRegistry_CreateRole :: "string \<Rightarrow> string \<Rightarrow> ACLRule list \<Rightarrow> unit reg_call" where
  "LocalRegistry_CreateRole n name rules =
     ignore_result (LocalRegistry_apply n (zeroCommand\<lparr>cmdOp := OpCreateRole,
       cmdRoleName := name, cmdRules := rules\<rparr>))"

definition LocalRegistry_DeleteRole :: "string \<Rightarrow> string \<Rightarrow> unit reg_call" where
  "LocalRegistry_DeleteRole n name =
     ignore_result (LocalRegistry_apply n (zeroCommand\<lparr>cmdOp := OpDeleteRole, cmdRoleName := name\<rparr>))"

definition LocalRegistry_CreateBinding :: "string \<Rightarrow> string \<Rightarrow> string \<Rightarrow> unit reg_call" where
  "LocalRegistry_CreateBinding n princ roleName =
     ignore_result (LocalRegistry_apply n (zeroCommand\<lparr>cmdOp := OpCreateBinding,
       cmdPrincipal := princ, cmdRoleName := roleName\<rparr>))"

definition LocalRegistry_DeleteBinding :: "string \<Rightarrow> string \<Rightarrow> string \<Rightarrow> unit reg_call" where
  "LocalRegistry_DeleteBinding n princ roleName =
     ignore_result (LocalRegistry_apply n (zeroCommand\<lparr>cmdOp := OpDeleteBinding,
       cmdPrincipal := princ, cmdRoleName := roleName\<rparr>))"

definition LocalRegistry_EnableRuleset :: "string \<Rightarrow> string \<Rightarrow> unit reg_call" where
  "LocalRegistry_EnableRuleset n name =
     ignore_result (LocalRegistry_apply n (zeroCommand\<lparr>cmdOp := OpEnableRuleset, cmdRulesetName := name\<rparr>))"

definition LocalRegistry_DisableRuleset :: "string \<Rightarrow> string \<Rightarrow> unit reg_call" where
  "LocalRegistry_DisableRuleset n name =
     ignore_result (LocalRegistry_apply n (zeroCommand\<lparr>cmdOp := OpDisableRuleset, cmdRulesetName := name\<rparr>))"

definition LocalRegistry_SetRedisPrimary :: "string \<Rightarrow> string \<Rightarrow> unit reg_call" where
  "LocalRegistry_SetRedisPrimary n nodeID =
     ignore_result (LocalRegistry_apply n (zeroCommand\<lparr>cmdOp := OpSetRedisPrimary, cmdNodeID := nodeID\<rparr>))"

definition LocalRegistry_RevokeCertificate :: "string \<Rightarrow> string \<Rightarrow> string \<Rightarrow> unit reg_call" where
  "LocalRegistry_RevokeCertificate n identity serial =
     ignore_result (LocalRegistry_apply n (zeroCommand\<lparr>cmdOp := OpRevokeCertificate,
       cmdIdentity := identity, cmdSerial := serial\<rparr>))"

definition LocalRegistry_IsLeader :: "string \<Rightarrow> core_cluster \<Rightarrow> bool" where
  "LocalRegistry_IsLeader n c \<longleftrightarrow> cc_leader c = Some n"

text \<open>The reads of the local registry go to the node's own replica.\<close>

definition LocalRegistry_EvaluateACL ::
  "string \<Rightarrow> core_cluster \<Rightarrow> string \<Rightarrow> string \<Rightarrow> string \<Rightarrow> Action \<Rightarrow> Decision" where
  "LocalRegistry_EvaluateACL n c = evaluateACL (cc_rulesetOrder c n) (cc_bindingOrder c n) (cc_fsm c n)"

definition LocalRegistry_IsRevoked :: "string \<Rightarrow> core_cluster \<Rightarrow> string \<Rightarrow> bool" where
  "LocalRegistry_IsRevoked n c = isRevoked (cc_fsm c n)"

definition LocalRegistry_SessionOwner :: "string \<Rightarrow> core_cluster \<Rightarrow> string \<Rightarrow> string option" where
  "LocalRegistry_SessionOwner n c = sessionOwner (cc_fsm c n)"

definition LocalRegistry_SessionsSnapshot :: "string \<Rightarrow> core_cluster \<Rightarrow> (string \<rightharpoonup> string)" where
  "LocalRegistry_SessionsSnapshot n c = sessionsSnapshot (cc_fsm c n)"

definition LocalRegistry_RolesSnapshot :: "string \<Rightarrow> core_cluster \<Rightarrow> (string \<rightharpoonup> Role)" where
  "LocalRegistry_RolesSnapshot n c = rolesSnapshot (cc_fsm c n)"

definition LocalRegistry_BindingsSnapshot :: "string \<Rightarrow> core_cluster \<Rightarrow> (string \<rightharpoonup> string list)" where
  "LocalRegistry_BindingsSnapshot n c = bindingsSnapshot (cc_fsm c n)"

definition LocalRegistry_EnabledRulesetsSnapshot :: "string \<Rightarrow> core_cluster \<Rightarrow> string list" where
  "LocalRegistry_EnabledRulesetsSnapshot n c = enabledRulesetsSnapshot (cc_rulesetOrder c n) (cc_fsm c n)"

definition LocalRegistry_RevokedSnapshot :: "string \<Rightarrow> core_cluster \<Rightarrow> (string \<rightharpoonup> int)" where
  "LocalRegistry_RevokedSnapshot n c = revokedSnapshot (cc_fsm c n)"

definition LocalRegistry_ClientIDsForIdentity :: "string list \<Rightarrow> string \<Rightarrow> core_cluster \<Rightarrow> string \<Rightarrow> string list" where
  "LocalRegistry_ClientIDsForIdentity order n c = clientIDsForIdentity order (cc_fsm c n)"

definition LocalRegistry_CurrentRedisPrimary :: "string \<Rightarrow> core_cluster \<Rightarrow> string \<times> bool" where
  "LocalRegistry_CurrentRedisPrimary n c = currentRedisPrimary (cc_fsm c n)"

subsection \<open>RemoteRegistry\<close>

text \<open>The protocol messages of the Registry service; the responses without fields are one value.\<close>

datatype rpc_request =
    SubscribeRequest string string
  | UnsubscribeRequest string string
  | NodesForRequest string string
  | ClaimSessionRequest string string string
  | ReleaseSessionRequest string string
  | EvaluateACLRequest string string string string
  | CurrentRedisPrimaryRequest
  | ACLSnapshotRequest
  | CreateRoleRequest string "ACLRule list"
  | DeleteRoleRequest string
  | CreateBindingRequest string string
  | DeleteBindingRequest string string
  | EnableRulesetRequest string
  | DisableRulesetRequest string
  | IsRevokedRequest string
  | RevokeCertificateRequest string string
  | RevocationSnapshotRequest

datatype rpc_response =
    AckResponse
  | NodesForResponse "string set"
  | ClaimSessionResponse bool string
  | EvaluateACLResponse bool string
  | CurrentRedisPrimaryResponse string bool
  | ACLSnapshotResponse "(string \<times> ACLRule list) list" "(string \<times> string list) list" "string list"
  | IsRevokedResponse bool
  | RevocationSnapshotResponse "string \<rightharpoonup> int"

text \<open>How a node serves a request, and one call of a client on an address.\<close>

type_synonym rpc_server = "string \<Rightarrow> rpc_request \<Rightarrow> core_cluster \<Rightarrow> core_cluster \<times> (grpc_code + rpc_response)"

definition next_net :: "core_cluster \<Rightarrow> net_answer \<times> core_cluster" where
  "next_net c = (case cc_net c of [] \<Rightarrow> (NetOk, c) | a # as \<Rightarrow> (a, c\<lparr>cc_net := as\<rparr>))"

definition rpc_call :: "rpc_server \<Rightarrow> string \<Rightarrow> rpc_request \<Rightarrow> rpc_response reg_call" where
  "rpc_call serve addr req c =
     (case next_net c of
        (NetDown, c') \<Rightarrow> (c', Inl (RpcFailed Unavailable))
      | (a, c') \<Rightarrow>
          (case cc_listen c' addr of
             None \<Rightarrow> (c', Inl (RpcFailed Unavailable))
           | Some n \<Rightarrow>
               (case serve n req c' of
                  (c'', r) \<Rightarrow>
                    (c'', if a = NetLost then Inl (RpcFailed DeadlineExceeded)
                          else (case r of Inl code \<Rightarrow> Inl (RpcFailed code) | Inr resp \<Rightarrow> Inr resp)))))"

text \<open>\<open>forEachPeer\<close>: every function passed to it makes one call and keeps the answer, so it is given
  the request and returns the answer. A failing call is followed by a call on the next peer whatever
  the failure; only the log line depends on the code. The connections are kept open between calls,
  which changes nothing that a caller can observe.\<close>

fun forEachPeer_loop :: "rpc_server \<Rightarrow> rpc_request \<Rightarrow> string list \<Rightarrow> reg_error \<Rightarrow> rpc_response reg_call" where
  "forEachPeer_loop serve req [] lastErr c = (c, Inl lastErr)"
| "forEachPeer_loop serve req (addr # peers) lastErr c =
     (if \<not> cc_dial c addr then forEachPeer_loop serve req peers (DialFailed addr) c
      else case rpc_call serve addr req c of
        (c', Inr resp) \<Rightarrow> (c', Inr resp)
      | (c', Inl err) \<Rightarrow> forEachPeer_loop serve req peers err c')"

definition forEachPeer :: "rpc_server \<Rightarrow> string list \<Rightarrow> rpc_request \<Rightarrow> rpc_response reg_call" where
  "forEachPeer serve peers req c =
     (if peers = [] then (c, Inl NoCorePeers) else forEachPeer_loop serve req peers NoCorePeers c)"

fun GetEvictedNodeId :: "rpc_response \<Rightarrow> string" where
  "GetEvictedNodeId (ClaimSessionResponse ok evicted) = evicted"
| "GetEvictedNodeId _ = ''''"

fun GetNodeIds :: "rpc_response \<Rightarrow> string set" where
  "GetNodeIds (NodesForResponse ns) = ns"
| "GetNodeIds _ = {}"

fun GetDecision :: "rpc_response \<Rightarrow> bool \<times> string" where
  "GetDecision (EvaluateACLResponse allowed matched) = (allowed, matched)"
| "GetDecision _ = (False, '''')"

fun GetPrimary :: "rpc_response \<Rightarrow> string \<times> bool" where
  "GetPrimary (CurrentRedisPrimaryResponse nodeID ok) = (nodeID, ok)"
| "GetPrimary _ = ('''', False)"

fun GetRevoked :: "rpc_response \<Rightarrow> bool" where
  "GetRevoked (IsRevokedResponse b) = b"
| "GetRevoked _ = False"

fun GetRevokedIdentities :: "rpc_response \<Rightarrow> (string \<rightharpoonup> int)" where
  "GetRevokedIdentities (RevocationSnapshotResponse m) = m"
| "GetRevokedIdentities _ = Map.empty"

definition RemoteRegistry_Subscribe :: "rpc_server \<Rightarrow> string list \<Rightarrow> string \<Rightarrow> string \<Rightarrow> unit reg_call" where
  "RemoteRegistry_Subscribe serve peers topic nodeID =
     ignore_result (forEachPeer serve peers (SubscribeRequest topic nodeID))"

definition RemoteRegistry_Unsubscribe :: "rpc_server \<Rightarrow> string list \<Rightarrow> string \<Rightarrow> string \<Rightarrow> unit reg_call" where
  "RemoteRegistry_Unsubscribe serve peers topic nodeID =
     ignore_result (forEachPeer serve peers (UnsubscribeRequest topic nodeID))"

definition RemoteRegistry_NodesFor ::
  "rpc_server \<Rightarrow> string list \<Rightarrow> string \<Rightarrow> string \<Rightarrow> core_cluster \<Rightarrow> core_cluster \<times> string set" where
  "RemoteRegistry_NodesFor serve peers topic localNodeID c =
     (case forEachPeer serve peers (NodesForRequest topic localNodeID) c of
        (c', Inr resp) \<Rightarrow> (c', GetNodeIds resp)
      | (c', Inl _) \<Rightarrow> (c', {}))"

definition RemoteRegistry_ClaimSession ::
  "rpc_server \<Rightarrow> string list \<Rightarrow> string \<Rightarrow> string \<Rightarrow> string \<Rightarrow> string reg_call" where
  "RemoteRegistry_ClaimSession serve peers clientID nodeID identity =
     map_reg GetEvictedNodeId (forEachPeer serve peers (ClaimSessionRequest clientID nodeID identity))"

definition RemoteRegistry_ReleaseSession :: "rpc_server \<Rightarrow> string list \<Rightarrow> string \<Rightarrow> string \<Rightarrow> unit reg_call" where
  "RemoteRegistry_ReleaseSession serve peers clientID nodeID =
     ignore_result (forEachPeer serve peers (ReleaseSessionRequest clientID nodeID))"

definition RemoteRegistry_EvaluateACL ::
  "rpc_server \<Rightarrow> string list \<Rightarrow> string \<Rightarrow> string \<Rightarrow> string \<Rightarrow> Action \<Rightarrow> core_cluster \<Rightarrow> core_cluster \<times> Decision" where
  "RemoteRegistry_EvaluateACL serve peers clientID username topic action c =
     (case forEachPeer serve peers (EvaluateACLRequest clientID username topic action) c of
        (c', Inr resp) \<Rightarrow>
          (case GetDecision resp of
             (allowed, mf) \<Rightarrow>
               (c', \<lparr>DecEffect = (if allowed then EffectAllow else EffectDeny),
                     DecRule = (if mf \<noteq> '''' then Some \<lparr>TopicFilter = mf, Actions = [], RuleEffect = ''''\<rparr>
                                else None)\<rparr>))
      | (c', Inl _) \<Rightarrow> (c', \<lparr>DecEffect = EffectDeny, DecRule = None\<rparr>))"

definition RemoteRegistry_CurrentRedisPrimary ::
  "rpc_server \<Rightarrow> string list \<Rightarrow> core_cluster \<Rightarrow> core_cluster \<times> string \<times> bool" where
  "RemoteRegistry_CurrentRedisPrimary serve peers c =
     (case forEachPeer serve peers CurrentRedisPrimaryRequest c of
        (c', Inr resp) \<Rightarrow> (c', GetPrimary resp)
      | (c', Inl _) \<Rightarrow> (c', '''', False))"

text \<open>The loops that rebuild the maps from the lists of the response: a later entry for a key
  overwrites an earlier one.\<close>

definition roles_of_entries :: "(string \<times> ACLRule list) list \<Rightarrow> (string \<rightharpoonup> Role)" where
  "roles_of_entries es = fold (\<lambda>(name, rules) m. m(name \<mapsto> \<lparr>RoleName = name, Rules = rules\<rparr>)) es Map.empty"

definition bindings_of_entries :: "(string \<times> string list) list \<Rightarrow> (string \<rightharpoonup> string list)" where
  "bindings_of_entries es = fold (\<lambda>(p, rns) m. m(p \<mapsto> rns)) es Map.empty"

fun GetACLSnapshot :: "rpc_response \<Rightarrow> acl_snapshot" where
  "GetACLSnapshot (ACLSnapshotResponse res bes enabled) =
     (roles_of_entries res, bindings_of_entries bes, enabled)"
| "GetACLSnapshot _ = (Map.empty, Map.empty, [])"

definition RemoteRegistry_ACLSnapshot :: "rpc_server \<Rightarrow> string list \<Rightarrow> acl_snapshot reg_call" where
  "RemoteRegistry_ACLSnapshot serve peers = map_reg GetACLSnapshot (forEachPeer serve peers ACLSnapshotRequest)"

definition RemoteRegistry_CreateRole :: "rpc_server \<Rightarrow> string list \<Rightarrow> string \<Rightarrow> ACLRule list \<Rightarrow> unit reg_call" where
  "RemoteRegistry_CreateRole serve peers name rules =
     ignore_result (forEachPeer serve peers (CreateRoleRequest name rules))"

definition RemoteRegistry_DeleteRole :: "rpc_server \<Rightarrow> string list \<Rightarrow> string \<Rightarrow> unit reg_call" where
  "RemoteRegistry_DeleteRole serve peers name =
     ignore_result (forEachPeer serve peers (DeleteRoleRequest name))"

definition RemoteRegistry_CreateBinding :: "rpc_server \<Rightarrow> string list \<Rightarrow> string \<Rightarrow> string \<Rightarrow> unit reg_call" where
  "RemoteRegistry_CreateBinding serve peers princ roleName =
     ignore_result (forEachPeer serve peers (CreateBindingRequest princ roleName))"

definition RemoteRegistry_DeleteBinding :: "rpc_server \<Rightarrow> string list \<Rightarrow> string \<Rightarrow> string \<Rightarrow> unit reg_call" where
  "RemoteRegistry_DeleteBinding serve peers princ roleName =
     ignore_result (forEachPeer serve peers (DeleteBindingRequest princ roleName))"

definition RemoteRegistry_EnableRuleset :: "rpc_server \<Rightarrow> string list \<Rightarrow> string \<Rightarrow> unit reg_call" where
  "RemoteRegistry_EnableRuleset serve peers name =
     ignore_result (forEachPeer serve peers (EnableRulesetRequest name))"

definition RemoteRegistry_DisableRuleset :: "rpc_server \<Rightarrow> string list \<Rightarrow> string \<Rightarrow> unit reg_call" where
  "RemoteRegistry_DisableRuleset serve peers name =
     ignore_result (forEachPeer serve peers (DisableRulesetRequest name))"

definition RemoteRegistry_IsRevoked ::
  "rpc_server \<Rightarrow> string list \<Rightarrow> string \<Rightarrow> core_cluster \<Rightarrow> core_cluster \<times> bool" where
  "RemoteRegistry_IsRevoked serve peers identity c =
     (case forEachPeer serve peers (IsRevokedRequest identity) c of
        (c', Inr resp) \<Rightarrow> (c', GetRevoked resp)
      | (c', Inl _) \<Rightarrow> (c', True))"

definition RemoteRegistry_RevokeCertificate :: "rpc_server \<Rightarrow> string list \<Rightarrow> string \<Rightarrow> string \<Rightarrow> unit reg_call" where
  "RemoteRegistry_RevokeCertificate serve peers identity serial =
     ignore_result (forEachPeer serve peers (RevokeCertificateRequest identity serial))"

definition RemoteRegistry_RevokedSnapshot :: "rpc_server \<Rightarrow> string list \<Rightarrow> (string \<rightharpoonup> int) reg_call" where
  "RemoteRegistry_RevokedSnapshot serve peers =
     map_reg GetRevokedIdentities (forEachPeer serve peers RevocationSnapshotRequest)"

subsection \<open>CoreRegistry\<close>

definition IsNotLeader :: "reg_error \<Rightarrow> bool" where
  "IsNotLeader err \<longleftrightarrow> err = ApplyFailed ErrNotLeader \<or> err = ApplyFailed ErrLeadershipLost"

text \<open>The peers of the fallback registry: the address this node believes the leader to have.\<close>

definition fallback_peers :: "string \<Rightarrow> core_cluster \<Rightarrow> string list" where
  "fallback_peers n c = (case cc_view c n of None \<Rightarrow> [] | Some addr \<Rightarrow> [addr])"

text \<open>The body every write of the core registry has: try the local raft node, and on a leadership
  error the fallback.\<close>

definition leader_or_forward :: "string \<Rightarrow> 'a reg_call \<Rightarrow> (string list \<Rightarrow> 'a reg_call) \<Rightarrow> 'a reg_call" where
  "leader_or_forward n local fallback c =
     (case local c of
        (c', Inl err) \<Rightarrow> if IsNotLeader err then fallback (fallback_peers n c') c' else (c', Inl err)
      | (c', Inr x) \<Rightarrow> (c', Inr x))"

definition route_call :: "(ClusterStore \<Rightarrow> ClusterStore \<times> bool) \<Rightarrow> unit reg_call" where
  "route_call f c =
     (case f (cc_store c) of
        (S, True) \<Rightarrow> (c\<lparr>cc_store := S\<rparr>, Inr ())
      | (S, False) \<Rightarrow> (c\<lparr>cc_store := S\<rparr>, Inl RouteWriteFailed))"

definition CoreRegistry_Subscribe :: "string \<Rightarrow> string \<Rightarrow> string \<Rightarrow> unit reg_call" where
  "CoreRegistry_Subscribe n topic nodeID = route_call (Router_Subscribe topic nodeID)"

definition CoreRegistry_Unsubscribe :: "string \<Rightarrow> string \<Rightarrow> string \<Rightarrow> unit reg_call" where
  "CoreRegistry_Unsubscribe n topic nodeID = route_call (Router_Unsubscribe topic nodeID)"

definition CoreRegistry_NodesFor :: "string \<Rightarrow> core_cluster \<Rightarrow> string \<Rightarrow> string \<Rightarrow> string set" where
  "CoreRegistry_NodesFor n c topic localNodeID = NodesFor (cc_visit c) topic localNodeID (cc_router c n)"

definition CoreRegistry_LiveDeliveryPlan :: "string \<Rightarrow> core_cluster \<Rightarrow> string \<Rightarrow> string \<Rightarrow> LivePlan" where
  "CoreRegistry_LiveDeliveryPlan n c topic localNodeID =
     LiveDeliveryPlan (cc_visit c) topic localNodeID (cc_router c n)"

definition CoreRegistry_UnsubscribeBatch :: "string \<Rightarrow> string list \<Rightarrow> string list \<Rightarrow> string \<Rightarrow> unit reg_call" where
  "CoreRegistry_UnsubscribeBatch n order topics nodeID c =
     route_call (UnsubscribeBatch order topics nodeID (cc_router c n)) c"

definition CoreRegistry_PurgeNode :: "string \<Rightarrow> string list \<Rightarrow> string \<Rightarrow> unit reg_call" where
  "CoreRegistry_PurgeNode n order nodeID c = route_call (PurgeNode order nodeID (cc_router c n)) c"

definition CoreRegistry_NodesWithRoutes :: "string \<Rightarrow> string list \<Rightarrow> core_cluster \<Rightarrow> string list" where
  "CoreRegistry_NodesWithRoutes n order c = NodesWithRoutes order (cc_router c n)"

definition CoreRegistry_ClaimSession ::
  "rpc_server \<Rightarrow> string \<Rightarrow> string \<Rightarrow> string \<Rightarrow> string \<Rightarrow> string reg_call" where
  "CoreRegistry_ClaimSession serve n clientID nodeID identity =
     leader_or_forward n (LocalRegistry_ClaimSession n clientID nodeID identity)
       (\<lambda>peers. RemoteRegistry_ClaimSession serve peers clientID nodeID identity)"

definition CoreRegistry_ReleaseSession :: "rpc_server \<Rightarrow> string \<Rightarrow> string \<Rightarrow> string \<Rightarrow> unit reg_call" where
  "CoreRegistry_ReleaseSession serve n clientID nodeID =
     leader_or_forward n (LocalRegistry_ReleaseSession n clientID nodeID)
       (\<lambda>peers. RemoteRegistry_ReleaseSession serve peers clientID nodeID)"

definition CoreRegistry_CreateRole :: "rpc_server \<Rightarrow> string \<Rightarrow> string \<Rightarrow> ACLRule list \<Rightarrow> unit reg_call" where
  "CoreRegistry_CreateRole serve n name rules =
     leader_or_forward n (LocalRegistry_CreateRole n name rules)
       (\<lambda>peers. RemoteRegistry_CreateRole serve peers name rules)"

definition CoreRegistry_DeleteRole :: "rpc_server \<Rightarrow> string \<Rightarrow> string \<Rightarrow> unit reg_call" where
  "CoreRegistry_DeleteRole serve n name =
     leader_or_forward n (LocalRegistry_DeleteRole n name)
       (\<lambda>peers. RemoteRegistry_DeleteRole serve peers name)"

definition CoreRegistry_CreateBinding :: "rpc_server \<Rightarrow> string \<Rightarrow> string \<Rightarrow> string \<Rightarrow> unit reg_call" where
  "CoreRegistry_CreateBinding serve n princ roleName =
     leader_or_forward n (LocalRegistry_CreateBinding n princ roleName)
       (\<lambda>peers. RemoteRegistry_CreateBinding serve peers princ roleName)"

definition CoreRegistry_DeleteBinding :: "rpc_server \<Rightarrow> string \<Rightarrow> string \<Rightarrow> string \<Rightarrow> unit reg_call" where
  "CoreRegistry_DeleteBinding serve n princ roleName =
     leader_or_forward n (LocalRegistry_DeleteBinding n princ roleName)
       (\<lambda>peers. RemoteRegistry_DeleteBinding serve peers princ roleName)"

definition CoreRegistry_EnableRuleset :: "rpc_server \<Rightarrow> string \<Rightarrow> string \<Rightarrow> unit reg_call" where
  "CoreRegistry_EnableRuleset serve n name =
     leader_or_forward n (LocalRegistry_EnableRuleset n name)
       (\<lambda>peers. RemoteRegistry_EnableRuleset serve peers name)"

definition CoreRegistry_DisableRuleset :: "rpc_server \<Rightarrow> string \<Rightarrow> string \<Rightarrow> unit reg_call" where
  "CoreRegistry_DisableRuleset serve n name =
     leader_or_forward n (LocalRegistry_DisableRuleset n name)
       (\<lambda>peers. RemoteRegistry_DisableRuleset serve peers name)"

definition CoreRegistry_RevokeCertificate :: "rpc_server \<Rightarrow> string \<Rightarrow> string \<Rightarrow> string \<Rightarrow> unit reg_call" where
  "CoreRegistry_RevokeCertificate serve n identity serial =
     leader_or_forward n (LocalRegistry_RevokeCertificate n identity serial)
       (\<lambda>peers. RemoteRegistry_RevokeCertificate serve peers identity serial)"

text \<open>The reads of the core registry are those of its local registry.\<close>

definition CoreRegistry_EvaluateACL ::
  "string \<Rightarrow> core_cluster \<Rightarrow> string \<Rightarrow> string \<Rightarrow> string \<Rightarrow> Action \<Rightarrow> Decision" where
  "CoreRegistry_EvaluateACL = LocalRegistry_EvaluateACL"

definition CoreRegistry_IsRevoked :: "string \<Rightarrow> core_cluster \<Rightarrow> string \<Rightarrow> bool" where
  "CoreRegistry_IsRevoked = LocalRegistry_IsRevoked"

definition CoreRegistry_CurrentRedisPrimary :: "string \<Rightarrow> core_cluster \<Rightarrow> string \<times> bool" where
  "CoreRegistry_CurrentRedisPrimary = LocalRegistry_CurrentRedisPrimary"

subsection \<open>RPCServer\<close>

definition notLeaderStatus :: "reg_error \<Rightarrow> grpc_code" where
  "notLeaderStatus err =
     (if err = ApplyFailed ErrNotLeader \<or> err = ApplyFailed ErrLeadershipLost then FailedPrecondition else Internal)"

definition rpc_reply :: "('a \<Rightarrow> rpc_response) \<Rightarrow> core_cluster \<times> (reg_error + 'a) \<Rightarrow> core_cluster \<times> (grpc_code + rpc_response)" where
  "rpc_reply f r = (case r of (c, Inl err) \<Rightarrow> (c, Inl (notLeaderStatus err)) | (c, Inr x) \<Rightarrow> (c, Inr (f x)))"

abbreviation rpc_ack :: "core_cluster \<times> (reg_error + unit) \<Rightarrow> core_cluster \<times> (grpc_code + rpc_response)" where
  "rpc_ack \<equiv> rpc_reply (\<lambda>_. AckResponse)"

definition RPCServer_EvaluateACL ::
  "string \<Rightarrow> string \<Rightarrow> string \<Rightarrow> string \<Rightarrow> string \<Rightarrow> core_cluster \<Rightarrow> rpc_response" where
  "RPCServer_EvaluateACL n clientID username topic action c =
     (let decision = CoreRegistry_EvaluateACL n c clientID username topic action in
      EvaluateACLResponse (Allowed decision)
        (case DecRule decision of Some r \<Rightarrow> TopicFilter r | None \<Rightarrow> ''''))"

definition RPCServer_ACLSnapshot :: "string \<Rightarrow> core_cluster \<Rightarrow> rpc_response" where
  "RPCServer_ACLSnapshot n c =
     ACLSnapshotResponse
       (List.map_filter (\<lambda>name. map_option (\<lambda>role. (name, Rules role)) (LocalRegistry_RolesSnapshot n c name))
          (cc_roleOrder c n))
       (List.map_filter (\<lambda>p. map_option (\<lambda>rns. (p, rns)) (LocalRegistry_BindingsSnapshot n c p))
          (cc_bindingOrder c n))
       (LocalRegistry_EnabledRulesetsSnapshot n c)"

text \<open>The server of a core node: the wrapped registry is a \<open>CoreRegistry\<close>, which implements both
  administration interfaces, so the type assertions of the source succeed.\<close>

fun RPCServer_handle :: "rpc_server \<Rightarrow> rpc_server" where
  "RPCServer_handle serve n (SubscribeRequest topic nodeID) c = rpc_ack (CoreRegistry_Subscribe n topic nodeID c)"
| "RPCServer_handle serve n (UnsubscribeRequest topic nodeID) c = rpc_ack (CoreRegistry_Unsubscribe n topic nodeID c)"
| "RPCServer_handle serve n (NodesForRequest topic localNodeID) c =
     (c, Inr (NodesForResponse (CoreRegistry_NodesFor n c topic localNodeID)))"
| "RPCServer_handle serve n (ClaimSessionRequest clientID nodeID identity) c =
     rpc_reply (ClaimSessionResponse True) (CoreRegistry_ClaimSession serve n clientID nodeID identity c)"
| "RPCServer_handle serve n (ReleaseSessionRequest clientID nodeID) c =
     rpc_ack (CoreRegistry_ReleaseSession serve n clientID nodeID c)"
| "RPCServer_handle serve n (EvaluateACLRequest clientID username topic action) c =
     (c, Inr (RPCServer_EvaluateACL n clientID username topic action c))"
| "RPCServer_handle serve n CurrentRedisPrimaryRequest c =
     (c, Inr (case CoreRegistry_CurrentRedisPrimary n c of (nodeID, ok) \<Rightarrow> CurrentRedisPrimaryResponse nodeID ok))"
| "RPCServer_handle serve n ACLSnapshotRequest c = (c, Inr (RPCServer_ACLSnapshot n c))"
| "RPCServer_handle serve n (CreateRoleRequest name rules) c = rpc_ack (CoreRegistry_CreateRole serve n name rules c)"
| "RPCServer_handle serve n (DeleteRoleRequest name) c = rpc_ack (CoreRegistry_DeleteRole serve n name c)"
| "RPCServer_handle serve n (CreateBindingRequest princ roleName) c =
     rpc_ack (CoreRegistry_CreateBinding serve n princ roleName c)"
| "RPCServer_handle serve n (DeleteBindingRequest princ roleName) c =
     rpc_ack (CoreRegistry_DeleteBinding serve n princ roleName c)"
| "RPCServer_handle serve n (EnableRulesetRequest name) c = rpc_ack (CoreRegistry_EnableRuleset serve n name c)"
| "RPCServer_handle serve n (DisableRulesetRequest name) c = rpc_ack (CoreRegistry_DisableRuleset serve n name c)"
| "RPCServer_handle serve n (IsRevokedRequest identity) c =
     (c, Inr (IsRevokedResponse (CoreRegistry_IsRevoked n c identity)))"
| "RPCServer_handle serve n (RevokeCertificateRequest identity serial) c =
     rpc_ack (CoreRegistry_RevokeCertificate serve n identity serial c)"
| "RPCServer_handle serve n RevocationSnapshotRequest c =
     (c, Inr (RevocationSnapshotResponse (LocalRegistry_RevokedSnapshot n c)))"

text \<open>A core node that is not the leader forwards a write it was sent to the node it believes to
  lead, which may do the same: nothing in the code bounds the chain but the three seconds a caller
  waits. The number of hops that fit into that time is an argument; the call beyond them is the one
  whose caller sees the deadline pass.\<close>

fun rpc_serve :: "nat \<Rightarrow> rpc_server" where
  "rpc_serve 0 n req c = (c, Inl DeadlineExceeded)"
| "rpc_serve (Suc hops) n req c = RPCServer_handle (rpc_serve hops) n req c"

subsection \<open>EdgeRegistry\<close>

record EdgeRegistry =
  er_router :: "Router option"
  er_aclCache :: ACLCache
  er_revocationCache :: RevocationCache

definition edge_route :: "EdgeRegistry \<Rightarrow> (Router \<Rightarrow> ClusterStore \<Rightarrow> ClusterStore \<times> bool) \<Rightarrow> unit reg_call" where
  "edge_route e f c = (case er_router e of None \<Rightarrow> (c, Inl RouterClosed) | Some r \<Rightarrow> route_call (f r) c)"

definition EdgeRegistry_Subscribe :: "EdgeRegistry \<Rightarrow> string \<Rightarrow> string \<Rightarrow> unit reg_call" where
  "EdgeRegistry_Subscribe e topic nodeID = edge_route e (\<lambda>_. Router_Subscribe topic nodeID)"

definition EdgeRegistry_Unsubscribe :: "EdgeRegistry \<Rightarrow> string \<Rightarrow> string \<Rightarrow> unit reg_call" where
  "EdgeRegistry_Unsubscribe e topic nodeID = edge_route e (\<lambda>_. Router_Unsubscribe topic nodeID)"

definition EdgeRegistry_UnsubscribeBatch :: "EdgeRegistry \<Rightarrow> string list \<Rightarrow> string list \<Rightarrow> string \<Rightarrow> unit reg_call" where
  "EdgeRegistry_UnsubscribeBatch e order topics nodeID = edge_route e (UnsubscribeBatch order topics nodeID)"

definition EdgeRegistry_PurgeNode :: "EdgeRegistry \<Rightarrow> string list \<Rightarrow> string \<Rightarrow> unit reg_call" where
  "EdgeRegistry_PurgeNode e order nodeID = edge_route e (PurgeNode order nodeID)"

definition EdgeRegistry_LiveDeliveryPlan ::
  "EdgeRegistry \<Rightarrow> ((string \<times> Subscription) list \<Rightarrow> (string \<times> Subscription) list) \<Rightarrow> string \<Rightarrow> string \<Rightarrow> LivePlan" where
  "EdgeRegistry_LiveDeliveryPlan e visit topic localNodeID =
     (case er_router e of
        None \<Rightarrow> \<lparr>lp_Nodes = {}, lp_SharedNodes = Map.empty\<rparr>
      | Some r \<Rightarrow> LiveDeliveryPlan visit topic localNodeID r)"

definition EdgeRegistry_NodesFor ::
  "EdgeRegistry \<Rightarrow> ((string \<times> Subscription) list \<Rightarrow> (string \<times> Subscription) list) \<Rightarrow> string \<Rightarrow> string \<Rightarrow> string set" where
  "EdgeRegistry_NodesFor e visit topic localNodeID =
     (case er_router e of None \<Rightarrow> {} | Some r \<Rightarrow> NodesFor visit topic localNodeID r)"

definition EdgeRegistry_OfflineNodesFor ::
  "EdgeRegistry \<Rightarrow> string list \<Rightarrow> string list \<Rightarrow> string list \<Rightarrow> string \<Rightarrow> string list" where
  "EdgeRegistry_OfflineNodesFor e nodes filters order topic =
     (case er_router e of None \<Rightarrow> [] | Some r \<Rightarrow> OfflineNodesFor nodes filters order topic r)"

definition EdgeRegistry_OfflineDeliveryCandidates ::
  "EdgeRegistry \<Rightarrow> string list \<Rightarrow> string list \<Rightarrow> string list \<Rightarrow> string \<Rightarrow> string \<Rightarrow> string list \<times> (string \<rightharpoonup> string)" where
  "EdgeRegistry_OfflineDeliveryCandidates e topics filters order topic nodeID =
     (case er_router e of
        None \<Rightarrow> ([], Map.empty)
      | Some r \<Rightarrow> OfflineDeliveryCandidates topics filters order topic nodeID r)"

definition EdgeRegistry_OwnedClientIDs :: "EdgeRegistry \<Rightarrow> string list \<Rightarrow> string \<Rightarrow> string list" where
  "EdgeRegistry_OwnedClientIDs e order nodeID =
     (case er_router e of None \<Rightarrow> [] | Some r \<Rightarrow> OwnedClientIDs order nodeID r)"

definition EdgeRegistry_OfflineSharedClientsFor ::
  "EdgeRegistry \<Rightarrow> string list \<Rightarrow> string \<Rightarrow> string \<Rightarrow> (string \<rightharpoonup> string)" where
  "EdgeRegistry_OfflineSharedClientsFor e order topic nodeID =
     (case er_router e of None \<Rightarrow> Map.empty | Some r \<Rightarrow> OfflineSharedClientsFor order topic nodeID r)"

definition EdgeRegistry_TopicsForNode :: "EdgeRegistry \<Rightarrow> string list \<Rightarrow> string \<Rightarrow> string list" where
  "EdgeRegistry_TopicsForNode e order nodeID =
     (case er_router e of None \<Rightarrow> [] | Some r \<Rightarrow> topicsForNodeLocked order nodeID r)"

definition ReplaceRouter :: "Router option \<Rightarrow> EdgeRegistry \<Rightarrow> EdgeRegistry \<times> Router option" where
  "ReplaceRouter r e = (e\<lparr>er_router := r\<rparr>, er_router e)"

definition EdgeRegistry_ClaimSession ::
  "rpc_server \<Rightarrow> string list \<Rightarrow> string \<Rightarrow> string \<Rightarrow> string \<Rightarrow> string reg_call" where
  "EdgeRegistry_ClaimSession = RemoteRegistry_ClaimSession"

definition EdgeRegistry_ReleaseSession :: "rpc_server \<Rightarrow> string list \<Rightarrow> string \<Rightarrow> string \<Rightarrow> unit reg_call" where
  "EdgeRegistry_ReleaseSession = RemoteRegistry_ReleaseSession"

definition EdgeRegistry_EvaluateACL ::
  "EdgeRegistry \<Rightarrow> string list \<Rightarrow> string \<Rightarrow> string \<Rightarrow> string \<Rightarrow> Action \<Rightarrow> Decision" where
  "EdgeRegistry_EvaluateACL e bOrder = ACLCache_EvaluateACL bOrder (er_aclCache e)"

definition EdgeRegistry_IsRevoked :: "EdgeRegistry \<Rightarrow> string \<Rightarrow> bool" where
  "EdgeRegistry_IsRevoked e = RevocationCache_IsRevoked (er_revocationCache e)"

definition EdgeRegistry_CurrentRedisPrimary ::
  "rpc_server \<Rightarrow> string list \<Rightarrow> core_cluster \<Rightarrow> core_cluster \<times> string \<times> bool" where
  "EdgeRegistry_CurrentRedisPrimary = RemoteRegistry_CurrentRedisPrimary"

text \<open>\<open>Close\<close> detaches the router, whose own \<open>Close\<close> is the store's.\<close>

definition EdgeRegistry_Close :: "EdgeRegistry \<Rightarrow> EdgeRegistry \<times> Router option" where
  "EdgeRegistry_Close e = ReplaceRouter None e"

subsection \<open>Writes\<close>

text \<open>The nine writes a core registry forwards, as one type: the command each submits, the request
  that carries it, and its runs through the three registries.\<close>

datatype registry_write =
    WClaimSession string string string
  | WReleaseSession string string
  | WCreateRole string "ACLRule list"
  | WDeleteRole string
  | WCreateBinding string string
  | WDeleteBinding string string
  | WEnableRuleset string
  | WDisableRuleset string
  | WRevokeCertificate string string

fun write_command :: "registry_write \<Rightarrow> Command" where
  "write_command (WClaimSession clientID nodeID identity) =
     zeroCommand\<lparr>cmdOp := OpClaimSession, cmdClientID := clientID, cmdNodeID := nodeID, cmdIdentity := identity\<rparr>"
| "write_command (WReleaseSession clientID nodeID) =
     zeroCommand\<lparr>cmdOp := OpReleaseSession, cmdClientID := clientID, cmdNodeID := nodeID\<rparr>"
| "write_command (WCreateRole name rules) = zeroCommand\<lparr>cmdOp := OpCreateRole, cmdRoleName := name, cmdRules := rules\<rparr>"
| "write_command (WDeleteRole name) = zeroCommand\<lparr>cmdOp := OpDeleteRole, cmdRoleName := name\<rparr>"
| "write_command (WCreateBinding princ roleName) =
     zeroCommand\<lparr>cmdOp := OpCreateBinding, cmdPrincipal := princ, cmdRoleName := roleName\<rparr>"
| "write_command (WDeleteBinding princ roleName) =
     zeroCommand\<lparr>cmdOp := OpDeleteBinding, cmdPrincipal := princ, cmdRoleName := roleName\<rparr>"
| "write_command (WEnableRuleset name) = zeroCommand\<lparr>cmdOp := OpEnableRuleset, cmdRulesetName := name\<rparr>"
| "write_command (WDisableRuleset name) = zeroCommand\<lparr>cmdOp := OpDisableRuleset, cmdRulesetName := name\<rparr>"
| "write_command (WRevokeCertificate identity serial) =
     zeroCommand\<lparr>cmdOp := OpRevokeCertificate, cmdIdentity := identity, cmdSerial := serial\<rparr>"

fun write_request :: "registry_write \<Rightarrow> rpc_request" where
  "write_request (WClaimSession clientID nodeID identity) = ClaimSessionRequest clientID nodeID identity"
| "write_request (WReleaseSession clientID nodeID) = ReleaseSessionRequest clientID nodeID"
| "write_request (WCreateRole name rules) = CreateRoleRequest name rules"
| "write_request (WDeleteRole name) = DeleteRoleRequest name"
| "write_request (WCreateBinding princ roleName) = CreateBindingRequest princ roleName"
| "write_request (WDeleteBinding princ roleName) = DeleteBindingRequest princ roleName"
| "write_request (WEnableRuleset name) = EnableRulesetRequest name"
| "write_request (WDisableRuleset name) = DisableRulesetRequest name"
| "write_request (WRevokeCertificate identity serial) = RevokeCertificateRequest identity serial"

abbreviation no_eviction :: "unit reg_call \<Rightarrow> string reg_call" where
  "no_eviction \<equiv> map_reg (\<lambda>_. '''')"

fun core_write :: "rpc_server \<Rightarrow> string \<Rightarrow> registry_write \<Rightarrow> string reg_call" where
  "core_write serve n (WClaimSession clientID nodeID identity) = CoreRegistry_ClaimSession serve n clientID nodeID identity"
| "core_write serve n (WReleaseSession clientID nodeID) = no_eviction (CoreRegistry_ReleaseSession serve n clientID nodeID)"
| "core_write serve n (WCreateRole name rules) = no_eviction (CoreRegistry_CreateRole serve n name rules)"
| "core_write serve n (WDeleteRole name) = no_eviction (CoreRegistry_DeleteRole serve n name)"
| "core_write serve n (WCreateBinding princ roleName) = no_eviction (CoreRegistry_CreateBinding serve n princ roleName)"
| "core_write serve n (WDeleteBinding princ roleName) = no_eviction (CoreRegistry_DeleteBinding serve n princ roleName)"
| "core_write serve n (WEnableRuleset name) = no_eviction (CoreRegistry_EnableRuleset serve n name)"
| "core_write serve n (WDisableRuleset name) = no_eviction (CoreRegistry_DisableRuleset serve n name)"
| "core_write serve n (WRevokeCertificate identity serial) = no_eviction (CoreRegistry_RevokeCertificate serve n identity serial)"

fun remote_write :: "rpc_server \<Rightarrow> string list \<Rightarrow> registry_write \<Rightarrow> string reg_call" where
  "remote_write serve ps (WClaimSession clientID nodeID identity) = RemoteRegistry_ClaimSession serve ps clientID nodeID identity"
| "remote_write serve ps (WReleaseSession clientID nodeID) = no_eviction (RemoteRegistry_ReleaseSession serve ps clientID nodeID)"
| "remote_write serve ps (WCreateRole name rules) = no_eviction (RemoteRegistry_CreateRole serve ps name rules)"
| "remote_write serve ps (WDeleteRole name) = no_eviction (RemoteRegistry_DeleteRole serve ps name)"
| "remote_write serve ps (WCreateBinding princ roleName) = no_eviction (RemoteRegistry_CreateBinding serve ps princ roleName)"
| "remote_write serve ps (WDeleteBinding princ roleName) = no_eviction (RemoteRegistry_DeleteBinding serve ps princ roleName)"
| "remote_write serve ps (WEnableRuleset name) = no_eviction (RemoteRegistry_EnableRuleset serve ps name)"
| "remote_write serve ps (WDisableRuleset name) = no_eviction (RemoteRegistry_DisableRuleset serve ps name)"
| "remote_write serve ps (WRevokeCertificate identity serial) = no_eviction (RemoteRegistry_RevokeCertificate serve ps identity serial)"

definition is_claim :: "registry_write \<Rightarrow> bool" where
  "is_claim w = (case w of WClaimSession _ _ _ \<Rightarrow> True | _ \<Rightarrow> False)"

definition local_answer :: "registry_write \<Rightarrow> applyResult \<Rightarrow> string" where
  "local_answer w = (if is_claim w then res_evictedNode else (\<lambda>_. ''''))"

definition write_answer :: "registry_write \<Rightarrow> rpc_response \<Rightarrow> string" where
  "write_answer w = (if is_claim w then GetEvictedNodeId else (\<lambda>_. ''''))"

definition write_response :: "registry_write \<Rightarrow> string \<Rightarrow> rpc_response" where
  "write_response w = (if is_claim w then ClaimSessionResponse True else (\<lambda>_. AckResponse))"

lemma map_reg_map_reg [simp]: "map_reg f (map_reg g call) = map_reg (\<lambda>x. f (g x)) call"
  by (rule ext) (auto simp: map_reg_def split: sum.splits prod.splits)

lemma map_reg_forward:
  "map_reg f (leader_or_forward n local fallback) = leader_or_forward n (map_reg f local) (\<lambda>ps. map_reg f (fallback ps))"
  by (rule ext) (auto simp: map_reg_def leader_or_forward_def split: sum.splits prod.splits)

lemma remote_write_eq: "remote_write serve ps w = map_reg (write_answer w) (forEachPeer serve ps (write_request w))"
  by (cases w) (simp_all add: RemoteRegistry_ClaimSession_def RemoteRegistry_ReleaseSession_def
      RemoteRegistry_CreateRole_def RemoteRegistry_DeleteRole_def RemoteRegistry_CreateBinding_def
      RemoteRegistry_DeleteBinding_def RemoteRegistry_EnableRuleset_def RemoteRegistry_DisableRuleset_def
      RemoteRegistry_RevokeCertificate_def write_answer_def is_claim_def)

lemma core_write_eq:
  "core_write serve n w =
     leader_or_forward n (map_reg (local_answer w) (LocalRegistry_apply n (write_command w))) (\<lambda>ps. remote_write serve ps w)"
  by (cases w) (simp_all add: CoreRegistry_ClaimSession_def CoreRegistry_ReleaseSession_def
      CoreRegistry_CreateRole_def CoreRegistry_DeleteRole_def CoreRegistry_CreateBinding_def
      CoreRegistry_DeleteBinding_def CoreRegistry_EnableRuleset_def CoreRegistry_DisableRuleset_def
      CoreRegistry_RevokeCertificate_def LocalRegistry_ClaimSession_def LocalRegistry_ReleaseSession_def
      LocalRegistry_CreateRole_def LocalRegistry_DeleteRole_def LocalRegistry_CreateBinding_def
      LocalRegistry_DeleteBinding_def LocalRegistry_EnableRuleset_def LocalRegistry_DisableRuleset_def
      LocalRegistry_RevokeCertificate_def local_answer_def is_claim_def map_reg_forward)

lemma handle_write:
  "RPCServer_handle serve n (write_request w) c = rpc_reply (write_response w) (core_write serve n w c)"
proof -
  have ack: "rpc_ack (call c) = rpc_reply (\<lambda>_. AckResponse) (map_reg (\<lambda>_. '''') call c)" for call
    by (simp add: rpc_reply_def map_reg_def split: prod.splits sum.splits)
  show ?thesis by (cases w) (simp_all add: write_response_def is_claim_def ack)
qed

lemma write_command_ok:
  assumes "Apply now (Some (write_command w)) st = Some (st', res)"
  shows "res_err res = None"
  using assms by (cases w) (auto simp: Apply_def op_defs apply_claim_def Let_def okResult_def split: option.splits)

subsection \<open>Every fault: at least once, and nothing else\<close>

definition replicas_ok :: "core_cluster \<Rightarrow> bool" where
  "replicas_ok c \<longleftrightarrow> (\<forall>n. fsm_inv (cc_fsm c n))"

definition repeats_only :: "Command \<Rightarrow> core_cluster \<Rightarrow> core_cluster \<times> ('e + 'a) \<Rightarrow> bool" where
  "repeats_only cmd c r \<longleftrightarrow>
     replicas_ok (fst r) \<and> cc_store (fst r) = cc_store c \<and>
     (\<exists>k. cc_log (fst r) = cc_log c @ replicate k cmd \<and> (\<not> isl (snd r) \<longrightarrow> 0 < k))"

lemma repeats_onlyI:
  "replicas_ok c' \<Longrightarrow> cc_store c' = cc_store c \<Longrightarrow> cc_log c' = cc_log c @ replicate k cmd \<Longrightarrow>
   (\<not> isl x \<Longrightarrow> 0 < k) \<Longrightarrow> repeats_only cmd c (c', x)"
  by (auto simp: repeats_only_def)

lemma repeats_only_trans:
  assumes "repeats_only cmd c (c', x)" "repeats_only cmd c' (c'', y)"
  shows "repeats_only cmd c (c'', y)"
proof -
  from assms obtain k l where "cc_log c' = cc_log c @ replicate k cmd" "cc_log c'' = cc_log c' @ replicate l cmd"
    "\<not> isl y \<longrightarrow> 0 < l"
    unfolding repeats_only_def fst_conv snd_conv by blast
  moreover have "replicas_ok c''" "cc_store c'' = cc_store c" using assms by (simp_all add: repeats_only_def)
  ultimately show ?thesis by (intro repeats_onlyI[where k = "k + l"]) (auto simp: replicate_add)
qed

lemma repeats_only_fail: "replicas_ok c \<Longrightarrow> repeats_only cmd c (c, Inl e)"
  by (rule repeats_onlyI[where k = 0]) auto

lemma repeats_only_answer:
  "repeats_only cmd c (c', x) \<Longrightarrow> (\<not> isl y \<Longrightarrow> \<not> isl x) \<Longrightarrow> repeats_only cmd c (c', y)"
  by (auto simp: repeats_only_def)

lemma repeats_only_env:
  "repeats_only cmd (c\<lparr>cc_net := as\<rparr>) r = repeats_only cmd c r"
  "repeats_only cmd (c\<lparr>cc_raft := bs, cc_leader := l\<rparr>) r = repeats_only cmd c r"
  "repeats_only cmd (c\<lparr>cc_raft := bs\<rparr>) r = repeats_only cmd c r"
  "replicas_ok (c\<lparr>cc_net := as\<rparr>) = replicas_ok c"
  "replicas_ok (c\<lparr>cc_raft := bs, cc_leader := l\<rparr>) = replicas_ok c"
  "replicas_ok (c\<lparr>cc_raft := bs\<rparr>) = replicas_ok c"
  by (simp_all add: repeats_only_def replicas_ok_def)

lemma commit_entry_total:
  assumes "fsm_inv (cc_fsm c n)"
  obtains st res where "Apply (cc_now c) (Some cmd) (cc_fsm c n) = Some (st, res)" "fsm_inv st"
    "commit_entry n cmd c = (c\<lparr>cc_fsm := (cc_fsm c)(n := st), cc_log := cc_log c @ [cmd]\<rparr>, Some res)"
proof -
  from Apply_total[OF assms] obtain st res where
    "Apply (cc_now c) (Some cmd) (cc_fsm c n) = Some (st, res)" "fsm_inv st" by blast
  with that show ?thesis by (simp add: commit_entry_def)
qed

lemma commit_repeats:
  assumes "replicas_ok c"
  shows "repeats_only cmd c (fst (commit_entry n cmd c), x)"
proof -
  from assms have "fsm_inv (cc_fsm c n)" by (simp add: replicas_ok_def)
  then obtain st res where st: "fsm_inv st"
    and c': "commit_entry n cmd c = (c\<lparr>cc_fsm := (cc_fsm c)(n := st), cc_log := cc_log c @ [cmd]\<rparr>, Some res)"
    by (rule commit_entry_total)
  have "replicas_ok (fst (commit_entry n cmd c))" using assms st by (simp add: c' replicas_ok_def)
  then show ?thesis by (intro repeats_onlyI[where k = 1]) (simp_all add: c')
qed

lemma raft_commit_repeats: "replicas_ok c \<Longrightarrow> repeats_only cmd c (raft_commit n cmd c)"
  using commit_repeats[of c cmd n]
  by (cases "commit_entry n cmd c"; cases "snd (commit_entry n cmd c)") (simp_all add: raft_commit_def)

lemma raft_Apply_repeats:
  assumes "replicas_ok c"
  shows "repeats_only cmd c (raft_Apply n cmd c)"
proof -
  have commit: "repeats_only cmd c (raft_commit n cmd (c\<lparr>cc_raft := as\<rparr>))" for as
    using raft_commit_repeats[of "c\<lparr>cc_raft := as\<rparr>" cmd n] assms by (simp add: repeats_only_env)
  have fault: "repeats_only cmd c (if b then fst (commit_entry m cmd (c\<lparr>cc_raft := as, cc_leader := l\<rparr>))
      else c\<lparr>cc_raft := as, cc_leader := l\<rparr>, Inl e :: raft_error + applyResult)" for b m as l e
    using commit_repeats[of "c\<lparr>cc_raft := as, cc_leader := l\<rparr>" cmd m "Inl e :: raft_error + applyResult"]
      repeats_only_fail[of "c\<lparr>cc_raft := as, cc_leader := l\<rparr>" cmd e] assms
    by (cases b) (simp_all add: repeats_only_env)
  show ?thesis
  proof (cases "cc_leader c = Some n")
    case True
    show ?thesis
    proof (cases "cc_raft c")
      case Nil
      with True show ?thesis by (simp add: raft_Apply_def raft_commit_repeats assms)
    next
      case (Cons a as)
      with True commit fault show ?thesis by (cases a) (simp_all add: raft_Apply_def Let_def)
    qed
  qed (simp add: raft_Apply_def repeats_only_fail assms)
qed

lemma LocalRegistry_apply_repeats:
  "replicas_ok c \<Longrightarrow> repeats_only cmd c (LocalRegistry_apply n cmd c)"
  using raft_Apply_repeats[of c cmd n]
  by (auto simp: LocalRegistry_apply_def repeats_only_def split: prod.splits sum.splits option.splits)

lemma map_reg_repeats: "repeats_only cmd c (call c) \<Longrightarrow> repeats_only cmd c (map_reg f call c)"
  by (auto simp: map_reg_def repeats_only_def split: prod.splits sum.splits)

definition serves_repeats :: "rpc_server \<Rightarrow> registry_write \<Rightarrow> bool" where
  "serves_repeats serve w \<longleftrightarrow>
     (\<forall>c n. replicas_ok c \<longrightarrow> repeats_only (write_command w) c (serve n (write_request w) c))"

lemma next_net_repeats:
  assumes "next_net c = (a, c')"
  shows "repeats_only cmd c' r = repeats_only cmd c r" "replicas_ok c' = replicas_ok c"
  using assms by (auto simp: next_net_def repeats_only_env split: list.splits)

lemma rpc_call_repeats:
  assumes "serves_repeats serve w" "replicas_ok c"
  shows "repeats_only (write_command w) c (rpc_call serve addr (write_request w) c)"
proof -
  obtain a c0 where net: "next_net c = (a, c0)" by force
  have ok: "replicas_ok c0" using assms(2) next_net_repeats(2)[OF net] by simp
  have fail: "repeats_only (write_command w) c (c0, Inl e :: reg_error + rpc_response)" for e
    by (rule iffD1[OF next_net_repeats(1)[OF net] repeats_only_fail[OF ok]])
  show ?thesis
  proof (cases "a = NetDown \<or> cc_listen c0 addr = None")
    case True
    with fail net show ?thesis by (cases a) (auto simp: rpc_call_def)
  next
    case False
    then obtain n where n: "cc_listen c0 addr = Some n" "a \<noteq> NetDown" by auto
    obtain c1 r where s: "serve n (write_request w) c0 = (c1, r)" by force
    have "repeats_only (write_command w) c0 (c1, r)"
      using assms(1) ok s unfolding serves_repeats_def by metis
    then have served: "repeats_only (write_command w) c (c1, r)" by (rule iffD1[OF next_net_repeats(1)[OF net]])
    have "rpc_call serve addr (write_request w) c =
        (c1, if a = NetLost then Inl (RpcFailed DeadlineExceeded)
             else (case r of Inl code \<Rightarrow> Inl (RpcFailed code) | Inr resp \<Rightarrow> Inr resp))"
      using n net s by (cases a) (simp_all add: rpc_call_def)
    then show ?thesis
      by (simp only:) (rule repeats_only_answer[OF served], auto split: if_splits sum.splits)
  qed
qed

lemma forEachPeer_loop_repeats:
  assumes "serves_repeats serve w" "replicas_ok c"
  shows "repeats_only (write_command w) c (forEachPeer_loop serve (write_request w) peers e c)"
  using assms(2)
proof (induction peers arbitrary: c e)
  case (Cons addr peers)
  obtain c' r where r: "rpc_call serve addr (write_request w) c = (c', r)" by force
  have call: "repeats_only (write_command w) c (c', r)" using rpc_call_repeats[OF assms(1) Cons.prems, of addr] r by simp
  then have "replicas_ok c'" by (simp add: repeats_only_def)
  from repeats_only_trans[OF call] Cons.IH[OF this] have
    "repeats_only (write_command w) c (forEachPeer_loop serve (write_request w) peers err c')" for err
    by (metis prod.collapse)
  with call r Cons show ?case by (cases r) auto
qed (simp add: repeats_only_fail)

lemma remote_write_repeats:
  assumes "serves_repeats serve w" "replicas_ok c"
  shows "repeats_only (write_command w) c (remote_write serve peers w c)"
  unfolding remote_write_eq
  by (rule map_reg_repeats)
     (simp add: forEachPeer_def repeats_only_fail[OF assms(2)] forEachPeer_loop_repeats[OF assms])

lemma core_write_repeats:
  assumes "serves_repeats serve w" "replicas_ok c"
  shows "repeats_only (write_command w) c (core_write serve n w c)"
proof -
  let ?local = "map_reg (local_answer w) (LocalRegistry_apply n (write_command w))"
  obtain c' r where r: "?local c = (c', r)" by force
  have local: "repeats_only (write_command w) c (c', r)"
    using map_reg_repeats[where call = "LocalRegistry_apply n (write_command w)" and f = "local_answer w",
        OF LocalRegistry_apply_repeats[OF assms(2)]] r by simp
  then have "replicas_ok c'" by (simp add: repeats_only_def)
  from repeats_only_trans[OF local] remote_write_repeats[OF assms(1) this]
  have "repeats_only (write_command w) c (remote_write serve peers w c')" for peers
    by (metis prod.collapse)
  with local r show ?thesis by (auto simp: core_write_eq leader_or_forward_def split: sum.splits)
qed

lemma rpc_serve_repeats: "serves_repeats (rpc_serve hops) w"
proof (induction hops)
  case (Suc hops)
  have "repeats_only (write_command w) c (rpc_reply (write_response w) (core_write (rpc_serve hops) n w c))"
    if "replicas_ok c" for c n
    using core_write_repeats[OF Suc that, of n]
    by (auto simp: rpc_reply_def repeats_only_def split: prod.splits sum.splits)
  then show ?case by (simp add: serves_repeats_def handle_write)
qed (simp add: serves_repeats_def repeats_only_fail)

subsection \<open>A settled cluster\<close>

text \<open>Leadership is known to everyone and nothing fails.\<close>

definition settled :: "string \<Rightarrow> string \<Rightarrow> core_cluster \<Rightarrow> bool" where
  "settled L addr c \<longleftrightarrow>
     cc_leader c = Some L \<and> cc_raft c = [] \<and> cc_net c = [] \<and> cc_listen c addr = Some L \<and> cc_dial c addr \<and>
     (\<forall>n. n \<noteq> L \<longrightarrow> cc_view c n = Some addr) \<and> fsm_inv (cc_fsm c L)"

definition committed :: "string \<Rightarrow> registry_write \<Rightarrow> core_cluster \<Rightarrow> core_cluster" where
  "committed L w c = fst (commit_entry L (write_command w) c)"

definition leader_answer :: "string \<Rightarrow> registry_write \<Rightarrow> core_cluster \<Rightarrow> string" where
  "leader_answer L w c = (case snd (commit_entry L (write_command w) c) of None \<Rightarrow> '''' | Some res \<Rightarrow> local_answer w res)"


lemma settled_local:
  assumes "settled L addr c"
  shows "core_write serve L w c = (committed L w c, Inr (leader_answer L w c))"
proof -
  have "fsm_inv (cc_fsm c L)" using assms by (simp add: settled_def)
  then obtain st res where ap: "Apply (cc_now c) (Some (write_command w)) (cc_fsm c L) = Some (st, res)"
    and ce: "commit_entry L (write_command w) c =
      (c\<lparr>cc_fsm := (cc_fsm c)(L := st), cc_log := cc_log c @ [write_command w]\<rparr>, Some res)"
    by (rule commit_entry_total)
  have "raft_Apply L (write_command w) c = (committed L w c, Inr res)"
    using assms by (simp add: raft_Apply_def raft_commit_def settled_def committed_def ce)
  then show ?thesis
    using write_command_ok[OF ap]
    by (simp add: core_write_eq leader_or_forward_def map_reg_def LocalRegistry_apply_def leader_answer_def ce)
qed

lemma answer_roundtrip_leader: "write_answer w (write_response w (leader_answer L w c)) = leader_answer L w c"
  by (auto simp: leader_answer_def local_answer_def write_answer_def write_response_def split: option.splits)

lemma settled_forward:
  assumes "settled L addr c" "n \<noteq> L"
  shows "core_write (rpc_serve (Suc hops)) n w c = (committed L w c, Inr (leader_answer L w c))"
proof -
  have "LocalRegistry_apply n (write_command w) c = (c, Inl (ApplyFailed ErrNotLeader))"
    using assms by (auto simp: LocalRegistry_apply_def raft_Apply_def settled_def)
  moreover have "rpc_call (rpc_serve (Suc hops)) addr (write_request w) c =
      (committed L w c, Inr (write_response w (leader_answer L w c)))"
    using assms settled_local[OF assms(1), of "rpc_serve hops" w]
    by (simp add: rpc_call_def next_net_def settled_def handle_write rpc_reply_def)
  ultimately show ?thesis
    using assms by (simp add: core_write_eq leader_or_forward_def map_reg_def IsNotLeader_def fallback_peers_def
        remote_write_eq forEachPeer_def settled_def answer_roundtrip_leader del: rpc_serve.simps)
qed

lemma settled_core:
  "settled L addr c \<Longrightarrow> core_write (rpc_serve (Suc hops)) n w c = (committed L w c, Inr (leader_answer L w c))"
  using settled_local settled_forward by (cases "n = L") blast+

lemma settled_remote:
  assumes "settled L addr c" "cc_dial c a" "cc_listen c a = Some n"
  shows "remote_write (rpc_serve (Suc (Suc hops))) (a # peers) w c = (committed L w c, Inr (leader_answer L w c))"
proof -
  have "rpc_call (rpc_serve (Suc (Suc hops))) a (write_request w) c =
      (committed L w c, Inr (write_response w (leader_answer L w c)))"
    using assms settled_core[OF assms(1), of hops n w]
    by (simp add: rpc_call_def next_net_def settled_def handle_write rpc_reply_def del: rpc_serve.simps(2))
       (simp add: handle_write rpc_reply_def)
  then show ?thesis
    using assms(2) by (simp add: remote_write_eq forEachPeer_def map_reg_def answer_roundtrip_leader del: rpc_serve.simps)
qed

lemma committed_fields:
  assumes "fsm_inv (cc_fsm c L)"
  shows "\<exists>st res. Apply (cc_now c) (Some (write_command w)) (cc_fsm c L) = Some (st, res) \<and> fsm_inv st \<and>
     committed L w c = c\<lparr>cc_fsm := (cc_fsm c)(L := st), cc_log := cc_log c @ [write_command w]\<rparr> \<and>
     leader_answer L w c = local_answer w res"
proof -
  from assms obtain st res where "Apply (cc_now c) (Some (write_command w)) (cc_fsm c L) = Some (st, res)" "fsm_inv st"
    "commit_entry L (write_command w) c = (c\<lparr>cc_fsm := (cc_fsm c)(L := st), cc_log := cc_log c @ [write_command w]\<rparr>, Some res)"
    by (rule commit_entry_total)
  then show ?thesis by (simp add: committed_def leader_answer_def)
qed

lemma settled_committed:
  assumes "settled L addr c"
  shows "settled L addr (committed L w c)"
proof -
  have "fsm_inv (cc_fsm c L)" using assms by (simp add: settled_def)
  from committed_fields[OF this, of w] assms show ?thesis by (auto simp: settled_def)
qed

subsection \<open>Reads over the network\<close>

definition net_only :: "core_cluster \<Rightarrow> core_cluster \<Rightarrow> bool" where
  "net_only c c' \<longleftrightarrow> c' = c\<lparr>cc_net := cc_net c'\<rparr>"

lemma net_only_refl [simp]: "net_only c c"
  by (simp add: net_only_def)

lemma net_only_update: "net_only c (c\<lparr>cc_net := ns\<rparr>)"
  by (simp add: net_only_def)

lemma net_only_trans: "net_only c c' \<Longrightarrow> net_only c' c'' \<Longrightarrow> net_only c c''"
  by (cases c; cases c'; cases c'') (simp add: net_only_def)

text \<open>A read is answered by a node from its own state, or the deadline passes.\<close>

definition read_only :: "rpc_server \<Rightarrow> rpc_request \<Rightarrow> (string \<Rightarrow> core_cluster \<Rightarrow> rpc_response) \<Rightarrow> bool" where
  "read_only serve req resp \<longleftrightarrow>
     (\<forall>n c. serve n req c = (c, Inl DeadlineExceeded) \<or> serve n req c = (c, Inr (resp n c))) \<and>
     (\<forall>n c ns. resp n (c\<lparr>cc_net := ns\<rparr>) = resp n c)"

definition answered_by :: "string list \<Rightarrow> (string \<Rightarrow> core_cluster \<Rightarrow> rpc_response) \<Rightarrow> core_cluster \<Rightarrow> reg_error + rpc_response \<Rightarrow> bool" where
  "answered_by peers resp c r \<longleftrightarrow>
     (\<forall>x. r = Inr x \<longrightarrow> (\<exists>addr\<in>set peers. \<exists>n. cc_listen c addr = Some n \<and> x = resp n c))"

lemma read_only_net: "read_only serve req resp \<Longrightarrow> net_only c c' \<Longrightarrow> resp n c' = resp n c"
  unfolding read_only_def net_only_def by metis

lemma net_only_listen: "net_only c c' \<Longrightarrow> cc_listen c' = cc_listen c"
  unfolding net_only_def by (metis core_cluster.select_convs(7) core_cluster.surjective core_cluster.update_convs(9))

lemma net_only_fields: "net_only c c' \<Longrightarrow> cc_fsm c' = cc_fsm c" "net_only c c' \<Longrightarrow> cc_log c' = cc_log c"
  by (cases c; cases c'; simp add: net_only_def)+

lemma next_net_only: "next_net c = (a, c') \<Longrightarrow> net_only c c'"
  by (auto simp: next_net_def net_only_update split: list.splits)

lemma rpc_call_read:
  assumes "read_only serve req resp" "rpc_call serve addr req c = (c', r)"
  shows "net_only c c' \<and> answered_by (addr # peers) resp c r"
proof -
  obtain a c0 where net: "next_net c = (a, c0)" by force
  have c0: "net_only c c0" by (rule next_net_only[OF net])
  show ?thesis
  proof (cases "a = NetDown \<or> cc_listen c0 addr = None")
    case True
    then have "c' = c0 \<and> isl r" using assms(2) net by (cases a) (auto simp: rpc_call_def)
    with c0 show ?thesis by (auto simp: answered_by_def)
  next
    case False
    then obtain n where n: "cc_listen c0 addr = Some n" "a \<noteq> NetDown" by auto
    have "serve n req c0 = (c0, Inl DeadlineExceeded) \<or> serve n req c0 = (c0, Inr (resp n c0))"
      using assms(1) by (simp add: read_only_def)
    then have "c' = c0 \<and> (\<forall>x. r = Inr x \<longrightarrow> x = resp n c0)"
      using assms(2) n net by (cases a) (auto simp: rpc_call_def)
    with c0 n show ?thesis
      using read_only_net[OF assms(1) c0] net_only_listen[OF c0] by (auto simp: answered_by_def)
  qed
qed

lemma forEachPeer_loop_read:
  assumes "read_only serve req resp" "forEachPeer_loop serve req peers e c = (c', r)"
  shows "net_only c c' \<and> answered_by peers resp c r"
  using assms(2)
proof (induction peers arbitrary: c e)
  case Nil
  then show ?case by (auto simp: answered_by_def)
next
  case (Cons addr peers)
  show ?case
  proof (cases "cc_dial c addr")
    case False
    with Cons show ?thesis by (fastforce simp: answered_by_def)
  next
    case True
    obtain c1 r1 where call: "rpc_call serve addr req c = (c1, r1)" by force
    have one: "net_only c c1" "answered_by (addr # peers) resp c r1"
      using rpc_call_read[OF assms(1) call] by auto
    show ?thesis
    proof (cases r1)
      case (Inl err)
      with Cons.prems True call have "forEachPeer_loop serve req peers err c1 = (c', r)" by simp
      from Cons.IH[OF this] one(1) show ?thesis
        using read_only_net[OF assms(1) one(1)] net_only_listen[OF one(1)] net_only_trans
        by (auto simp: answered_by_def)
    next
      case (Inr x)
      with Cons.prems True call one show ?thesis by simp
    qed
  qed
qed

lemma forEachPeer_read:
  assumes "read_only serve req resp" "forEachPeer serve peers req c = (c', r)"
  shows "net_only c c' \<and> answered_by peers resp c r"
  using assms(2) forEachPeer_loop_read[OF assms(1)]
  by (auto simp: forEachPeer_def answered_by_def split: if_splits)

lemma read_requests:
  "read_only (rpc_serve hops) (EvaluateACLRequest clientID username topic action)
     (\<lambda>n. RPCServer_EvaluateACL n clientID username topic action)"
  "read_only (rpc_serve hops) (IsRevokedRequest identity) (\<lambda>n c. IsRevokedResponse (CoreRegistry_IsRevoked n c identity))"
  "read_only (rpc_serve hops) ACLSnapshotRequest RPCServer_ACLSnapshot"
  by (cases hops; simp add: read_only_def RPCServer_EvaluateACL_def CoreRegistry_EvaluateACL_def
      LocalRegistry_EvaluateACL_def CoreRegistry_IsRevoked_def LocalRegistry_IsRevoked_def
      RPCServer_ACLSnapshot_def LocalRegistry_RolesSnapshot_def LocalRegistry_BindingsSnapshot_def
      LocalRegistry_EnabledRulesetsSnapshot_def)+

lemma Allowed_remote [simp]:
  "Allowed \<lparr>DecEffect = (if b then EffectAllow else EffectDeny), DecRule = x\<rparr> = b"
  "\<not> Allowed \<lparr>DecEffect = EffectDeny, DecRule = x\<rparr>"
  by (simp_all add: Allowed_def)

lemma map_filter_entries:
  "fold (\<lambda>(k, v) m. m(k \<mapsto> f k v)) (List.map_filter (\<lambda>k. map_option (\<lambda>v. (k, g v)) (M k)) order) m0 k =
     (if k \<in> set order \<and> M k \<noteq> None then map_option (\<lambda>v. f k (g v)) (M k) else m0 k)"
  by (induction order arbitrary: m0) (auto simp: List.map_filter_simps split: option.splits)

definition orders_ok :: "string \<Rightarrow> core_cluster \<Rightarrow> bool" where
  "orders_ok n c \<longleftrightarrow>
     set (cc_roleOrder c n) = dom (fsm_roles (cc_fsm c n)) \<and>
     set (cc_bindingOrder c n) = dom (fsm_bindings (cc_fsm c n)) \<and>
     set (cc_rulesetOrder c n) = dom (fsm_enabledRulesets (cc_fsm c n))"

lemma snapshot_over_rpc:
  assumes "orders_ok n c" "fsm_inv (cc_fsm c n)"
  shows "GetACLSnapshot (RPCServer_ACLSnapshot n c) = snapshot_of (cc_rulesetOrder c n) (cc_fsm c n)"
proof -
  let ?st = "cc_fsm c n"
  have name: "RoleName role = k" if "fsm_roles ?st k = Some role" for k role
    using assms(2) that by (simp add: fsm_inv_def roles_ok_def)
  have "roles_of_entries (List.map_filter (\<lambda>k. map_option (\<lambda>role. (k, Rules role)) (fsm_roles ?st k)) (cc_roleOrder c n)) k =
      fsm_roles ?st k" for k
    using assms(1) name[of k]
    by (cases "fsm_roles ?st k")
       (auto simp: roles_of_entries_def map_filter_entries[where f = "\<lambda>k rules. \<lparr>RoleName = k, Rules = rules\<rparr>"] orders_ok_def)
  moreover have "bindings_of_entries (List.map_filter (\<lambda>k. map_option (\<lambda>rns. (k, rns)) (fsm_bindings ?st k)) (cc_bindingOrder c n)) k =
      fsm_bindings ?st k" for k
    using assms(1)
    by (cases "fsm_bindings ?st k")
       (auto simp: bindings_of_entries_def map_filter_entries[where f = "\<lambda>k rns. rns" and g = "\<lambda>rns. rns"] orders_ok_def)
  ultimately show ?thesis
    by (simp add: RPCServer_ACLSnapshot_def snapshot_of_def LocalRegistry_RolesSnapshot_def fun_eq_iff
        LocalRegistry_BindingsSnapshot_def LocalRegistry_EnabledRulesetsSnapshot_def rolesSnapshot_def bindingsSnapshot_def)
qed

subsection \<open>Examples\<close>

definition example_role :: Role where
  "example_role = \<lparr>RoleName = ''r'', Rules = [\<lparr>TopicFilter = ''t'', Actions = [ActionPublish], RuleEffect = EffectAllow\<rparr>]\<rparr>"

definition example_state :: state where
  "example_state = newState\<lparr>fsm_sessions := Some [''dev'' \<mapsto> ''n0''], fsm_roles := [''r'' \<mapsto> example_role],
     fsm_bindings := [''dev'' \<mapsto> [''r'']]\<rparr>"

text \<open>Two core nodes, \<open>n1\<close> leading; each listens on its own address.\<close>

definition example_cluster :: core_cluster where
  "example_cluster = \<lparr>cc_leader = Some ''n1'', cc_raft = [], cc_now = 7, cc_fsm = (\<lambda>_. example_state), cc_log = [],
     cc_view = (\<lambda>_. Some ''a1''), cc_listen = [''a1'' \<mapsto> ''n1'', ''a2'' \<mapsto> ''n2''], cc_dial = (\<lambda>_. True), cc_net = [],
     cc_store = \<lparr>cs_keys = {}, cs_events = [], cs_faults = []\<rparr>, cc_router = (\<lambda>_. emptyRouter), cc_visit = (\<lambda>xs. xs),
     cc_roleOrder = (\<lambda>_. [''r'']), cc_bindingOrder = (\<lambda>_. [''dev'']), cc_rulesetOrder = (\<lambda>_. [])\<rparr>"

lemma example_state_inv: "fsm_inv example_state"
  by (simp add: example_state_def newState_def fsm_inv_def sessions_ok_def bindings_ok_def rulesets_ok_def
      roles_ok_def example_role_def)

lemma example_settled: "settled ''n1'' ''a1'' example_cluster"
  by (simp add: settled_def example_cluster_def example_state_inv)

lemma example_fields:
  "cc_now example_cluster = 7" "cc_fsm example_cluster n = example_state" "cc_log example_cluster = []"
  "cc_dial example_cluster a" "cc_listen example_cluster ''a1'' = Some ''n1''"
  "cc_listen example_cluster ''a2'' = Some ''n2''"
  by (simp_all add: example_cluster_def)

lemma example_owner: "sessionOwner (cc_fsm example_cluster ''n1'') ''dev'' = Some ''n0''"
  by (simp add: example_cluster_def example_state_def sessionOwner_def)

lemma example_replicas: "replicas_ok example_cluster"
  by (simp add: replicas_ok_def example_cluster_def example_state_inv)

lemma example_orders: "orders_ok n example_cluster"
  by (simp add: orders_ok_def example_cluster_def example_state_def newState_def)

subsection \<open>Properties\<close>

text \<open>C11. A write reaches the leader from everywhere: in a settled cluster, a write submitted to the
  registry of any core node, or by an edge node to a list of peers whose first is any reachable core
  node, is applied exactly once, to the leader's state machine, and answered with what that state
  machine answered; nothing else of the cluster changes. One forward is enough from a core node and
  two from an edge node.\<close>

theorem registry_write_reaches_leader:
  assumes "settled L addr c"
  shows "\<exists>st res. Apply (cc_now c) (Some (write_command w)) (cc_fsm c L) = Some (st, res) \<and>
     (let c' = c\<lparr>cc_fsm := (cc_fsm c)(L := st), cc_log := cc_log c @ [write_command w]\<rparr> in
      core_write (rpc_serve (Suc hops)) n w c = (c', Inr (local_answer w res)) \<and>
      (cc_dial c a \<and> cc_listen c a = Some m \<longrightarrow>
         remote_write (rpc_serve (Suc (Suc hops))) (a # peers) w c = (c', Inr (local_answer w res))))"
proof -
  have "fsm_inv (cc_fsm c L)" using assms by (simp add: settled_def)
  from committed_fields[OF this, of w] obtain st res where
    "Apply (cc_now c) (Some (write_command w)) (cc_fsm c L) = Some (st, res)"
    "committed L w c = c\<lparr>cc_fsm := (cc_fsm c)(L := st), cc_log := cc_log c @ [write_command w]\<rparr>"
    "leader_answer L w c = local_answer w res" by blast
  then show ?thesis
    using settled_core[OF assms, of hops n w] settled_remote[OF assms, of a m hops peers w]
    by (intro exI[of _ st] exI[of _ res]) (simp add: Let_def del: rpc_serve.simps)
qed

theorem registry_write_reaches_leader_witness:
  "\<exists>st res. Apply 7 (Some (write_command (WClaimSession ''dev'' ''n2'' ''''))) example_state = Some (st, res) \<and>
     remote_write (rpc_serve 2) [''a2''] (WClaimSession ''dev'' ''n2'' '''') example_cluster =
       (example_cluster\<lparr>cc_fsm := (cc_fsm example_cluster)(''n1'' := st),
          cc_log := [write_command (WClaimSession ''dev'' ''n2'' '''')]\<rparr>,
        Inr (res_evictedNode res))"
  using registry_write_reaches_leader[OF example_settled, of "WClaimSession ''dev'' ''n2'' ''''" 0 "''n2''" "''a2''" "''n2''" "[]"]
  by (auto simp: example_fields Let_def local_answer_def is_claim_def numeral_2_eq_2
      simp del: rpc_serve.simps remote_write.simps write_command.simps)

text \<open>C12. Whatever raft and the network do (refused and lost calls, answers lost after the work was
  done, entries committed although an error was reported, leadership moving in between, nodes that
  forward to one another), a write leaves in the log nothing but copies of its own command and leaves
  the routing store alone, every replica keeps its invariant, and when success is reported the
  command has been committed at least once. This holds through a core node and through the remote
  registry of an edge node.\<close>

theorem registry_write_at_least_once:
  assumes "replicas_ok c"
    and "(c', r) = core_write (rpc_serve hops) n w c \<or> (c', r) = remote_write (rpc_serve hops) peers w c"
  shows "replicas_ok c' \<and> cc_store c' = cc_store c \<and>
     (\<exists>k. cc_log c' = cc_log c @ replicate k (write_command w) \<and> (\<forall>evicted. r = Inr evicted \<longrightarrow> 0 < k))"
proof -
  have "repeats_only (write_command w) c (c', r)"
    using assms(2) core_write_repeats[OF rpc_serve_repeats[of hops w] assms(1), of n]
      remote_write_repeats[OF rpc_serve_repeats[of hops w] assms(1), of peers] by metis
  then show ?thesis by (auto simp: repeats_only_def)
qed

theorem registry_write_at_least_once_witness:
  "\<exists>c' r k. (c', r) = core_write (rpc_serve 3) ''n2'' (WDeleteRole ''r'') (example_cluster\<lparr>cc_net := [NetLost]\<rparr>) \<and>
     cc_log c' = replicate k (write_command (WDeleteRole ''r''))"
proof -
  obtain c' r where r: "(c', r) = core_write (rpc_serve 3) ''n2'' (WDeleteRole ''r'') (example_cluster\<lparr>cc_net := [NetLost]\<rparr>)"
    by (metis prod.exhaust)
  have "replicas_ok (example_cluster\<lparr>cc_net := [NetLost]\<rparr>)" using example_replicas by (simp add: repeats_only_env)
  from registry_write_at_least_once[OF this disjI1[OF r]] obtain k where
    "cc_log c' = cc_log (example_cluster\<lparr>cc_net := [NetLost]\<rparr>) @ replicate k (write_command (WDeleteRole ''r''))" by blast
  moreover have "cc_log (example_cluster\<lparr>cc_net := [NetLost]\<rparr>) = []" by (simp add: example_cluster_def)
  ultimately show ?thesis using r by (metis append_Nil)
qed

text \<open>C36. A claim whose answer is lost forgets the eviction: when the network loses the answer to an
  edge node's claim after the leader applied it, the remote registry submits the claim again to the
  next peer. The second application finds the claiming node already in place, so the edge node is
  told that nobody has to be evicted, although another node owned the session.\<close>

theorem claim_retry_loses_eviction:
  assumes "settled L addr (c\<lparr>cc_net := []\<rparr>)" "cc_net c = [NetLost]"
    and "cc_dial c a" "cc_listen c a = Some m" "cc_dial c b" "cc_listen c b = Some m'"
    and "sessionOwner (cc_fsm c L) clientID = Some old" "old \<noteq> nodeID"
  shows "\<exists>c'. EdgeRegistry_ClaimSession (rpc_serve (Suc (Suc hops))) (a # b # peers) clientID nodeID identity c = (c', Inr '''') \<and>
     cc_log c' = cc_log c @ replicate 2 (write_command (WClaimSession clientID nodeID identity)) \<and>
     sessionOwner (cc_fsm c' L) clientID = Some nodeID"
proof -
  let ?w = "WClaimSession clientID nodeID identity"
  let ?c = "c\<lparr>cc_net := []\<rparr>"
  let ?s = "rpc_serve (Suc (Suc hops))"
  let ?c1 = "committed L ?w ?c"
  have inv: "fsm_inv (cc_fsm ?c L)" using assms(1) by (simp add: settled_def)
  from committed_fields[OF inv, of ?w] obtain st res where
    st: "Apply (cc_now c) (Some (write_command ?w)) (cc_fsm c L) = Some (st, res)" "fsm_inv st"
    and c1: "?c1 = ?c\<lparr>cc_fsm := (cc_fsm c)(L := st), cc_log := cc_log c @ [write_command ?w]\<rparr>" by auto
  have owner: "sessionOwner st clientID = Some nodeID" using owner_claim[OF st(1)] by (simp add: claim_of_def)
  have set1: "settled L addr ?c1" by (rule settled_committed[OF assms(1)])
  have served: "?s m (write_request ?w) ?c = (?c1, Inr (write_response ?w (leader_answer L ?w ?c)))"
    using settled_core[OF assms(1), of hops m ?w] by (simp only: rpc_serve.simps(2)[of "Suc hops"] handle_write rpc_reply_def prod.case sum.case)
  have lost: "rpc_call ?s a (write_request ?w) c = (?c1, Inl (RpcFailed DeadlineExceeded))"
    using assms(2,4) served by (simp add: rpc_call_def next_net_def del: rpc_serve.simps write_request.simps)
  have listen1: "cc_dial ?c1 b" "cc_listen ?c1 b = Some m'" using assms(5,6) by (simp_all add: c1)
  have inv1: "fsm_inv (cc_fsm ?c1 L)" using st(2) by (simp add: c1)
  from committed_fields[OF inv1, of ?w] obtain st2 res2 where
    st2: "Apply (cc_now c) (Some (write_command ?w)) st = Some (st2, res2)"
    and c2: "committed L ?w ?c1 = ?c1\<lparr>cc_fsm := (cc_fsm ?c1)(L := st2), cc_log := cc_log ?c1 @ [write_command ?w]\<rparr>"
    and ans: "leader_answer L ?w ?c1 = local_answer ?w res2" by (auto simp: c1)
  have "apply_claim (write_command ?w) st = Some (st2, res2)" using st2 by simp
  from apply_claim_SomeD(4)[OF this] owner have "leader_answer L ?w ?c1 = ''''"
    by (simp add: ans local_answer_def is_claim_def)
  moreover have "remote_write ?s (a # b # peers) ?w c = remote_write ?s (b # peers) ?w ?c1"
    using assms(3) lost by (simp add: remote_write_eq forEachPeer_def map_reg_def del: rpc_serve.simps remote_write.simps write_request.simps)
  ultimately have "remote_write ?s (a # b # peers) ?w c = (committed L ?w ?c1, Inr '''')"
    using settled_remote[OF set1 listen1, of hops peers ?w] by simp
  moreover have "sessionOwner st2 clientID = Some nodeID" using owner_claim[OF st2] by (simp add: claim_of_def)
  ultimately show ?thesis
    by (intro exI[of _ "committed L ?w ?c1"])
       (simp add: EdgeRegistry_ClaimSession_def c2, simp add: c1 numeral_2_eq_2)
qed

theorem claim_retry_loses_eviction_witness:
  "\<exists>c'. EdgeRegistry_ClaimSession (rpc_serve 2) [''a1'', ''a2''] ''dev'' ''n9'' ''''
       (example_cluster\<lparr>cc_net := [NetLost]\<rparr>) = (c', Inr '''') \<and>
     sessionOwner (cc_fsm c' ''n1'') ''dev'' = Some ''n9''"
proof -
  have "settled ''n1'' ''a1'' (example_cluster\<lparr>cc_net := [NetLost]\<rparr>\<lparr>cc_net := []\<rparr>)"
    using example_settled by (simp add: settled_def example_cluster_def)
  from claim_retry_loses_eviction[OF this, of "''a1''" "''n1''" "''a2''" "''n2''" "''dev''" "''n0''" "''n9''" 0 "[]" "''''"]
    example_owner show ?thesis
    by (auto simp: numeral_2_eq_2 example_cluster_def simp del: rpc_serve.simps)
qed

text \<open>C15. Remote reads fail closed: the remote registry lets an access pass, or reports an identity
  not revoked, only when some core node that listens on one of the peer addresses answers so from its
  own replica, whatever calls are refused or lost. A read leaves the replicas and the log as they
  are.\<close>

theorem remote_reads_fail_closed:
  assumes "RemoteRegistry_EvaluateACL (rpc_serve hops) peers clientID username topic action c = (c', d)"
    and "RemoteRegistry_IsRevoked (rpc_serve hops) peers identity c = (c'', revoked)"
  shows "(Allowed d \<longrightarrow> (\<exists>addr\<in>set peers. \<exists>n. cc_listen c addr = Some n \<and>
            Allowed (CoreRegistry_EvaluateACL n c clientID username topic action))) \<and>
         (\<not> revoked \<longrightarrow> (\<exists>addr\<in>set peers. \<exists>n. cc_listen c addr = Some n \<and> \<not> CoreRegistry_IsRevoked n c identity)) \<and>
         cc_fsm c' = cc_fsm c \<and> cc_log c' = cc_log c \<and> cc_fsm c'' = cc_fsm c \<and> cc_log c'' = cc_log c"
proof -
  obtain d' where d': "forEachPeer (rpc_serve hops) peers (EvaluateACLRequest clientID username topic action) c = (c', d')"
    and d: "d = (case d' of Inl _ \<Rightarrow> \<lparr>DecEffect = EffectDeny, DecRule = None\<rparr>
      | Inr resp \<Rightarrow> \<lparr>DecEffect = (if fst (GetDecision resp) then EffectAllow else EffectDeny),
                     DecRule = (if snd (GetDecision resp) \<noteq> '''' then Some \<lparr>TopicFilter = snd (GetDecision resp), Actions = [], RuleEffect = ''''\<rparr>
                                else None)\<rparr>)"
    using assms(1) by (auto simp: RemoteRegistry_EvaluateACL_def split: prod.splits sum.splits)
  obtain r' where r': "forEachPeer (rpc_serve hops) peers (IsRevokedRequest identity) c = (c'', r')"
    and r: "revoked = (case r' of Inl _ \<Rightarrow> True | Inr resp \<Rightarrow> GetRevoked resp)"
    using assms(2) by (auto simp: RemoteRegistry_IsRevoked_def split: prod.splits sum.splits)
  note acl = forEachPeer_read[OF read_requests(1) d'] and rev = forEachPeer_read[OF read_requests(2) r']
  have "\<exists>addr\<in>set peers. \<exists>n. cc_listen c addr = Some n \<and>
      Allowed (CoreRegistry_EvaluateACL n c clientID username topic action)" if "Allowed d"
    using acl that d by (cases d') (fastforce simp: answered_by_def RPCServer_EvaluateACL_def Let_def)+
  moreover have "\<exists>addr\<in>set peers. \<exists>n. cc_listen c addr = Some n \<and> \<not> CoreRegistry_IsRevoked n c identity" if "\<not> revoked"
    using rev that r by (cases r') (fastforce simp: answered_by_def)+
  ultimately show ?thesis using acl rev net_only_fields by blast
qed

theorem remote_reads_fail_closed_witness:
  "\<exists>c' d c'' rv. RemoteRegistry_EvaluateACL (rpc_serve 1) [''a2''] ''dev'' ''u'' ''x'' ActionPublish example_cluster = (c', d) \<and>
     \<not> Allowed d \<and> cc_log c' = [] \<and>
     RemoteRegistry_IsRevoked (rpc_serve 1) [''a2''] ''d@t'' example_cluster = (c'', rv) \<and> cc_fsm c'' ''n1'' = example_state"
proof -
  obtain c' d c'' r where run:
    "RemoteRegistry_EvaluateACL (rpc_serve 1) [''a2''] ''dev'' ''u'' ''x'' ActionPublish example_cluster = (c', d)"
    "RemoteRegistry_IsRevoked (rpc_serve 1) [''a2''] ''d@t'' example_cluster = (c'', r)" by force
  have "\<not> Allowed (CoreRegistry_EvaluateACL ''n2'' example_cluster ''dev'' ''u'' ''x'' ActionPublish)" by code_simp
  with run remote_reads_fail_closed[OF run] show ?thesis by (auto simp: example_fields simp del: rpc_serve.simps)
qed

text \<open>C16. What an edge node enforces is what a core node decides: an edge registry whose ACL cache was
  last refreshed with the snapshot fetched over gRPC allows exactly what the core node that served
  the snapshot allows, for every client, topic and action. The snapshot survives its way through the
  lists of the response and back into maps.\<close>

theorem edge_acl_is_core_acl:
  assumes "RemoteRegistry_ACLSnapshot (rpc_serve hops) peers c = (c', Inr snap)"
    and "er_aclCache e = ACLCache_refresh (Inr snap :: reg_error + acl_snapshot) cache"
    and "\<forall>n. fsm_inv (cc_fsm c n) \<and> orders_ok n c" "set bOrder = dom (fst (snd snap))"
  shows "\<exists>addr\<in>set peers. \<exists>n. cc_listen c addr = Some n \<and>
     (\<forall>clientID username topic action.
        Allowed (EdgeRegistry_EvaluateACL e bOrder clientID username topic action) =
        Allowed (CoreRegistry_EvaluateACL n c clientID username topic action))"
proof -
  obtain x where x: "forEachPeer (rpc_serve hops) peers ACLSnapshotRequest c = (c', Inr x)" "snap = GetACLSnapshot x"
    using assms(1) by (auto simp: RemoteRegistry_ACLSnapshot_def map_reg_def split: prod.splits sum.splits)
  from forEachPeer_read[OF read_requests(3) x(1)] obtain addr n where
    n: "addr \<in> set peers" "cc_listen c addr = Some n" "x = RPCServer_ACLSnapshot n c"
    by (auto simp: answered_by_def)
  have inv: "fsm_inv (cc_fsm c n)" and ord: "orders_ok n c" using assms(3) by auto
  have snap: "snap = snapshot_of (cc_rulesetOrder c n) (cc_fsm c n)"
    using snapshot_over_rpc[OF ord inv] x(2) n(3) by simp
  have "ACLCache_holds (Some snap) (er_aclCache e)"
    by (cases snap) (simp add: assms(2) ACLCache_refresh_def ACLCache_holds_def)
  then have holds: "ACLCache_holds (Some (snapshot_of (cc_rulesetOrder c n) (cc_fsm c n))) (er_aclCache e)"
    using snap by simp
  have b: "set bOrder = dom (fsm_bindings (cc_fsm c n))"
    using assms(4) by (simp add: snap snapshot_of_def bindingsSnapshot_def)
  have "Allowed (EdgeRegistry_EvaluateACL e bOrder clientID username topic action) =
      Allowed (CoreRegistry_EvaluateACL n c clientID username topic action)" for clientID username topic action
    using cache_agrees[OF inv _ _ b holds] ord
    by (simp add: EdgeRegistry_EvaluateACL_def CoreRegistry_EvaluateACL_def LocalRegistry_EvaluateACL_def orders_ok_def)
  with n show ?thesis by blast
qed

definition example_edge :: EdgeRegistry where
  "example_edge = \<lparr>er_router = None,
     er_aclCache = ACLCache_refresh (Inr (snapshot_of [] example_state) :: reg_error + acl_snapshot)
       (NewACLCache (Inl NoCorePeers) 0),
     er_revocationCache = NewRevocationCache (Inl NoCorePeers) 0\<rparr>"

theorem edge_acl_is_core_acl_witness:
  "\<exists>n. cc_listen example_cluster ''a2'' = Some n \<and>
     Allowed (EdgeRegistry_EvaluateACL example_edge [''dev''] ''dev'' ''u'' ''t'' ActionPublish) =
     Allowed (CoreRegistry_EvaluateACL n example_cluster ''dev'' ''u'' ''t'' ActionPublish)"
proof -
  let ?snap = "snapshot_of [] example_state"
  have "GetACLSnapshot (RPCServer_ACLSnapshot ''n2'' example_cluster) = ?snap"
    using snapshot_over_rpc[OF example_orders, of "''n2''"] example_state_inv
    by (simp add: example_fields) (simp add: example_cluster_def)
  then have fetch: "RemoteRegistry_ACLSnapshot (rpc_serve 1) [''a2''] example_cluster = (example_cluster, Inr ?snap)"
    by (simp add: RemoteRegistry_ACLSnapshot_def map_reg_def forEachPeer_def rpc_call_def next_net_def example_fields)
       (simp add: example_cluster_def)
  have ok: "\<forall>n. fsm_inv (cc_fsm example_cluster n) \<and> orders_ok n example_cluster"
    by (simp add: example_fields example_state_inv example_orders)
  have order: "set [''dev''] = dom (fst (snd ?snap))"
    by (simp add: snapshot_of_def bindingsSnapshot_def example_state_def)
  have cache: "er_aclCache example_edge =
      ACLCache_refresh (Inr ?snap :: reg_error + acl_snapshot) (NewACLCache (Inl NoCorePeers :: reg_error + acl_snapshot) 0)"
    by (simp add: example_edge_def)
  from edge_acl_is_core_acl[OF fetch cache ok order] obtain addr n where
    "addr \<in> set [''a2'']" "cc_listen example_cluster addr = Some n"
    "Allowed (EdgeRegistry_EvaluateACL example_edge [''dev''] ''dev'' ''u'' ''t'' ActionPublish) =
     Allowed (CoreRegistry_EvaluateACL n example_cluster ''dev'' ''u'' ''t'' ActionPublish)" by blast
  then show ?thesis by (intro exI[of _ n]) simp
qed


end
