(* ===== verification/Membership.thy ===== *)
theory Membership
  imports Registry
begin

text \<open>
  Cluster membership and Redis failover (\<^verbatim>\<open>internal/cluster/membership\<close>): the directory of gossiped
  node metadata and its lookups, the admission of core nodes to the raft configuration
  (\<^verbatim>\<open>membership.go\<close>, \<^verbatim>\<open>meta.go\<close>) and the loop by which the raft leader designates, watches and
  replaces the primary of the co-located Redis instances (\<^verbatim>\<open>redis_failover.go\<close>).

  Gossip is the environment: an event carries the decoded metadata of a node, \<open>None\<close> when its bytes do
  not decode. The designation of the primary goes through the raft registry of \<open>Registry\<close>. A tick of
  the failover loop is one function on the membership and a world that holds the raft cluster, what
  each Redis answers during the tick, how leadership moves between two checks, and the replication
  role every Redis has. A command sent to a Redis may take effect although an error comes back.

  The lemmas show when a tick promotes a Redis and what it does to the designation, that a promotion
  is preceded by an uninterrupted outage longer than the threshold, which topology a tick leaves
  behind, and that the leader's reconciliation admits every known core node.
\<close>

subsection \<open>Node metadata\<close>

definition RoleCore :: string where "RoleCore = ''core''"
definition RoleEdge :: string where "RoleEdge = ''edge''"

record NodeMeta =
  nm_NodeID :: string
  nm_Role :: string
  nm_RaftAddr :: string
  nm_GRPCAddr :: string
  nm_OlricAddr :: string
  nm_OlricClientAddr :: string
  nm_RedisAddr :: string
  nm_HTTPAddr :: string

subsection \<open>Membership\<close>

text \<open>The configuration, the state of the package and the loops \<open>New\<close> starts. Durations and times are
  in nanoseconds.\<close>

record MembershipConfig =
  mc_self :: NodeMeta
  mc_AdvertiseAddr :: string
  mc_Peers :: "string list"
  mc_RedisPrimaryDeadThreshold :: int
  mc_RaftNode :: bool

record Membership =
  mb_self :: NodeMeta
  mb_raft :: bool
  mb_members :: "string \<rightharpoonup> NodeMeta"
  mb_peers :: "string list"
  mb_redisPrimaryDeadThreshold :: int
  mb_redisMissingSince :: "string \<rightharpoonup> int"

datatype membership_error = ResolveAdvertiseAddr | CreateMemberlist

datatype membership_loop = ReconcileVotersLoop | RedisFailoverLoop | RejoinLoop

text \<open>\<open>resolved\<close> and \<open>created\<close> say whether the address resolution and the creation of the gossip agent
  succeed. A failed first join is only logged.\<close>

definition Membership_New ::
  "bool \<Rightarrow> bool \<Rightarrow> MembershipConfig \<Rightarrow> membership_error + Membership \<times> membership_loop list" where
  "Membership_New resolved created cfg =
     (let self = mc_self cfg;
          threshold = (if mc_RedisPrimaryDeadThreshold cfg \<le> 0 then 30000000000
                       else mc_RedisPrimaryDeadThreshold cfg);
          m = \<lparr>mb_self = self, mb_raft = mc_RaftNode cfg, mb_members = Map.empty, mb_peers = mc_Peers cfg,
               mb_redisPrimaryDeadThreshold = threshold, mb_redisMissingSince = Map.empty\<rparr>
      in if mc_AdvertiseAddr cfg \<noteq> '''' \<and> \<not> resolved then Inl ResolveAdvertiseAddr
         else if \<not> created then Inl CreateMemberlist
         else Inr (m\<lparr>mb_members := [nm_NodeID self \<mapsto> self]\<rparr>,
                   (if mb_raft m
                    then ReconcileVotersLoop # (if nm_RedisAddr self \<noteq> '''' then [RedisFailoverLoop] else [])
                    else [])
                   @ (if mc_Peers cfg \<noteq> [] then [RejoinLoop] else [])))"

text \<open>\<open>order\<close> is the order in which a loop visits the keys of the members.\<close>

definition Members :: "string list \<Rightarrow> Membership \<Rightarrow> NodeMeta list" where
  "Members order m = List.map_filter (mb_members m) order"

definition CoreGRPCAddrs :: "string list \<Rightarrow> Membership \<Rightarrow> string list" where
  "CoreGRPCAddrs order m = map nm_GRPCAddr (filter (\<lambda>meta. nm_Role meta = RoleCore) (Members order m))"

definition CoreOlricAddrs :: "string list \<Rightarrow> Membership \<Rightarrow> string list" where
  "CoreOlricAddrs order m =
     map nm_OlricAddr (filter (\<lambda>meta. nm_Role meta = RoleCore \<and> nm_OlricAddr meta \<noteq> '''' \<and>
       nm_NodeID meta \<noteq> nm_NodeID (mb_self m)) (Members order m))"

definition CoreOlricClientAddrs :: "string list \<Rightarrow> Membership \<Rightarrow> string list" where
  "CoreOlricClientAddrs order m =
     map nm_OlricClientAddr (filter (\<lambda>meta. nm_Role meta = RoleCore \<and> nm_OlricClientAddr meta \<noteq> '''') (Members order m))"

definition NodeGRPCAddr :: "string \<Rightarrow> Membership \<Rightarrow> string option" where
  "NodeGRPCAddr nodeID m = map_option nm_GRPCAddr (mb_members m nodeID)"

definition RedisAddrForNode :: "string \<Rightarrow> Membership \<Rightarrow> string option" where
  "RedisAddrForNode nodeID m =
     (case mb_members m nodeID of
        None \<Rightarrow> None
      | Some meta \<Rightarrow> if nm_RedisAddr meta = '''' then None else Some (nm_RedisAddr meta))"

definition EdgeHTTPAddrs :: "string list \<Rightarrow> Membership \<Rightarrow> (string \<rightharpoonup> string)" where
  "EdgeHTTPAddrs order m =
     fold (\<lambda>meta out. if nm_HTTPAddr meta \<noteq> '''' then out(nm_NodeID meta \<mapsto> nm_HTTPAddr meta) else out)
       (Members order m) Map.empty"

definition isIsolated :: "string list \<Rightarrow> Membership \<Rightarrow> bool" where
  "isIsolated order m \<longleftrightarrow>
     \<not> list_ex (\<lambda>meta. nm_Role meta = RoleCore \<and> nm_NodeID meta \<noteq> nm_NodeID (mb_self m)) (Members order m)"

text \<open>The seed addresses a rejoin contacts, if it contacts any.\<close>

definition rejoinIfIsolated :: "string list \<Rightarrow> Membership \<Rightarrow> string list option" where
  "rejoinIfIsolated order m = (if isIsolated order m then Some (mb_peers m) else None)"

subsection \<open>Gossip events and voters\<close>

text \<open>The raft configuration as the leader sees it: \<open>None\<close> when it cannot be read, otherwise the
  identifiers of the servers; \<open>vo_refused\<close> are the nodes for which \<^verbatim>\<open>AddVoter\<close> fails.\<close>

record voters =
  vo_leader :: bool
  vo_servers :: "string list option"
  vo_refused :: "string set"

definition AddVoter :: "string \<Rightarrow> voters \<Rightarrow> voters" where
  "AddVoter nodeID v =
     (if nodeID \<in> vo_refused v then v
      else v\<lparr>vo_servers := map_option (\<lambda>ids. if nodeID \<in> set ids then ids else ids @ [nodeID]) (vo_servers v)\<rparr>)"

definition maybeAddVoter :: "NodeMeta \<Rightarrow> Membership \<Rightarrow> voters \<Rightarrow> voters" where
  "maybeAddVoter meta m v =
     (if \<not> mb_raft m \<or> nm_Role meta \<noteq> RoleCore \<or> nm_NodeID meta = nm_NodeID (mb_self m) then v
      else if \<not> vo_leader v then v
      else AddVoter (nm_NodeID meta) v)"

definition NotifyJoin :: "NodeMeta option \<Rightarrow> Membership \<times> voters \<Rightarrow> Membership \<times> voters" where
  "NotifyJoin decoded s =
     (case (decoded, s) of
        (None, _) \<Rightarrow> s
      | (Some meta, (m, v)) \<Rightarrow>
          let m = m\<lparr>mb_members := (mb_members m)(nm_NodeID meta \<mapsto> meta)\<rparr> in (m, maybeAddVoter meta m v))"

text \<open>The second component is the metadata the installed leave handler is called with.\<close>

definition NotifyLeave :: "string \<Rightarrow> NodeMeta option \<Rightarrow> Membership \<Rightarrow> Membership \<times> NodeMeta option" where
  "NotifyLeave name decoded m =
     (let nodeID = (case decoded of Some meta \<Rightarrow> nm_NodeID meta | None \<Rightarrow> name)
      in (m\<lparr>mb_members := (mb_members m)(nodeID := None)\<rparr>, decoded))"

definition NotifyUpdate :: "NodeMeta option \<Rightarrow> Membership \<Rightarrow> Membership" where
  "NotifyUpdate decoded m =
     (case decoded of None \<Rightarrow> m | Some meta \<Rightarrow> m\<lparr>mb_members := (mb_members m)(nm_NodeID meta \<mapsto> meta)\<rparr>)"

definition reconcileVoters :: "string list \<Rightarrow> Membership \<Rightarrow> voters \<Rightarrow> voters" where
  "reconcileVoters order m v =
     (if \<not> vo_leader v then v
      else case vo_servers v of
        None \<Rightarrow> v
      | Some current \<Rightarrow>
          fold (\<lambda>meta v. if nm_Role meta \<noteq> RoleCore \<or> nm_NodeID meta \<in> set current then v
                         else AddVoter (nm_NodeID meta) v) (Members order m) v)"

subsection \<open>The world of a failover tick\<close>

datatype redis_role = RedisPrimary | RedisReplicaOf string string

datatype redis_command = CmdReplicaOf string string string | CmdNoOne string

text \<open>The answer to an administration command; a failed one may have been carried out.\<close>

datatype admin_answer = AdminOk | AdminFailed bool

text \<open>\<open>fw_leadership\<close> are the changes of leadership, one for each check the code makes; a tick sends an
  address at most one ping and one command, so \<open>fw_up\<close> and \<open>fw_admin\<close> give the answer by address.\<close>

record fo_world =
  fw_cluster :: core_cluster
  fw_leadership :: "string option option list"
  fw_voters :: "nat option"
  fw_now :: int
  fw_up :: "string \<Rightarrow> bool"
  fw_admin :: "string \<Rightarrow> admin_answer"
  fw_redis :: "string \<Rightarrow> redis_role"
  fw_commands :: "redis_command list"
  fw_failovers :: nat

definition check_leader :: "string \<Rightarrow> fo_world \<Rightarrow> fo_world \<times> bool" where
  "check_leader self w =
     (let w' = (case fw_leadership w of
                  [] \<Rightarrow> w
                | None # es \<Rightarrow> w\<lparr>fw_leadership := es\<rparr>
                | Some l # es \<Rightarrow> w\<lparr>fw_leadership := es, fw_cluster := (fw_cluster w)\<lparr>cc_leader := l\<rparr>\<rparr>)
      in (w', LocalRegistry_IsLeader self (fw_cluster w')))"

definition pingRedis :: "string \<Rightarrow> fo_world \<Rightarrow> bool" where
  "pingRedis addr w = fw_up w addr"

definition admin_call :: "string \<Rightarrow> redis_command \<Rightarrow> redis_role \<Rightarrow> fo_world \<Rightarrow> fo_world \<times> bool" where
  "admin_call addr cmd role w =
     (let w' = w\<lparr>fw_commands := fw_commands w @ [cmd]\<rparr>
      in case fw_admin w addr of
           AdminOk \<Rightarrow> (w'\<lparr>fw_redis := (fw_redis w)(addr := role)\<rparr>, True)
         | AdminFailed applied \<Rightarrow> (if applied then w'\<lparr>fw_redis := (fw_redis w)(addr := role)\<rparr> else w', False))"

definition replicaOf :: "string \<Rightarrow> string \<Rightarrow> string \<Rightarrow> fo_world \<Rightarrow> fo_world \<times> bool" where
  "replicaOf addr host port = admin_call addr (CmdReplicaOf addr host port) (RedisReplicaOf host port)"

definition replicaOfNoOne :: "string \<Rightarrow> fo_world \<Rightarrow> fo_world \<times> bool" where
  "replicaOfNoOne addr = admin_call addr (CmdNoOne addr) RedisPrimary"

definition SetRedisPrimary :: "string \<Rightarrow> string \<Rightarrow> fo_world \<Rightarrow> fo_world \<times> bool" where
  "SetRedisPrimary self nodeID w =
     (case LocalRegistry_SetRedisPrimary self nodeID (fw_cluster w) of
        (c, r) \<Rightarrow> (w\<lparr>fw_cluster := c\<rparr>, \<not> isl r))"

text \<open>\<^verbatim>\<open>net.SplitHostPort\<close> of the standard library.\<close>

definition SplitHostPort :: "string \<Rightarrow> (string \<times> string) option" where
  "SplitHostPort s =
     (case cut_last CHR '':'' s of
        None \<Rightarrow> None
      | Some (h, port) \<Rightarrow>
          if hd s = CHR ''['' then
            (if h \<noteq> [] \<and> last h = CHR '']'' \<and> CHR '']'' \<notin> set (butlast h) \<and> CHR ''['' \<notin> set (tl s) \<and> CHR '']'' \<notin> set port
             then Some (tl (butlast h), port) else None)
          else if CHR '':'' \<in> set h \<or> CHR ''['' \<in> set s \<or> CHR '']'' \<in> set s then None
          else Some (h, port))"

subsection \<open>Redis failover\<close>

definition coreMembersWithRedis :: "string list \<Rightarrow> Membership \<Rightarrow> NodeMeta list" where
  "coreMembersWithRedis order m =
     filter (\<lambda>meta. nm_Role meta = RoleCore \<and> nm_RedisAddr meta \<noteq> '''') (Members order m)"

fun configure_replicas :: "string \<Rightarrow> string \<Rightarrow> string \<Rightarrow> string \<Rightarrow> NodeMeta list \<Rightarrow> fo_world \<Rightarrow> fo_world" where
  "configure_replicas self primary host port [] w = w"
| "configure_replicas self primary host port (meta # metas) w =
     (if nm_NodeID meta = primary then configure_replicas self primary host port metas w
      else case check_leader self w of
        (w', False) \<Rightarrow> w'
      | (w', True) \<Rightarrow>
          configure_replicas self primary host port metas (fst (replicaOf (nm_RedisAddr meta) host port w')))"

definition addr_of :: "string \<Rightarrow> NodeMeta list \<Rightarrow> string" where
  "addr_of nodeID metas =
     (case find (\<lambda>meta. nm_NodeID meta = nodeID) metas of Some meta \<Rightarrow> nm_RedisAddr meta | None \<Rightarrow> '''')"

definition ensureReplicasConfigured :: "string \<Rightarrow> NodeMeta list \<Rightarrow> string \<Rightarrow> fo_world \<Rightarrow> fo_world" where
  "ensureReplicasConfigured self coreMembers primaryNodeID w =
     (let primaryAddr = addr_of primaryNodeID coreMembers in
      if primaryAddr = '''' then w
      else case SplitHostPort primaryAddr of
        None \<Rightarrow> w
      | Some (host, port) \<Rightarrow> configure_replicas self primaryNodeID host port coreMembers w)"

definition bootstrapRedisPrimary :: "string \<Rightarrow> NodeMeta list \<Rightarrow> nat \<Rightarrow> fo_world \<Rightarrow> fo_world" where
  "bootstrapRedisPrimary self coreMembers voterCount w =
     (case coreMembers of
        [] \<Rightarrow> w
      | first # _ \<Rightarrow>
          let candidate = (case find (\<lambda>meta. nm_NodeID meta = self) coreMembers of Some meta \<Rightarrow> meta | None \<Rightarrow> first)
          in case SetRedisPrimary self (nm_NodeID candidate) w of
               (w', False) \<Rightarrow> w'
             | (w', True) \<Rightarrow>
                 if voterCount > 1 then ensureReplicasConfigured self coreMembers (nm_NodeID candidate) w'
                 else fst (replicaOfNoOne (nm_RedisAddr candidate) w'))"

datatype promotion = Promoted NodeMeta | NoCandidate | Abandoned

fun promote_first :: "string \<Rightarrow> string \<Rightarrow> NodeMeta list \<Rightarrow> fo_world \<Rightarrow> fo_world \<times> promotion" where
  "promote_first self deadPrimary [] w = (w, NoCandidate)"
| "promote_first self deadPrimary (meta # metas) w =
     (if nm_NodeID meta = deadPrimary then promote_first self deadPrimary metas w
      else if \<not> pingRedis (nm_RedisAddr meta) w then promote_first self deadPrimary metas w
      else case check_leader self w of
        (w', False) \<Rightarrow> (w', Abandoned)
      | (w', True) \<Rightarrow>
          (case replicaOfNoOne (nm_RedisAddr meta) w' of
             (w'', False) \<Rightarrow> (w'', Abandoned)
           | (w'', True) \<Rightarrow> (w'', Promoted meta)))"

definition failoverRedisPrimary ::
  "NodeMeta list \<Rightarrow> string \<Rightarrow> Membership \<times> fo_world \<Rightarrow> Membership \<times> fo_world" where
  "failoverRedisPrimary coreMembers deadPrimary s =
     (case s of (m, w) \<Rightarrow>
        let self = nm_NodeID (mb_self m);
            sorted = sort_key nm_NodeID coreMembers
        in case promote_first self deadPrimary sorted w of
             (w', Promoted candidate) \<Rightarrow>
               (case SetRedisPrimary self (nm_NodeID candidate) w' of
                  (w'', False) \<Rightarrow> (m, w'')
                | (w'', True) \<Rightarrow>
                    (m\<lparr>mb_redisMissingSince := (mb_redisMissingSince m)(deadPrimary := None)\<rparr>,
                     ensureReplicasConfigured self sorted (nm_NodeID candidate)
                       (w''\<lparr>fw_failovers := Suc (fw_failovers w'')\<rparr>)))
           | (w', _) \<Rightarrow> (m, w'))"

definition primary_healthy :: "NodeMeta list \<Rightarrow> string \<Rightarrow> fo_world \<Rightarrow> bool" where
  "primary_healthy coreMembers primary w =
     (case find (\<lambda>meta. nm_NodeID meta = primary) coreMembers of
        None \<Rightarrow> False
      | Some meta \<Rightarrow> pingRedis (nm_RedisAddr meta) w)"

definition reconcileRedisPrimary :: "string list \<Rightarrow> Membership \<times> fo_world \<Rightarrow> Membership \<times> fo_world" where
  "reconcileRedisPrimary order s =
     (case s of (m, w) \<Rightarrow>
        let self = nm_NodeID (mb_self m) in
        case check_leader self w of
          (w, False) \<Rightarrow> (m\<lparr>mb_redisMissingSince := Map.empty\<rparr>, w)
        | (w, True) \<Rightarrow>
           (case fw_voters w of
              None \<Rightarrow> (m, w)
            | Some voterCount \<Rightarrow>
                let coreMembers = coreMembersWithRedis order m in
                (case LocalRegistry_CurrentRedisPrimary self (fw_cluster w) of
                   (primary, False) \<Rightarrow> (m, bootstrapRedisPrimary self coreMembers voterCount w)
                 | (primary, True) \<Rightarrow>
                     if voterCount \<le> 1 then (m, w)
                     else let healthy = primary_healthy coreMembers primary w in
                       (case check_leader self w of
                          (w, False) \<Rightarrow> (m, w)
                        | (w, True) \<Rightarrow>
                            if healthy
                            then (m\<lparr>mb_redisMissingSince := (mb_redisMissingSince m)(primary := None)\<rparr>,
                                  ensureReplicasConfigured self coreMembers primary w)
                            else (case mb_redisMissingSince m primary of
                                    None \<Rightarrow> (m\<lparr>mb_redisMissingSince := (mb_redisMissingSince m)(primary \<mapsto> fw_now w)\<rparr>, w)
                                  | Some missingSince \<Rightarrow>
                                      if fw_now w - missingSince \<le> mb_redisPrimaryDeadThreshold m then (m, w)
                                      else failoverRedisPrimary coreMembers primary (m, w))))))"

subsection \<open>What a step leaves alone\<close>

text \<open>The inputs of a tick, and the part of the world only commands and designations change.\<close>

definition same_inputs :: "fo_world \<Rightarrow> fo_world \<Rightarrow> bool" where
  "same_inputs w w' \<longleftrightarrow> fw_up w' = fw_up w \<and> fw_admin w' = fw_admin w \<and> fw_now w' = fw_now w \<and> fw_voters w' = fw_voters w"

definition same_effects :: "fo_world \<Rightarrow> fo_world \<Rightarrow> bool" where
  "same_effects w w' \<longleftrightarrow> fw_commands w' = fw_commands w \<and> fw_redis w' = fw_redis w \<and>
     cc_log (fw_cluster w') = cc_log (fw_cluster w) \<and> cc_fsm (fw_cluster w') = cc_fsm (fw_cluster w) \<and>
     cc_raft (fw_cluster w') = cc_raft (fw_cluster w)"

lemma same_inputs_refl [simp]: "same_inputs w w"
  by (simp add: same_inputs_def)

lemma same_inputs_trans [trans]: "same_inputs w w' \<Longrightarrow> same_inputs w' w'' \<Longrightarrow> same_inputs w w''"
  by (simp add: same_inputs_def)

lemma check_leader_same:
  assumes "check_leader self w = (w', b)"
  shows "same_inputs w w'" "same_effects w w'"
  using assms
  by (auto simp: check_leader_def Let_def same_inputs_def same_effects_def split: list.splits option.splits)

lemma admin_call_same:
  assumes "admin_call addr cmd role w = (w', b)"
  shows "same_inputs w w'" "fw_commands w' = fw_commands w @ [cmd]" "fw_cluster w' = fw_cluster w"
    "b \<longleftrightarrow> fw_admin w addr = AdminOk" "fw_leadership w' = fw_leadership w"
    "b \<Longrightarrow> fw_redis w' = (fw_redis w)(addr := role)"
  using assms by (auto simp: admin_call_def Let_def same_inputs_def split: admin_answer.splits if_splits)

lemma SetRedisPrimary_same:
  assumes "SetRedisPrimary self n w = (w', b)"
  shows "same_inputs w w'" "fw_commands w' = fw_commands w" "fw_redis w' = fw_redis w"
  using assms by (auto simp: SetRedisPrimary_def same_inputs_def split: prod.splits)

definition designate :: "string \<Rightarrow> Command" where
  "designate nodeID = zeroCommand\<lparr>cmdOp := OpSetRedisPrimary, cmdNodeID := nodeID\<rparr>"

lemma commit_entry_log: "cc_log (fst (commit_entry n cmd c)) \<in> {cc_log c, cc_log c @ [cmd]}"
  by (auto simp: commit_entry_def split: option.splits prod.splits)

lemma raft_Apply_log:
  assumes "raft_Apply n cmd c = (c', r)"
  shows "cc_log c' \<in> {cc_log c, cc_log c @ [cmd]}" "\<not> isl r \<Longrightarrow> cc_log c' = cc_log c @ [cmd]"
proof -
  have commit: "cc_log (fst (raft_commit n cmd c0)) \<in> {cc_log c0, cc_log c0 @ [cmd]} \<and>
      (\<not> isl (snd (raft_commit n cmd c0)) \<longrightarrow> cc_log (fst (raft_commit n cmd c0)) = cc_log c0 @ [cmd])" for c0
    by (auto simp: raft_commit_def commit_entry_def split: option.splits prod.splits)
  have fault: "cc_log (fst (commit_entry k cmd (c\<lparr>cc_raft := as, cc_leader := l\<rparr>))) \<in> {cc_log c, cc_log c @ [cmd]}" for k as l
    using commit_entry_log[of k cmd "c\<lparr>cc_raft := as, cc_leader := l\<rparr>"] by simp
  have "cc_log c' \<in> {cc_log c, cc_log c @ [cmd]} \<and> (\<not> isl r \<longrightarrow> cc_log c' = cc_log c @ [cmd])"
  proof (cases "cc_leader c = Some n")
    case True
    show ?thesis
    proof (cases "cc_raft c")
      case Nil
      with True assms commit[of c] show ?thesis by (simp add: raft_Apply_def)
    next
      case (Cons a as)
      with True assms commit[of "c\<lparr>cc_raft := as\<rparr>"] fault show ?thesis
        by (cases a) (auto simp: raft_Apply_def Let_def split: if_splits)
    qed
  qed (use assms in \<open>auto simp: raft_Apply_def\<close>)
  then show "cc_log c' \<in> {cc_log c, cc_log c @ [cmd]}" "\<not> isl r \<Longrightarrow> cc_log c' = cc_log c @ [cmd]" by auto
qed

lemma SetRedisPrimary_log:
  assumes "SetRedisPrimary self n w = (w', b)"
  shows "cc_log (fw_cluster w') \<in> {cc_log (fw_cluster w), cc_log (fw_cluster w) @ [designate n]}"
    "b \<Longrightarrow> cc_log (fw_cluster w') = cc_log (fw_cluster w) @ [designate n]"
proof -
  obtain c r where ap: "raft_Apply self (designate n) (fw_cluster w) = (c, r)" by force
  have "w' = w\<lparr>fw_cluster := c\<rparr> \<and> (b \<longrightarrow> \<not> isl r)"
    using assms ap by (auto simp: SetRedisPrimary_def LocalRegistry_SetRedisPrimary_def map_reg_def
        LocalRegistry_apply_def designate_def split: prod.splits sum.splits option.splits)
  with raft_Apply_log[OF ap]
  show "cc_log (fw_cluster w') \<in> {cc_log (fw_cluster w), cc_log (fw_cluster w) @ [designate n]}"
    "b \<Longrightarrow> cc_log (fw_cluster w') = cc_log (fw_cluster w) @ [designate n]" by auto
qed

fun is_no_one :: "redis_command \<Rightarrow> bool" where
  "is_no_one (CmdNoOne _) = True"
| "is_no_one _ = False"

text \<open>Steps that only point replicas somewhere.\<close>

definition only_replicas :: "fo_world \<Rightarrow> fo_world \<Rightarrow> bool" where
  "only_replicas w w' \<longleftrightarrow> same_inputs w w' \<and> cc_log (fw_cluster w') = cc_log (fw_cluster w) \<and>
     (\<exists>sent. fw_commands w' = fw_commands w @ sent \<and> filter is_no_one sent = [])"

lemma only_replicas_refl [simp]: "only_replicas w w"
  by (simp add: only_replicas_def)

lemma only_replicas_trans: "only_replicas w w' \<Longrightarrow> only_replicas w' w'' \<Longrightarrow> only_replicas w w''"
  by (force simp: only_replicas_def same_inputs_def)

lemma only_replicas_check: "check_leader self w = (w', b) \<Longrightarrow> only_replicas w w'"
  using check_leader_same[of self w w' b] by (simp add: only_replicas_def same_effects_def)

lemma only_replicas_replicaOf: "only_replicas w (fst (replicaOf addr host port w))"
proof -
  obtain w' b where "replicaOf addr host port w = (w', b)" by force
  then show ?thesis
    using admin_call_same[of addr "CmdReplicaOf addr host port" "RedisReplicaOf host port" w w' b]
    by (simp add: replicaOf_def only_replicas_def)
qed

lemma configure_replicas_only: "only_replicas w (configure_replicas self primary host port metas w)"
proof (induction self primary host port metas w rule: configure_replicas.induct)
  case (2 self primary host port meta metas w)
  obtain w' b where c: "check_leader self w = (w', b)" by force
  show ?case
  proof (cases "nm_NodeID meta = primary \<or> \<not> b")
    case True
    with 2(1) c only_replicas_check[OF c] show ?thesis by auto
  next
    case False
    with 2(2)[OF _ c[symmetric]] have "only_replicas (fst (replicaOf (nm_RedisAddr meta) host port w'))
        (configure_replicas self primary host port metas (fst (replicaOf (nm_RedisAddr meta) host port w')))" by simp
    from only_replicas_trans[OF only_replicas_trans[OF only_replicas_check[OF c] only_replicas_replicaOf] this] False c
    show ?thesis by simp
  qed
qed simp

lemma ensureReplicas_only: "only_replicas w (ensureReplicasConfigured self metas primary w)"
  by (simp add: ensureReplicasConfigured_def Let_def configure_replicas_only split: option.splits)

lemma promote_first_effects:
  assumes "promote_first self dead metas w = (w', res)"
  shows "same_inputs w w' \<and> cc_log (fw_cluster w') = cc_log (fw_cluster w) \<and>
    (\<exists>sent. fw_commands w' = fw_commands w @ sent \<and> length sent \<le> 1 \<and>
       (\<forall>x\<in>set sent. \<exists>meta\<in>set metas. nm_NodeID meta \<noteq> dead \<and> x = CmdNoOne (nm_RedisAddr meta) \<and> fw_up w (nm_RedisAddr meta)) \<and>
       (\<forall>meta. res = Promoted meta \<longrightarrow> meta \<in> set metas \<and> nm_NodeID meta \<noteq> dead \<and>
          sent = [CmdNoOne (nm_RedisAddr meta)] \<and> fw_admin w (nm_RedisAddr meta) = AdminOk))"
  using assms
proof (induction metas)
  case (Cons meta metas)
  show ?case
  proof (cases "nm_NodeID meta = dead \<or> \<not> pingRedis (nm_RedisAddr meta) w")
    case True
    with Cons.prems have "promote_first self dead metas w = (w', res)" by (auto split: if_splits)
    from Cons.IH[OF this] show ?thesis by (elim conjE exE) (intro conjI exI, assumption+, auto)
  next
    case False
    obtain w1 b where c: "check_leader self w = (w1, b)" by force
    note same = check_leader_same[OF c]
    show ?thesis
    proof (cases b)
      case False': False
      with False c Cons.prems have "w' = w1 \<and> res = Abandoned" by simp
      with same show ?thesis by (intro conjI exI[of _ "[]"]) (simp_all add: same_effects_def)
    next
      case True
      obtain w2 ok where a: "replicaOfNoOne (nm_RedisAddr meta) w1 = (w2, ok)" by force
      note eff = admin_call_same[OF a[unfolded replicaOfNoOne_def]]
      have res: "w' = w2 \<and> res = (if ok then Promoted meta else Abandoned)"
        using False True c a Cons.prems by (cases ok) simp_all
      have "same_inputs w w2" using same_inputs_trans[OF same(1) eff(1)] .
      moreover have "fw_commands w2 = fw_commands w @ [CmdNoOne (nm_RedisAddr meta)]"
        "cc_log (fw_cluster w2) = cc_log (fw_cluster w)" "ok \<longrightarrow> fw_admin w (nm_RedisAddr meta) = AdminOk"
        using eff(2,3,4) same by (simp_all add: same_effects_def same_inputs_def)
      ultimately show ?thesis
        using res False by (intro conjI exI[of _ "[CmdNoOne (nm_RedisAddr meta)]"]) (auto simp: pingRedis_def split: if_splits)
    qed
  qed
qed auto

subsection \<open>The cases of a tick\<close>

definition leads :: "Membership \<Rightarrow> fo_world \<Rightarrow> bool" where
  "leads m w = snd (check_leader (nm_NodeID (mb_self m)) w)"

definition designated :: "Membership \<Rightarrow> fo_world \<Rightarrow> string option" where
  "designated m w =
     (case LocalRegistry_CurrentRedisPrimary (nm_NodeID (mb_self m)) (fw_cluster w) of
        (p, ok) \<Rightarrow> if ok then Some p else None)"

lemma designated_same: "same_effects w w' \<Longrightarrow> designated m w' = designated m w"
  by (simp add: designated_def LocalRegistry_CurrentRedisPrimary_def same_effects_def)

lemma healthy_same: "same_inputs w w' \<Longrightarrow> primary_healthy metas p w' = primary_healthy metas p w"
  by (simp add: primary_healthy_def pingRedis_def same_inputs_def split: option.splits)

text \<open>The health of the primary was observed by a leader that stayed one.\<close>

definition found_healthy :: "string list \<Rightarrow> Membership \<Rightarrow> fo_world \<Rightarrow> string \<Rightarrow> bool" where
  "found_healthy order m w p \<longleftrightarrow>
     designated m w = Some p \<and> (\<exists>v. fw_voters w = Some v \<and> v > 1) \<and> leads m w \<and>
     leads m (fst (check_leader (nm_NodeID (mb_self m)) w)) \<and>
     primary_healthy (coreMembersWithRedis order m) p w"

lemma tick_not_leading:
  assumes "reconcileRedisPrimary order (m, w) = (m', w')" "\<not> leads m w"
  shows "m' = m\<lparr>mb_redisMissingSince := Map.empty\<rparr> \<and> same_inputs w w' \<and> same_effects w w'"
proof -
  obtain w1 b where c: "check_leader (nm_NodeID (mb_self m)) w = (w1, b)" by force
  with assms show ?thesis
    using check_leader_same[OF c] by (auto simp: reconcileRedisPrimary_def Let_def leads_def)
qed

lemma tick_bootstrap:
  assumes "reconcileRedisPrimary order (m, w) = (m', w')" "leads m w" "designated m w = None"
  shows "m' = m"
proof -
  obtain w1 b where c: "check_leader (nm_NodeID (mb_self m)) w = (w1, b)" by force
  have "designated m w1 = None" using assms(3) designated_same[OF check_leader_same(2)[OF c]] by simp
  then obtain p where "LocalRegistry_CurrentRedisPrimary (nm_NodeID (mb_self m)) (fw_cluster w1) = (p, False)"
    by (auto simp: designated_def split: prod.splits if_splits)
  with assms(1,2) c show ?thesis
    by (auto simp: reconcileRedisPrimary_def Let_def leads_def split: option.splits)
qed

lemma tick_cases:
  assumes tick: "reconcileRedisPrimary order (m, w) = (m', w')" and lead: "leads m w" and p: "designated m w = Some p"
  obtains (idle) "m' = m" "same_inputs w w'" "same_effects w w'" "\<not> found_healthy order m w p"
  | (healthy) "m' = m\<lparr>mb_redisMissingSince := (mb_redisMissingSince m)(p := None)\<rparr>" "only_replicas w w'"
  | (window) "m' = m\<lparr>mb_redisMissingSince := (mb_redisMissingSince m)(p \<mapsto> fw_now w)\<rparr>" "mb_redisMissingSince m p = None"
      "same_inputs w w'" "same_effects w w'" "\<not> found_healthy order m w p"
  | (failover) since w2 where "mb_redisMissingSince m p = Some since" "fw_now w - since > mb_redisPrimaryDeadThreshold m"
      "\<not> primary_healthy (coreMembersWithRedis order m) p w" "same_inputs w w2" "same_effects w w2"
      "failoverRedisPrimary (coreMembersWithRedis order m) p (m, w2) = (m', w')"
proof -
  let ?self = "nm_NodeID (mb_self m)"
  let ?cores = "coreMembersWithRedis order m"
  obtain w1 b1 where c1: "check_leader ?self w = (w1, b1)" by force
  obtain w2 b2 where c2: "check_leader ?self w1 = (w2, b2)" by force
  note s1 = check_leader_same[OF c1] and s2 = check_leader_same[OF c2]
  have b1: "b1 = True" using lead c1 by (simp add: leads_def)
  have s12: "same_inputs w w2" "same_effects w w2"
    using s1 s2 by (simp_all add: same_inputs_def same_effects_def)
  have cur: "LocalRegistry_CurrentRedisPrimary ?self (fw_cluster w1) = (p, True)"
    using p designated_same[OF s1(2), of m] by (auto simp: designated_def split: prod.splits if_splits)
  have fh: "found_healthy order m w p \<longleftrightarrow> (\<exists>v. fw_voters w = Some v \<and> v > 1) \<and> b2 \<and> primary_healthy ?cores p w"
    using lead p c1 c2 by (auto simp: found_healthy_def leads_def)
  have voters: "fw_voters w1 = fw_voters w" "fw_now w2 = fw_now w" using s1(1) s12(1) by (simp_all add: same_inputs_def)
  have "reconcileRedisPrimary order (m, w) =
      (case fw_voters w of None \<Rightarrow> (m, w1)
       | Some v \<Rightarrow> if v \<le> 1 then (m, w1)
         else if \<not> b2 then (m, w2)
         else if primary_healthy ?cores p w
              then (m\<lparr>mb_redisMissingSince := (mb_redisMissingSince m)(p := None)\<rparr>, ensureReplicasConfigured ?self ?cores p w2)
         else (case mb_redisMissingSince m p of
                 None \<Rightarrow> (m\<lparr>mb_redisMissingSince := (mb_redisMissingSince m)(p \<mapsto> fw_now w)\<rparr>, w2)
               | Some since \<Rightarrow> if fw_now w - since \<le> mb_redisPrimaryDeadThreshold m then (m, w2)
                   else failoverRedisPrimary ?cores p (m, w2)))"
    by (cases "fw_voters w"; cases b2; cases "mb_redisMissingSince m p")
       (simp_all add: reconcileRedisPrimary_def Let_def c1 c2 cur b1 voters healthy_same[OF s1(1)])
  note unfolded = this[unfolded tick]
  show ?thesis
  proof (cases "fw_voters w")
    case None
    with unfolded s1 fh idle show ?thesis by auto
  next
    case (Some v)
    show ?thesis
    proof (cases "v \<le> 1 \<or> \<not> b2")
      case True
      with unfolded Some s1 s12 fh idle show ?thesis by (cases "v \<le> 1") auto
    next
      case False
      show ?thesis
      proof (cases "primary_healthy ?cores p w")
        case True
        with False Some unfolded have m': "m' = m\<lparr>mb_redisMissingSince := (mb_redisMissingSince m)(p := None)\<rparr>"
          "w' = ensureReplicasConfigured ?self ?cores p w2" by auto
        have "only_replicas w w2"
          using only_replicas_trans[OF only_replicas_check[OF c1] only_replicas_check[OF c2]] .
        from only_replicas_trans[OF this ensureReplicas_only] m' healthy show ?thesis by auto
      next
        case ill: False
        show ?thesis
        proof (cases "mb_redisMissingSince m p")
          case None
          with False Some ill unfolded s12 fh window show ?thesis by auto
        next
          case since: (Some since)
          show ?thesis
          proof (cases "fw_now w - since \<le> mb_redisPrimaryDeadThreshold m")
            case True
            with False Some ill since unfolded s12 fh idle show ?thesis by auto
          next
            case late: False
            with False Some ill since unfolded have "failoverRedisPrimary ?cores p (m, w2) = (m', w')" by simp
            with failover[OF since _ ill s12] late show ?thesis by simp
          qed
        qed
      qed
    qed
  qed
qed

text \<open>At most one promotion is sent, to a reachable core node other than \<open>p\<close>, and the designation
  changes only to a node whose promotion was acknowledged.\<close>

definition promotes_one :: "string \<Rightarrow> NodeMeta list \<Rightarrow> fo_world \<Rightarrow> fo_world \<Rightarrow> bool" where
  "promotes_one p cores w w' \<longleftrightarrow>
     (\<exists>sent. fw_commands w' = fw_commands w @ sent \<and> length (filter is_no_one sent) \<le> 1 \<and>
       (\<forall>addr. CmdNoOne addr \<in> set sent \<longrightarrow>
          (\<exists>meta\<in>set cores. nm_NodeID meta \<noteq> p \<and> addr = nm_RedisAddr meta \<and> fw_up w addr)) \<and>
       (cc_log (fw_cluster w') \<noteq> cc_log (fw_cluster w) \<longrightarrow>
          (\<exists>meta\<in>set cores. nm_NodeID meta \<noteq> p \<and> CmdNoOne (nm_RedisAddr meta) \<in> set sent \<and>
             fw_admin w (nm_RedisAddr meta) = AdminOk \<and>
             cc_log (fw_cluster w') = cc_log (fw_cluster w) @ [designate (nm_NodeID meta)])))"

lemma failover_effects:
  assumes "failoverRedisPrimary cores p (m, w) = (m', w')"
  shows "m' = m \<or> m' = m\<lparr>mb_redisMissingSince := (mb_redisMissingSince m)(p := None)\<rparr>"
    "promotes_one p cores w w'"
proof -
  let ?self = "nm_NodeID (mb_self m)"
  let ?sorted = "sort_key nm_NodeID cores"
  obtain w1 res where pr: "promote_first ?self p ?sorted w = (w1, res)" by force
  from promote_first_effects[OF pr] obtain sent where
    s: "same_inputs w w1" "cc_log (fw_cluster w1) = cc_log (fw_cluster w)" "fw_commands w1 = fw_commands w @ sent"
      "length sent \<le> 1"
      "\<And>x. x \<in> set sent \<Longrightarrow> \<exists>meta\<in>set cores. nm_NodeID meta \<noteq> p \<and> x = CmdNoOne (nm_RedisAddr meta) \<and> fw_up w (nm_RedisAddr meta)"
      "\<And>meta. res = Promoted meta \<Longrightarrow> meta \<in> set cores \<and> nm_NodeID meta \<noteq> p \<and>
          sent = [CmdNoOne (nm_RedisAddr meta)] \<and> fw_admin w (nm_RedisAddr meta) = AdminOk"
    by auto
  have short: "length (filter is_no_one sent) \<le> 1" using s(4) le_trans length_filter_le by blast
  have sent: "\<forall>addr. CmdNoOne addr \<in> set sent \<longrightarrow>
      (\<exists>meta\<in>set cores. nm_NodeID meta \<noteq> p \<and> addr = nm_RedisAddr meta \<and> fw_up w addr)"
    using s(5) by fastforce
  have "(m' = m \<or> m' = m\<lparr>mb_redisMissingSince := (mb_redisMissingSince m)(p := None)\<rparr>) \<and>
    promotes_one p cores w w'"
  proof (cases "\<exists>meta. res = Promoted meta")
    case False
    then have "m' = m \<and> w' = w1"
      using assms pr by (cases res) (auto simp: failoverRedisPrimary_def Let_def)
    with s short sent show ?thesis unfolding promotes_one_def by (intro conjI exI[of _ sent]) auto
  next
    case True
    then obtain meta where meta: "res = Promoted meta" by blast
    obtain w2 ok where st: "SetRedisPrimary ?self (nm_NodeID meta) w1 = (w2, ok)" by force
    note same = SetRedisPrimary_same[OF st]
    have "cc_log (fw_cluster w2) = cc_log (fw_cluster w) \<or> cc_log (fw_cluster w2) = cc_log (fw_cluster w) @ [designate (nm_NodeID meta)]"
      using SetRedisPrimary_log(1)[OF st] s(2) by auto
    moreover have "\<exists>more. fw_commands w' = fw_commands w @ sent @ more \<and> filter is_no_one more = []"
      "cc_log (fw_cluster w') = cc_log (fw_cluster w2)"
      "m' = m \<or> m' = m\<lparr>mb_redisMissingSince := (mb_redisMissingSince m)(p := None)\<rparr>"
    proof -
      have "w' = w2 \<and> m' = m \<or>
          w' = ensureReplicasConfigured ?self ?sorted (nm_NodeID meta) (w2\<lparr>fw_failovers := Suc (fw_failovers w2)\<rparr>) \<and>
          m' = m\<lparr>mb_redisMissingSince := (mb_redisMissingSince m)(p := None)\<rparr>"
        using assms pr meta st by (cases ok) (auto simp: failoverRedisPrimary_def Let_def)
      then show "\<exists>more. fw_commands w' = fw_commands w @ sent @ more \<and> filter is_no_one more = []"
        "cc_log (fw_cluster w') = cc_log (fw_cluster w2)"
        "m' = m \<or> m' = m\<lparr>mb_redisMissingSince := (mb_redisMissingSince m)(p := None)\<rparr>"
        using ensureReplicas_only[of "w2\<lparr>fw_failovers := Suc (fw_failovers w2)\<rparr>" ?self ?sorted "nm_NodeID meta"] same(2) s(3)
        by (auto simp: only_replicas_def)
    qed
    ultimately obtain more where
      more: "fw_commands w' = fw_commands w @ (sent @ more)" "filter is_no_one more = []"
      and log: "cc_log (fw_cluster w') = cc_log (fw_cluster w) \<or> cc_log (fw_cluster w') = cc_log (fw_cluster w) @ [designate (nm_NodeID meta)]"
      and m': "m' = m \<or> m' = m\<lparr>mb_redisMissingSince := (mb_redisMissingSince m)(p := None)\<rparr>" by auto
    have "CmdNoOne addr \<notin> set more" for addr using more(2) by (force simp: filter_empty_conv)
    with more log m' s(6)[OF meta] short sent show ?thesis
      unfolding promotes_one_def by (intro conjI exI[of _ "sent @ more"]) auto
  qed
  then show "m' = m \<or> m' = m\<lparr>mb_redisMissingSince := (mb_redisMissingSince m)(p := None)\<rparr>"
    "promotes_one p cores w w'"
    by blast+
qed

lemma promotes_one_inputs:
  "same_inputs w w2 \<Longrightarrow> same_effects w w2 \<Longrightarrow> promotes_one p cores w2 w' \<Longrightarrow> promotes_one p cores w w'"
  by (simp add: promotes_one_def same_inputs_def same_effects_def)

subsection \<open>Runs of ticks\<close>

text \<open>Between two ticks anything may happen to the directory and to the world; only the failure window
  is carried over.\<close>

type_synonym tick = "string list \<times> (string \<rightharpoonup> NodeMeta) \<times> fo_world"

definition at_tick :: "Membership \<Rightarrow> tick \<Rightarrow> Membership" where
  "at_tick m t = m\<lparr>mb_members := fst (snd t)\<rparr>"

definition run_tick :: "tick \<Rightarrow> Membership \<Rightarrow> Membership" where
  "run_tick t m = fst (reconcileRedisPrimary (fst t) (at_tick m t, snd (snd t)))"

definition run_ticks :: "tick list \<Rightarrow> Membership \<Rightarrow> Membership" where
  "run_ticks ts m = fold run_tick ts m"

definition outage_at :: "Membership \<Rightarrow> string \<Rightarrow> tick \<Rightarrow> bool" where
  "outage_at m p t \<longleftrightarrow>
     leads (at_tick m t) (snd (snd t)) \<and> \<not> found_healthy (fst t) (at_tick m t) (snd (snd t)) p"

lemma tick_keeps:
  assumes "reconcileRedisPrimary order (m, w) = (m', w')"
  shows "mb_self m' = mb_self m" "mb_redisPrimaryDeadThreshold m' = mb_redisPrimaryDeadThreshold m"
proof -
  have "\<exists>x. m' = m\<lparr>mb_redisMissingSince := x\<rparr>"
  proof (cases "leads m w")
    case False
    from tick_not_leading[OF assms this] show ?thesis by blast
  next
    case lead: True
    show ?thesis
    proof (cases "designated m w")
      case None
      from tick_bootstrap[OF assms lead this] show ?thesis by (intro exI[of _ "mb_redisMissingSince m"]) simp
    next
      case (Some p)
      from assms lead Some show ?thesis
      proof (cases rule: tick_cases)
        case idle
        then show ?thesis by (intro exI[of _ "mb_redisMissingSince m"]) simp
      next
        case failover
        from failover_effects(1)[OF failover(6)] show ?thesis
          by (elim disjE) (intro exI[of _ "mb_redisMissingSince m"], simp, blast)
      qed blast+
    qed
  qed
  then show "mb_self m' = mb_self m" "mb_redisPrimaryDeadThreshold m' = mb_redisPrimaryDeadThreshold m" by auto
qed

lemma tick_window:
  assumes tick: "reconcileRedisPrimary order (m, w) = (m', w')" and miss: "mb_redisMissingSince m' p = Some t"
  shows "leads m w \<and> \<not> found_healthy order m w p \<and> (mb_redisMissingSince m p = Some t \<or> t = fw_now w)"
proof (cases "leads m w")
  case False
  from tick_not_leading[OF tick this] miss show ?thesis by simp
next
  case lead: True
  show ?thesis
  proof (cases "designated m w")
    case None
    with tick_bootstrap[OF tick lead None] lead miss show ?thesis by (simp add: found_healthy_def)
  next
    case (Some q)
    from tick lead Some show ?thesis
    proof (cases rule: tick_cases)
      case failover
      then have "\<not> found_healthy order m w p" using Some by (auto simp: found_healthy_def)
      with failover_effects(1)[OF failover(6)] miss lead show ?thesis by (auto split: if_splits)
    qed (use miss lead Some in \<open>auto simp: found_healthy_def split: if_splits\<close>)
  qed
qed

lemma run_ticks_keeps:
  "mb_self (run_ticks ts m) = mb_self m" "mb_redisPrimaryDeadThreshold (run_ticks ts m) = mb_redisPrimaryDeadThreshold m"
proof (induction ts rule: rev_induct)
  case (snoc t ts)
  let ?m = "at_tick (run_ticks ts m) t"
  obtain m' w' where "reconcileRedisPrimary (fst t) (?m, snd (snd t)) = (m', w')" by force
  from tick_keeps[OF this] this snoc
  show "mb_self (run_ticks (ts @ [t]) m) = mb_self m"
    "mb_redisPrimaryDeadThreshold (run_ticks (ts @ [t]) m) = mb_redisPrimaryDeadThreshold m"
    by (simp_all add: run_ticks_def run_tick_def at_tick_def)
qed (simp_all add: run_ticks_def)

lemma outage_at_cong: "mb_self m' = mb_self m \<Longrightarrow> outage_at m' p t = outage_at m p t"
  by (simp add: outage_at_def leads_def found_healthy_def designated_def coreMembersWithRedis_def Members_def at_tick_def)

text \<open>The failure window is a debounced outage.\<close>

interpretation fo_window: debounce mb_redisMissingSince run_tick "\<lambda>t. fw_now (snd (snd t))" "\<lambda>m t p. outage_at m p t"
proof (unfold_locales, goal_cases)
  case (1 t m p x)
  obtain m' w' where r: "reconcileRedisPrimary (fst t) (at_tick m t, snd (snd t)) = (m', w')" by force
  with 1 have "mb_redisMissingSince m' p = Some x" by (simp add: run_tick_def)
  from tick_window[OF r this] show ?case by (simp add: outage_at_def) (simp add: at_tick_def)
next
  case (2 t m u p)
  obtain m' w' where r: "reconcileRedisPrimary (fst t) (at_tick m t, snd (snd t)) = (m', w')" by force
  then have "mb_self (run_tick t m) = mb_self m" using tick_keeps(1)[OF r] by (simp add: run_tick_def at_tick_def)
  then show ?case by (rule outage_at_cong)
qed

subsection \<open>A tick in which nothing fails\<close>

definition steady :: "Membership \<Rightarrow> NodeMeta list \<Rightarrow> fo_world \<Rightarrow> bool" where
  "steady m cores w \<longleftrightarrow>
     fw_leadership w = [] \<and> cc_leader (fw_cluster w) = Some (nm_NodeID (mb_self m)) \<and> cc_raft (fw_cluster w) = [] \<and>
     fsm_inv (cc_fsm (fw_cluster w) (nm_NodeID (mb_self m))) \<and> (\<forall>meta\<in>set cores. fw_admin w (nm_RedisAddr meta) = AdminOk)"

lemma steady_check: "steady m cores w \<Longrightarrow> check_leader (nm_NodeID (mb_self m)) w = (w, True)"
  by (simp add: steady_def check_leader_def LocalRegistry_IsLeader_def)

lemma configure_replicas_steady:
  assumes "steady m cores w" "set metas \<subseteq> set cores"
  shows "fw_cluster (configure_replicas (nm_NodeID (mb_self m)) primary host port metas w) = fw_cluster w \<and>
    fw_redis (configure_replicas (nm_NodeID (mb_self m)) primary host port metas w) a =
     (if \<exists>meta\<in>set metas. nm_NodeID meta \<noteq> primary \<and> nm_RedisAddr meta = a then RedisReplicaOf host port else fw_redis w a)"
  using assms
proof (induction metas arbitrary: w)
  case (Cons meta metas)
  show ?case
  proof (cases "nm_NodeID meta = primary")
    case True
    with Cons show ?thesis by auto
  next
    case False
    obtain w' b where a: "replicaOf (nm_RedisAddr meta) host port w = (w', b)" by force
    note eff = admin_call_same[OF a[unfolded replicaOf_def]]
    have "fw_admin w (nm_RedisAddr meta) = AdminOk" using Cons.prems by (simp add: steady_def)
    then have red: "fw_redis w' = (fw_redis w)(nm_RedisAddr meta := RedisReplicaOf host port)" using eff(4,6) by blast
    have st: "steady m cores w'" using Cons.prems(1) eff(1,3,5) by (simp add: steady_def same_inputs_def)
    have "set metas \<subseteq> set cores" using Cons.prems(2) by simp
    from Cons.IH[OF st this] False show ?thesis
      using steady_check[OF Cons.prems(1)] a eff(3) red by auto
  qed
qed simp

lemma ensureReplicas_steady:
  assumes "steady m cores w" "set metas \<subseteq> set cores" "find (\<lambda>x. nm_NodeID x = primary) metas = Some pm"
    and "nm_RedisAddr pm \<noteq> ''''" "SplitHostPort (nm_RedisAddr pm) = Some (host, port)"
  shows "fw_cluster (ensureReplicasConfigured (nm_NodeID (mb_self m)) metas primary w) = fw_cluster w"
    "fw_redis (ensureReplicasConfigured (nm_NodeID (mb_self m)) metas primary w) a =
     (if \<exists>meta\<in>set metas. nm_NodeID meta \<noteq> primary \<and> nm_RedisAddr meta = a then RedisReplicaOf host port else fw_redis w a)"
  using configure_replicas_steady[OF assms(1,2), of primary host port a] assms(3-5)
  by (simp_all add: ensureReplicasConfigured_def addr_of_def Let_def)

text \<open>The node the loop promotes: the first reachable survivor in the order of the node identifiers.\<close>

lemma promote_first_steady:
  assumes "steady m cores w" "set metas \<subseteq> set cores"
    and "find (\<lambda>x. nm_NodeID x \<noteq> p \<and> fw_up w (nm_RedisAddr x)) metas = Some cand"
  shows "\<exists>w'. promote_first (nm_NodeID (mb_self m)) p metas w = (w', Promoted cand) \<and> steady m cores w' \<and>
     fw_cluster w' = fw_cluster w \<and> fw_redis w' = (fw_redis w)(nm_RedisAddr cand := RedisPrimary)"
  using assms(2,3)
proof (induction metas)
  case (Cons meta metas)
  show ?case
  proof (cases "nm_NodeID meta \<noteq> p \<and> fw_up w (nm_RedisAddr meta)")
    case False
    with Cons show ?thesis by (auto simp: pingRedis_def)
  next
    case True
    obtain w' b where a: "replicaOfNoOne (nm_RedisAddr meta) w = (w', b)" by force
    note eff = admin_call_same[OF a[unfolded replicaOfNoOne_def]]
    have "fw_admin w (nm_RedisAddr meta) = AdminOk" using Cons.prems(1) assms(1) by (simp add: steady_def)
    then have b: "b = True" and red: "fw_redis w' = (fw_redis w)(nm_RedisAddr meta := RedisPrimary)" using eff(4,6) by blast+
    have "steady m cores w'" using assms(1) eff(1,3,5) by (simp add: steady_def same_inputs_def)
    with True Cons.prems b red eff(3) a steady_check[OF assms(1)] show ?thesis by (auto simp: pingRedis_def)
  qed
qed simp

lemma SetRedisPrimary_steady:
  assumes "steady m cores w" "n \<noteq> ''''"
  shows "\<exists>w'. SetRedisPrimary (nm_NodeID (mb_self m)) n w = (w', True) \<and> steady m cores w' \<and> designated m w' = Some n \<and>
     fw_redis w' = fw_redis w"
proof -
  let ?self = "nm_NodeID (mb_self m)"
  have inv: "fsm_inv (cc_fsm (fw_cluster w) ?self)" using assms(1) by (simp add: steady_def)
  then obtain st res where ap: "Apply (cc_now (fw_cluster w)) (Some (designate n)) (cc_fsm (fw_cluster w) ?self) = Some (st, res)" "fsm_inv st"
    and ce: "commit_entry ?self (designate n) (fw_cluster w) = ((fw_cluster w)\<lparr>cc_fsm := (cc_fsm (fw_cluster w))(?self := st),
      cc_log := cc_log (fw_cluster w) @ [designate n]\<rparr>, Some res)" by (rule commit_entry_total)
  have res: "res_err res = None" "fsm_redisPrimary st = n"
    using ap(1) by (auto simp: Apply_def designate_def op_defs okResult_def)
  have "raft_Apply ?self (designate n) (fw_cluster w) = (fst (commit_entry ?self (designate n) (fw_cluster w)), Inr res)"
    using assms(1) by (simp add: raft_Apply_def raft_commit_def steady_def ce)
  then have "SetRedisPrimary ?self n w = (w\<lparr>fw_cluster := fst (commit_entry ?self (designate n) (fw_cluster w))\<rparr>, True)"
    using res(1) by (simp add: SetRedisPrimary_def LocalRegistry_SetRedisPrimary_def map_reg_def LocalRegistry_apply_def
        flip: designate_def)
  with assms ap(2) res show ?thesis
    by (simp add: ce steady_def designated_def LocalRegistry_CurrentRedisPrimary_def currentRedisPrimary_def)
qed

lemma find_sorted_least:
  assumes "find P (sort_key f xs) = Some x"
  shows "x \<in> set xs \<and> P x \<and> (\<forall>y\<in>set xs. P y \<longrightarrow> f x \<le> f y)"
proof -
  from assms obtain i where i: "i < length xs" "P (sort_key f xs ! i)" "x = sort_key f xs ! i"
    "\<forall>j<i. \<not> P (sort_key f xs ! j)" by (auto simp: find_Some_iff)
  have "f x \<le> f y" if y: "y \<in> set xs" "P y" for y
  proof -
    from y(1) have "y \<in> set (sort_key f xs)" by simp
    then obtain k where k: "k < length xs" "y = sort_key f xs ! k"
      unfolding in_set_conv_nth[of y] length_sort by metis
    then have "i \<le> k" using i(4) y(2) not_less by blast
    moreover have "sorted (map f (sort_key f xs))" by simp
    ultimately show ?thesis using sorted_nth_mono[of "map f (sort_key f xs)" i k] i k by simp
  qed
  moreover have "x \<in> set xs" using i nth_mem[of i "sort_key f xs"] by simp
  ultimately show ?thesis using i by simp
qed

lemma find_unique:
  assumes "inj_on nm_NodeID (set metas)" "x \<in> set metas"
  shows "find (\<lambda>y. nm_NodeID y = nm_NodeID x) metas = Some x"
proof -
  have "find (\<lambda>y. nm_NodeID y = nm_NodeID x) metas \<noteq> None" using assms(2) by (auto simp: find_None_iff)
  then obtain y where y: "find (\<lambda>y. nm_NodeID y = nm_NodeID x) metas = Some y" by blast
  then have "y \<in> set metas" "nm_NodeID y = nm_NodeID x" by (auto simp: find_Some_iff)
  with assms have "y = x" by (auto dest: inj_onD)
  with y show ?thesis by simp
qed

subsection \<open>The directory\<close>

text \<open>Every entry is filed under its own node identifier.\<close>

definition members_ok :: "Membership \<Rightarrow> bool" where
  "members_ok m \<longleftrightarrow> (\<forall>k meta. mb_members m k = Some meta \<longrightarrow> nm_NodeID meta = k)"

lemma members_ok_events [keel_inv]:
  "Membership_New resolved created cfg = Inr (m, loops) \<Longrightarrow> members_ok m"
  "members_ok m \<Longrightarrow> members_ok (fst (NotifyJoin d (m, v)))"
  "members_ok m \<Longrightarrow> members_ok (fst (NotifyLeave name d m))"
  "members_ok m \<Longrightarrow> members_ok (NotifyUpdate d m)"
  by (auto simp: members_ok_def Membership_New_def NotifyJoin_def NotifyLeave_def NotifyUpdate_def Let_def
      split: if_splits option.splits)

lemma Members_set: "set (Members order m) = {meta. \<exists>k\<in>set order. mb_members m k = Some meta}"
  by (force simp: Members_def List.map_filter_def)

lemma Members_inj: "members_ok m \<Longrightarrow> inj_on nm_NodeID (set (Members order m))"
  by (auto simp: inj_on_def Members_set members_ok_def)

lemma cores_inj: "members_ok m \<Longrightarrow> inj_on nm_NodeID (set (coreMembersWithRedis order m))"
  using Members_inj[of m order] by (auto simp: coreMembersWithRedis_def intro: inj_on_subset)

lemma cores_iff: "meta \<in> set (coreMembersWithRedis order m) \<longleftrightarrow>
    meta \<in> set (Members order m) \<and> nm_Role meta = RoleCore \<and> nm_RedisAddr meta \<noteq> ''''"
  by (auto simp: coreMembersWithRedis_def)

lemma AddVoter_fields [simp]:
  "vo_leader (AddVoter n v) = vo_leader v" "vo_refused (AddVoter n v) = vo_refused v"
  by (simp_all add: AddVoter_def)

lemma AddVoter_servers:
  "vo_servers v = Some ids \<Longrightarrow> \<exists>ids'. vo_servers (AddVoter n v) = Some ids' \<and>
     set ids' = set ids \<union> ({n} - vo_refused v)"
  by (auto simp: AddVoter_def)

lemma reconcile_fold:
  assumes "vo_servers v = Some ids"
  shows "\<exists>ids'. vo_servers (fold (\<lambda>meta v. if nm_Role meta \<noteq> RoleCore \<or> nm_NodeID meta \<in> cur then v
                         else AddVoter (nm_NodeID meta) v) metas v) = Some ids' \<and>
     set ids' = set ids \<union> ({nm_NodeID meta |meta. meta \<in> set metas \<and> nm_Role meta = RoleCore \<and> nm_NodeID meta \<notin> cur} - vo_refused v)"
  using assms
proof (induction metas arbitrary: v ids)
  case (Cons meta metas)
  show ?case
  proof (cases "nm_Role meta \<noteq> RoleCore \<or> nm_NodeID meta \<in> cur")
    case True
    from Cons.IH[OF Cons.prems] obtain ids' where
      "vo_servers (fold (\<lambda>meta v. if nm_Role meta \<noteq> RoleCore \<or> nm_NodeID meta \<in> cur then v
                         else AddVoter (nm_NodeID meta) v) metas v) = Some ids'"
      "set ids' = set ids \<union> ({nm_NodeID meta |meta. meta \<in> set metas \<and> nm_Role meta = RoleCore \<and> nm_NodeID meta \<notin> cur} - vo_refused v)"
      by blast
    with True show ?thesis by (intro exI[of _ ids']) auto
  next
    case False
    from AddVoter_servers[OF Cons.prems] obtain ids1 where
      ids1: "vo_servers (AddVoter (nm_NodeID meta) v) = Some ids1" "set ids1 = set ids \<union> ({nm_NodeID meta} - vo_refused v)" by blast
    from Cons.IH[OF ids1(1)] obtain ids' where
      "vo_servers (fold (\<lambda>meta v. if nm_Role meta \<noteq> RoleCore \<or> nm_NodeID meta \<in> cur then v
                         else AddVoter (nm_NodeID meta) v) metas (AddVoter (nm_NodeID meta) v)) = Some ids'"
      "set ids' = set ids1 \<union> ({nm_NodeID meta |meta. meta \<in> set metas \<and> nm_Role meta = RoleCore \<and> nm_NodeID meta \<notin> cur} - vo_refused v)"
      by auto
    with False ids1(2) show ?thesis by (intro exI[of _ ids']) auto
  qed
qed simp

lemma reconcileVoters_admits:
  assumes "vo_leader v" "vo_servers v = Some current"
  shows "\<exists>ids. vo_servers (reconcileVoters order m v) = Some ids \<and>
     set ids = set current \<union> ({nm_NodeID meta |meta. meta \<in> set (Members order m) \<and> nm_Role meta = RoleCore} - (vo_refused v - set current))"
proof -
  from reconcile_fold[OF assms(2), of "set current" "Members order m"] assms show ?thesis
    by (simp add: reconcileVoters_def) (elim exE conjE, intro exI conjI, assumption, auto)
qed

subsection \<open>Examples\<close>

definition core_meta :: "string \<Rightarrow> string \<Rightarrow> NodeMeta" where
  "core_meta n addr = \<lparr>nm_NodeID = n, nm_Role = RoleCore, nm_RaftAddr = '''', nm_GRPCAddr = '''', nm_OlricAddr = '''',
     nm_OlricClientAddr = '''', nm_RedisAddr = addr, nm_HTTPAddr = ''''\<rparr>"

text \<open>Node \<open>n1\<close> leads a cluster whose designated primary is \<open>n0\<close>; the Redis of \<open>n0\<close> does not answer.\<close>

definition failover_members :: "string \<rightharpoonup> NodeMeta" where
  "failover_members = [''n0'' \<mapsto> core_meta ''n0'' ''r0:1'', ''n1'' \<mapsto> core_meta ''n1'' ''r1:1'', ''n2'' \<mapsto> core_meta ''n2'' ''r2:1'']"

definition failover_node :: "int option \<Rightarrow> Membership" where
  "failover_node since = \<lparr>mb_self = core_meta ''n1'' ''r1:1'', mb_raft = True, mb_members = failover_members, mb_peers = [],
     mb_redisPrimaryDeadThreshold = 30, mb_redisMissingSince = (\<lambda>n. if n = ''n0'' then since else None)\<rparr>"

definition failover_world :: "int \<Rightarrow> fo_world" where
  "failover_world now = \<lparr>fw_cluster = example_cluster\<lparr>cc_fsm := (\<lambda>_. example_state\<lparr>fsm_redisPrimary := ''n0''\<rparr>)\<rparr>,
     fw_leadership = [], fw_voters = Some 3, fw_now = now, fw_up = (\<lambda>a. a \<noteq> ''r0:1''), fw_admin = (\<lambda>_. AdminOk),
     fw_redis = (\<lambda>_. RedisReplicaOf ''r0'' ''1''), fw_commands = [], fw_failovers = 0\<rparr>"

definition failover_order :: "string list" where
  "failover_order = [''n2'', ''n0'', ''n1'']"

lemma failover_example:
  "designated (failover_node s) (failover_world now) = Some ''n0''" "leads (failover_node s) (failover_world now)"
  "members_ok (failover_node s)"
  "coreMembersWithRedis failover_order (failover_node s) = [core_meta ''n2'' ''r2:1'', core_meta ''n0'' ''r0:1'', core_meta ''n1'' ''r1:1'']"
  by (simp_all add: designated_def failover_node_def failover_world_def LocalRegistry_CurrentRedisPrimary_def
      currentRedisPrimary_def core_meta_def leads_def check_leader_def LocalRegistry_IsLeader_def example_cluster_def
      members_ok_def failover_members_def coreMembersWithRedis_def Members_def List.map_filter_def failover_order_def)

lemma failover_example_steady:
  "steady (failover_node s) (coreMembersWithRedis failover_order (failover_node s)) (failover_world now)"
proof -
  have "fsm_inv (example_state\<lparr>fsm_redisPrimary := ''n0''\<rparr>)" using example_state_inv by (simp add: fsm_inv_def)
  then show ?thesis by (simp add: steady_def failover_world_def example_cluster_def failover_node_def core_meta_def)
qed

subsection \<open>Properties\<close>

text \<open>C13. When the failover loop acts: in a tick that finds a designated primary, whatever the Redis
  instances, raft and leadership do, at most one Redis is told to become a primary. It is told so only
  when this node held leadership at the start of the tick, the primary has been tracked as missing for
  longer than the threshold and is not healthy now, and the target is another known core node whose
  Redis answers. The designation changes only to a node whose promotion was acknowledged in this very
  tick, and by exactly one log entry.\<close>

theorem redis_failover_safe:
  assumes "reconcileRedisPrimary order (m, w) = (m', w')" "designated m w = Some p"
  shows "\<exists>sent. fw_commands w' = fw_commands w @ sent \<and> length (filter is_no_one sent) \<le> 1 \<and>
     (\<forall>addr. CmdNoOne addr \<in> set sent \<longrightarrow>
        leads m w \<and> (\<exists>since. mb_redisMissingSince m p = Some since \<and> fw_now w - since > mb_redisPrimaryDeadThreshold m) \<and>
        \<not> primary_healthy (coreMembersWithRedis order m) p w \<and>
        (\<exists>meta\<in>set (coreMembersWithRedis order m). nm_NodeID meta \<noteq> p \<and> addr = nm_RedisAddr meta \<and> fw_up w addr)) \<and>
     (cc_log (fw_cluster w') \<noteq> cc_log (fw_cluster w) \<longrightarrow>
        (\<exists>meta\<in>set (coreMembersWithRedis order m). nm_NodeID meta \<noteq> p \<and> CmdNoOne (nm_RedisAddr meta) \<in> set sent \<and>
           fw_admin w (nm_RedisAddr meta) = AdminOk \<and>
           cc_log (fw_cluster w') = cc_log (fw_cluster w) @ [designate (nm_NodeID meta)]))"
proof (cases "leads m w")
  case False
  from tick_not_leading[OF assms(1) this] show ?thesis
    by (intro exI[of _ "[]"]) (simp add: same_effects_def)
next
  case lead: True
  from assms(1) lead assms(2) show ?thesis
  proof (cases rule: tick_cases)
    case healthy
    from healthy(2) obtain sent where "fw_commands w' = fw_commands w @ sent" "filter is_no_one sent = []"
      "cc_log (fw_cluster w') = cc_log (fw_cluster w)" by (auto simp: only_replicas_def)
    moreover from this(2) have "CmdNoOne addr \<notin> set sent" for addr by (force simp: filter_empty_conv)
    ultimately show ?thesis by (intro exI[of _ sent]) simp
  next
    case (failover since w2)
    have "promotes_one p (coreMembersWithRedis order m) w w'"
      using promotes_one_inputs[OF failover(4,5)] failover_effects(2)[OF failover(6)] by blast
    with failover(1-3) lead show ?thesis unfolding promotes_one_def by (elim exE) (rule_tac x = sent in exI, auto)
  qed (intro exI[of _ "[]"], simp add: same_effects_def)+
qed

theorem redis_failover_safe_witness:
  "\<exists>sent. fw_commands (snd (reconcileRedisPrimary failover_order (failover_node (Some 0), failover_world 31))) = sent \<and>
     length (filter is_no_one sent) \<le> 1"
proof -
  obtain m' w' where r: "reconcileRedisPrimary failover_order (failover_node (Some 0), failover_world 31) = (m', w')" by force
  from redis_failover_safe[OF this failover_example(1)] r show ?thesis by (auto simp: failover_world_def)
qed

text \<open>C18. A promotion is preceded by an outage: over any run of ticks of the failover loop, with the
  directory, raft and the Redis instances changing freely in between, a tick that promotes a Redis in
  place of the designated primary is preceded by ticks that started longer than the threshold ago, in
  every one of which this node led the cluster and none of which, leading to its end, found that
  primary's Redis answering; the promoting tick does not find it answering either.\<close>

theorem redis_failover_needs_outage:
  assumes "mb_redisMissingSince m0 = Map.empty" "m = at_tick (run_ticks ticks m0) (order, mbrs, w)"
    and "reconcileRedisPrimary order (m, w) = (m', w')" "designated m w = Some p"
    and "CmdNoOne addr \<in> set (drop (length (fw_commands w)) (fw_commands w'))"
  shows "\<not> primary_healthy (coreMembersWithRedis order m) p w \<and>
     (\<exists>pre t post. ticks = pre @ t # post \<and> fw_now w - fw_now (snd (snd t)) > mb_redisPrimaryDeadThreshold m0 \<and>
        (\<forall>x\<in>set (t # post). outage_at m0 p x))"
proof -
  have lead: "leads m w"
  proof (rule ccontr)
    assume "\<not> leads m w"
    from tick_not_leading[OF assms(3) this] assms(5) show False by (simp add: same_effects_def)
  qed
  from assms(3) lead assms(4) show ?thesis
  proof (cases rule: tick_cases)
    case healthy
    with assms(5) show ?thesis by (force simp: only_replicas_def filter_empty_conv)
  next
    case (failover since w2)
    have "mb_redisMissingSince (fold run_tick ticks m0) p = Some since"
      using failover(1) assms(2) by (simp add: at_tick_def run_ticks_def)
    moreover have "mb_redisPrimaryDeadThreshold m = mb_redisPrimaryDeadThreshold m0"
      using assms(2) run_ticks_keeps(2)[of ticks m0] by (simp add: at_tick_def)
    moreover have "mb_redisMissingSince m0 p = None" using assms(1) by simp
    ultimately show ?thesis using fo_window.since_run[of m0 p ticks since] failover(2,3) by metis
  qed (use assms(5) in \<open>auto simp: same_effects_def\<close>)
qed

theorem redis_failover_needs_outage_witness:
  "\<exists>pre t post. [(failover_order, failover_members, failover_world 0)] = pre @ t # post \<and>
     (31::int) - fw_now (snd (snd t)) > 30"
proof -
  let ?w = "failover_world 31"
  let ?ts = "[(failover_order, failover_members, failover_world 0)]"
  let ?m = "at_tick (run_ticks ?ts (failover_node None)) (failover_order, failover_members, ?w)"
  have m: "?m = failover_node (Some 0)"
    by (simp add: run_ticks_def run_tick_def at_tick_def reconcileRedisPrimary_def Let_def failover_node_def failover_world_def
        check_leader_def LocalRegistry_IsLeader_def example_cluster_def core_meta_def LocalRegistry_CurrentRedisPrimary_def
        currentRedisPrimary_def primary_healthy_def coreMembersWithRedis_def Members_def List.map_filter_def failover_order_def
        failover_members_def pingRedis_def RoleCore_def fun_eq_iff)
  obtain m' w' where r: "reconcileRedisPrimary failover_order (?m, ?w) = (m', w')" by force
  have "CmdNoOne ''r1:1'' \<in> set (fw_commands (snd (reconcileRedisPrimary failover_order (failover_node (Some 0), ?w))))"
    by code_simp
  then have sent: "CmdNoOne ''r1:1'' \<in> set (drop (length (fw_commands ?w)) (fw_commands w'))"
    using r m by (simp add: failover_world_def)
  have none: "mb_redisMissingSince (failover_node None) = Map.empty" by (simp add: failover_node_def fun_eq_iff)
  have des: "designated ?m ?w = Some ''n0''" unfolding m by (rule failover_example(1))
  from redis_failover_needs_outage[OF none refl r des sent] obtain pre t post where
    "?ts = pre @ t # post" "fw_now ?w - fw_now (snd (snd t)) > mb_redisPrimaryDeadThreshold (failover_node None)" by blast
  moreover have "fw_now ?w = 31" "mb_redisPrimaryDeadThreshold (failover_node None) = 30"
    by (simp_all add: failover_world_def failover_node_def)
  ultimately show ?thesis by (intro exI[of _ pre] exI[of _ t] exI[of _ post]) simp
qed

text \<open>C19. A failover completes: when a failover is due, this node leads throughout, raft and the Redis
  instances do what they are told, and some surviving core node's Redis answers, then after one tick
  the designated primary is the answering survivor with the least node identifier, its Redis is a
  primary, every other known core's Redis replicates from it, the old primary's included, and the
  failure window is closed.\<close>

theorem redis_failover_completes:
  assumes "reconcileRedisPrimary order (m, w) = (m', w')" "cores = coreMembersWithRedis order m"
    and "steady m cores w" "members_ok m" "inj_on nm_RedisAddr (set cores)"
    and "fw_voters w = Some v" "v > 1" "designated m w = Some p" "\<not> primary_healthy cores p w"
    and "mb_redisMissingSince m p = Some since" "fw_now w - since > mb_redisPrimaryDeadThreshold m"
    and "\<exists>meta\<in>set cores. nm_NodeID meta \<noteq> p \<and> fw_up w (nm_RedisAddr meta)"
    and "\<forall>meta\<in>set cores. nm_NodeID meta \<noteq> '''' \<and> SplitHostPort (nm_RedisAddr meta) = Some (host meta, port meta)"
  shows "\<exists>cand\<in>set cores. nm_NodeID cand \<noteq> p \<and> fw_up w (nm_RedisAddr cand) \<and>
     (\<forall>x\<in>set cores. nm_NodeID x \<noteq> p \<and> fw_up w (nm_RedisAddr x) \<longrightarrow> nm_NodeID cand \<le> nm_NodeID x) \<and>
     designated m' w' = Some (nm_NodeID cand) \<and> fw_redis w' (nm_RedisAddr cand) = RedisPrimary \<and>
     (\<forall>x\<in>set cores. x \<noteq> cand \<longrightarrow> fw_redis w' (nm_RedisAddr x) = RedisReplicaOf (host cand) (port cand)) \<and>
     mb_redisMissingSince m' p = None"
proof -
  let ?self = "nm_NodeID (mb_self m)"
  let ?sorted = "sort_key nm_NodeID cores"
  let ?P = "\<lambda>x. nm_NodeID x \<noteq> p \<and> fw_up w (nm_RedisAddr x)"
  have inj: "inj_on nm_NodeID (set cores)" using cores_inj[OF assms(4)] assms(2) by simp
  have fo: "failoverRedisPrimary cores p (m, w) = (m', w')"
    using assms(1,6-11) steady_check[OF assms(3)]
    by (auto simp: reconcileRedisPrimary_def Let_def designated_def simp flip: assms(2) split: prod.splits if_splits)
  have "find ?P ?sorted \<noteq> None" using assms(12) by (auto simp: find_None_iff)
  then obtain cand where f: "find ?P ?sorted = Some cand" by blast
  note least = find_sorted_least[OF f]
  have sub: "set ?sorted \<subseteq> set cores" by simp
  obtain w1 where w1: "promote_first ?self p ?sorted w = (w1, Promoted cand)" "steady m cores w1"
    "fw_redis w1 = (fw_redis w)(nm_RedisAddr cand := RedisPrimary)"
    using promote_first_steady[OF assms(3) sub f] by blast
  have addr: "nm_NodeID cand \<noteq> ''''" "SplitHostPort (nm_RedisAddr cand) = Some (host cand, port cand)"
    "nm_RedisAddr cand \<noteq> ''''"
    using assms(13) least assms(2) by (auto simp: cores_iff)
  obtain w2 where w2: "SetRedisPrimary ?self (nm_NodeID cand) w1 = (w2, True)" "steady m cores w2"
    "designated m w2 = Some (nm_NodeID cand)" "fw_redis w2 = fw_redis w1"
    using SetRedisPrimary_steady[OF w1(2) addr(1)] by blast
  let ?w3 = "w2\<lparr>fw_failovers := Suc (fw_failovers w2)\<rparr>"
  have st3: "steady m cores ?w3" using w2(2) by (simp add: steady_def)
  have fin: "m' = m\<lparr>mb_redisMissingSince := (mb_redisMissingSince m)(p := None)\<rparr>"
    "w' = ensureReplicasConfigured ?self ?sorted (nm_NodeID cand) ?w3"
    using fo w1(1) w2(1) by (simp_all add: failoverRedisPrimary_def Let_def)
  have "find (\<lambda>x. nm_NodeID x = nm_NodeID cand) ?sorted = Some cand"
    using find_unique[of ?sorted cand] inj least by simp
  note red = ensureReplicas_steady[OF st3 sub this addr(3,2)]
  have "designated m' w' = Some (nm_NodeID cand)"
    using w2(3) red(1) fin by (simp add: designated_def)
  moreover have "fw_redis w' (nm_RedisAddr cand) = RedisPrimary"
    using red(2) fin(2) w2(4) w1(3) least assms(5) by (auto dest: inj_onD)
  moreover have "fw_redis w' (nm_RedisAddr x) = RedisReplicaOf (host cand) (port cand)" if "x \<in> set cores" "x \<noteq> cand" for x
    using red(2) fin(2) that inj least by (auto dest: inj_onD)
  ultimately show ?thesis using least fin(1) by (intro bexI[of _ cand]) auto
qed

theorem redis_failover_completes_witness:
  "\<exists>(cand :: NodeMeta) m' w'. reconcileRedisPrimary failover_order (failover_node (Some 0), failover_world 31) = (m', w') \<and>
     designated m' w' = Some (nm_NodeID cand) \<and> fw_redis w' (nm_RedisAddr cand) = RedisPrimary"
proof -
  let ?cores = "coreMembersWithRedis failover_order (failover_node (Some 0))"
  obtain m' w' where r: "reconcileRedisPrimary failover_order (failover_node (Some 0), failover_world 31) = (m', w')" by force
  have *: "inj_on nm_RedisAddr (set ?cores)" "fw_voters (failover_world 31) = Some 3" "(3::nat) > 1"
    "\<not> primary_healthy ?cores ''n0'' (failover_world 31)" "mb_redisMissingSince (failover_node (Some 0)) ''n0'' = Some 0"
    "fw_now (failover_world 31) - 0 > mb_redisPrimaryDeadThreshold (failover_node (Some 0))"
    "\<exists>meta\<in>set ?cores. nm_NodeID meta \<noteq> ''n0'' \<and> fw_up (failover_world 31) (nm_RedisAddr meta)"
    unfolding failover_example(4)
    by (simp_all add: core_meta_def failover_world_def failover_node_def primary_healthy_def pingRedis_def)
  have "\<forall>meta\<in>set ?cores. nm_NodeID meta \<noteq> '''' \<and> SplitHostPort (nm_RedisAddr meta) =
      Some (butlast (butlast (nm_RedisAddr meta)), ''1'')"
    unfolding failover_example(4) by (simp add: core_meta_def SplitHostPort_def cut_last.simps)
  from redis_failover_completes[OF r refl failover_example_steady failover_example(3) *(1-3) failover_example(1) *(4-7)
      this] r show ?thesis by blast
qed

end
