(* ===== verification/Lifecycle.thy ===== *)
theory Lifecycle
  imports Complex_Main Membership "HOL-Library.Multiset"
begin

text \<open>
  Node lifecycle (\<^verbatim>\<open>internal/cluster/lifecycle\<close>): a rebalance pass over the edge nodes
  (\<^verbatim>\<open>rebalance.go\<close>), the sweep that purges routing entries of vanished nodes (\<^verbatim>\<open>routing_sweep.go\<close>), the
  monitor of core nodes (\<^verbatim>\<open>monitor.go\<close>) and the voluntary exit of a node (\<^verbatim>\<open>drain.go\<close>).

  A Go map is a map together with the order in which a loop visits its keys. The random shuffle of a
  rebalance pass and the outcomes of evictions, purges and waits are arguments; the calls a pass or a
  tick makes are part of its result. The average, which the code computes in \<^verbatim>\<open>float64\<close>, is a
  rational number here: the rounding of that type is not modelled.

  The lemmas bound what a rebalance pass evicts, show that the sweep purges only nodes that held
  routes and were missing from gossip at every tick for longer than the threshold, and what neither
  loop does after a purge.
\<close>

subsection \<open>Rebalance\<close>

definition LiveEdgeNodes :: "NodeMeta list \<Rightarrow> (string \<rightharpoonup> bool)" where
  "LiveEdgeNodes ms = fold (\<lambda>meta live. if nm_Role meta = RoleEdge then live(nm_NodeID meta \<mapsto> True) else live) ms Map.empty"

definition LiveEdgeNodeIDs :: "string list \<Rightarrow> NodeMeta list \<Rightarrow> string list" where
  "LiveEdgeNodeIDs order ms = filter (\<lambda>n. LiveEdgeNodes ms n \<noteq> None) order"

record RebalanceConfig =
  rb_ImbalanceThreshold :: rat
  rb_MaxEvictionsPerNode :: int
  rb_EvictStagger :: int
  rb_ExcludeClientIDs :: "string \<rightharpoonup> bool"

definition DefaultRebalanceConfig :: RebalanceConfig where
  "DefaultRebalanceConfig = \<lparr>rb_ImbalanceThreshold = 1 / 5, rb_MaxEvictionsPerNode = 50,
     rb_EvictStagger = 200000000, rb_ExcludeClientIDs = Map.empty\<rparr>"

record RebalanceNodeResult =
  nr_NodeID :: string
  nr_Before :: int
  nr_Target :: int
  nr_Evicted :: "string list"
  nr_EvictErrs :: "string list"

record RebalanceResult =
  rr_DryRun :: bool
  rr_LiveEdgeNodes :: nat
  rr_TotalSessions :: nat
  rr_Average :: rat
  rr_Nodes :: "RebalanceNodeResult list"

datatype rebalance_error = NoEvictor | ContextDone

text \<open>What a pass finds outside: the order of the loops over the nodes and the sessions, the shuffle of
  a node's candidates, whether an eviction succeeds, and for each wait between two evictions whether
  the context is done.\<close>

record rebalance_env =
  re_nodeOrder :: "string list"
  re_sessionOrder :: "string list"
  re_shuffle :: "string \<Rightarrow> string list \<Rightarrow> string list"
  re_evict :: "string \<Rightarrow> string \<Rightarrow> bool"
  re_done :: "bool list"

definition byNode :: "rebalance_env \<Rightarrow> (string \<rightharpoonup> string) \<Rightarrow> string \<Rightarrow> string list" where
  "byNode env sessions nodeID = filter (\<lambda>c. sessions c = Some nodeID) (re_sessionOrder env)"

text \<open>\<^verbatim>\<open>math.Round\<close> of a number that is not negative.\<close>

definition go_round :: "rat \<Rightarrow> int" where
  "go_round x = \<lfloor>x + 1 / 2\<rfloor>"

text \<open>The clients a pass selects on one node.\<close>

definition select_evictions :: "rebalance_env \<Rightarrow> RebalanceConfig \<Rightarrow> rat \<Rightarrow> string \<Rightarrow> string list \<Rightarrow> string list" where
  "select_evictions env cfg average nodeID clients =
     (let count = int (length clients);
          threshold = average * (1 + rb_ImbalanceThreshold cfg);
          target = go_round average in
      if of_int count \<le> threshold then []
      else let excess = min (count - target) (rb_MaxEvictionsPerNode cfg) in
        if excess \<le> 0 then []
        else let evictable = filter (\<lambda>c. rb_ExcludeClientIDs cfg c \<noteq> Some True) clients;
                 excess = min excess (int (length evictable)) in
          if excess \<le> 0 then []
          else take (nat excess) (re_shuffle env nodeID evictable))"

text \<open>The loop over the selected clients of a node: the calls made, the evicted and the failed clients,
  the answers of the waits left over, and whether the context was done.\<close>

fun evict_loop ::
  "rebalance_env \<Rightarrow> RebalanceConfig \<Rightarrow> bool \<Rightarrow> string \<Rightarrow> string list \<Rightarrow> bool list \<Rightarrow>
   (string \<times> string) list \<times> string list \<times> string list \<times> bool list \<times> bool" where
  "evict_loop env cfg dryRun nodeID [] waits = ([], [], [], waits, False)"
| "evict_loop env cfg dryRun nodeID (clientID # rest) waits =
     (if dryRun then
        (case evict_loop env cfg dryRun nodeID rest waits of
           (calls, evicted, errs, waits', stop) \<Rightarrow> (calls, clientID # evicted, errs, waits', stop))
      else if \<not> re_evict env nodeID clientID then
        (case evict_loop env cfg dryRun nodeID rest waits of
           (calls, evicted, errs, waits', stop) \<Rightarrow> ((nodeID, clientID) # calls, evicted, clientID # errs, waits', stop))
      else if rest \<noteq> [] \<and> rb_EvictStagger cfg > 0 \<and> waits \<noteq> [] \<and> hd waits then
        ([(nodeID, clientID)], [clientID], [], tl waits, True)
      else
        (case evict_loop env cfg dryRun nodeID rest
                (if rest \<noteq> [] \<and> rb_EvictStagger cfg > 0 then tl waits else waits) of
           (calls, evicted, errs, waits', stop) \<Rightarrow> ((nodeID, clientID) # calls, clientID # evicted, errs, waits', stop)))"

fun rebalance_nodes ::
  "rebalance_env \<Rightarrow> RebalanceConfig \<Rightarrow> bool \<Rightarrow> (string \<rightharpoonup> string) \<Rightarrow> rat \<Rightarrow> string list \<Rightarrow> bool list \<Rightarrow>
   (string \<times> string) list \<times> RebalanceNodeResult list \<times> bool" where
  "rebalance_nodes env cfg dryRun sessions average [] waits = ([], [], False)"
| "rebalance_nodes env cfg dryRun sessions average (nodeID # ns) waits =
     (let clients = byNode env sessions nodeID;
          toEvict = select_evictions env cfg average nodeID clients in
      if toEvict = [] then rebalance_nodes env cfg dryRun sessions average ns waits
      else case evict_loop env cfg dryRun nodeID toEvict waits of
        (calls, evicted, errs, waits', stop) \<Rightarrow>
          let nr = \<lparr>nr_NodeID = nodeID, nr_Before = int (length clients), nr_Target = go_round average,
                    nr_Evicted = evicted, nr_EvictErrs = errs\<rparr> in
          if stop then (calls, [nr], True)
          else case rebalance_nodes env cfg dryRun sessions average ns waits' of
            (calls', nrs, stop') \<Rightarrow> (calls @ calls', nr # nrs, stop'))"

text \<open>The result of a pass: the evictions it asked for, its report and its error.\<close>

definition Rebalance ::
  "rebalance_env \<Rightarrow> (string \<rightharpoonup> string) \<Rightarrow> (string \<rightharpoonup> bool) \<Rightarrow> RebalanceConfig \<Rightarrow> bool \<Rightarrow> bool \<Rightarrow>
   (string \<times> string) list \<times> RebalanceResult option \<times> rebalance_error option" where
  "Rebalance env sessions nodeIsLiveEdge cfg evictor dryRun =
     (if \<not> evictor \<and> \<not> dryRun then ([], None, Some NoEvictor)
      else let ns = filter (\<lambda>n. nodeIsLiveEdge n = Some True) (re_nodeOrder env);
               total = sum_list (map (\<lambda>n. length (byNode env sessions n)) ns);
               result = \<lparr>rr_DryRun = dryRun, rr_LiveEdgeNodes = length ns, rr_TotalSessions = total,
                         rr_Average = 0, rr_Nodes = []\<rparr> in
        if ns = [] then ([], Some result, None)
        else let average = of_nat total / of_nat (length ns) in
          case rebalance_nodes env cfg dryRun sessions average ns (re_done env) of
            (calls, nrs, stop) \<Rightarrow>
              (calls, Some (result\<lparr>rr_Average := average, rr_Nodes := nrs\<rparr>), if stop then Some ContextDone else None))"

subsection \<open>Routing sweep\<close>

record RoutingSweep =
  rs_Threshold :: int
  rs_Interval :: int
  rs_PurgeNode :: bool
  rs_absentSince :: "string \<rightharpoonup> int"
  rs_flagged :: "string set"

definition NewRoutingSweep :: "int \<Rightarrow> RoutingSweep" where
  "NewRoutingSweep threshold =
     (let interval = threshold div 4;
          interval = (if interval < 30000000000 then 30000000000 else interval)
      in \<lparr>rs_Threshold = threshold, rs_Interval = interval, rs_PurgeNode = False, rs_absentSince = Map.empty, rs_flagged = {}\<rparr>)"

definition sweep_clear :: "string \<Rightarrow> RoutingSweep \<Rightarrow> RoutingSweep" where
  "sweep_clear nodeID s =
     (if rs_absentSince s nodeID = None then s
      else s\<lparr>rs_absentSince := (rs_absentSince s)(nodeID := None), rs_flagged := rs_flagged s - {nodeID}\<rparr>)"

text \<open>What a tick reads: the time, the members of the gossip cluster, the nodes holding routes in the
  order of the loop, and whether a purge succeeds.\<close>

record sweep_input =
  si_now :: int
  si_members :: "NodeMeta list"
  si_holding :: "string list"
  si_purge :: "string \<Rightarrow> bool"

definition sweep_live :: "sweep_input \<Rightarrow> string set" where
  "sweep_live t = nm_NodeID ` set (si_members t)"

definition sweep_visit :: "sweep_input \<Rightarrow> string \<Rightarrow> RoutingSweep \<times> string list \<Rightarrow> RoutingSweep \<times> string list" where
  "sweep_visit t nodeID sc =
     (case sc of (s, calls) \<Rightarrow>
        if nodeID \<in> sweep_live t then (sweep_clear nodeID s, calls)
        else case rs_absentSince s nodeID of
          None \<Rightarrow> (s\<lparr>rs_absentSince := (rs_absentSince s)(nodeID \<mapsto> si_now t)\<rparr>, calls)
        | Some since \<Rightarrow>
            if si_now t - since > rs_Threshold s \<and> nodeID \<notin> rs_flagged s then
              (if \<not> rs_PurgeNode s then (s\<lparr>rs_flagged := insert nodeID (rs_flagged s)\<rparr>, calls)
               else (if si_purge t nodeID then s\<lparr>rs_flagged := insert nodeID (rs_flagged s)\<rparr> else s, calls @ [nodeID]))
            else (s, calls))"

text \<open>The second loop of a tick clears every tracked node that holds no routes; the order of its visits
  does not matter.\<close>

definition sweep_forget :: "sweep_input \<Rightarrow> RoutingSweep \<Rightarrow> RoutingSweep" where
  "sweep_forget t s =
     s\<lparr>rs_absentSince := (\<lambda>n. if n \<in> set (si_holding t) then rs_absentSince s n else None),
       rs_flagged := {n \<in> rs_flagged s. n \<in> set (si_holding t) \<or> rs_absentSince s n = None}\<rparr>"

definition sweep_tick :: "sweep_input \<Rightarrow> RoutingSweep \<Rightarrow> RoutingSweep \<times> string list" where
  "sweep_tick t s =
     (case fold (sweep_visit t) (remdups (si_holding t)) (s, []) of (s', calls) \<Rightarrow> (sweep_forget t s', calls))"

subsection \<open>Monitor\<close>

record Monitor =
  mo_Threshold :: int
  mo_Interval :: int
  mo_PurgeNode :: bool
  mo_lastSeen :: "string \<rightharpoonup> int"
  mo_warned :: "string set"

definition NewMonitor :: "int \<Rightarrow> Monitor" where
  "NewMonitor threshold =
     (let interval = threshold div 4;
          interval = (if interval < 5000000000 then 5000000000 else interval)
      in \<lparr>mo_Threshold = threshold, mo_Interval = interval, mo_PurgeNode = False, mo_lastSeen = Map.empty, mo_warned = {}\<rparr>)"

record monitor_input =
  mi_now :: int
  mi_members :: "NodeMeta list"
  mi_order :: "string list"
  mi_purge :: "string \<Rightarrow> bool"

definition core_ids :: "monitor_input \<Rightarrow> string set" where
  "core_ids t = nm_NodeID ` set (filter (\<lambda>meta. nm_Role meta = RoleCore) (mi_members t))"

definition monitor_seen :: "monitor_input \<Rightarrow> Monitor \<Rightarrow> Monitor" where
  "monitor_seen t m =
     fold (\<lambda>meta m. if nm_Role meta \<noteq> RoleCore then m
             else m\<lparr>mo_lastSeen := (mo_lastSeen m)(nm_NodeID meta \<mapsto> mi_now t), mo_warned := mo_warned m - {nm_NodeID meta}\<rparr>)
       (mi_members t) m"

text \<open>The loop over the last-seen times; a purge is attempted once a node is marked, and its outcome is
  only logged.\<close>

definition monitor_visit :: "monitor_input \<Rightarrow> string \<Rightarrow> Monitor \<times> string list \<Rightarrow> Monitor \<times> string list" where
  "monitor_visit t nodeID mc =
     (case mc of (m, calls) \<Rightarrow>
        case mo_lastSeen m nodeID of
          None \<Rightarrow> (m, calls)
        | Some seenAt \<Rightarrow>
            if nodeID \<in> core_ids t then (m, calls)
            else if mi_now t - seenAt > mo_Threshold m \<and> nodeID \<notin> mo_warned m then
              (m\<lparr>mo_warned := insert nodeID (mo_warned m)\<rparr>, if mo_PurgeNode m then calls @ [nodeID] else calls)
            else (m, calls))"

definition monitor_tick :: "monitor_input \<Rightarrow> Monitor \<Rightarrow> Monitor \<times> string list" where
  "monitor_tick t m = fold (monitor_visit t) (mi_order t) (monitor_seen t m, [])"

subsection \<open>Drain\<close>

datatype drain_effect = TransferLeadership | LeaveGossip

text \<open>\<open>raft\<close> is the raft node's leadership and whether its transfer succeeds, \<open>gossip\<close> whether leaving
  succeeds; either is absent when the node has none. A failed transfer is only logged.\<close>

definition Drain :: "(bool \<times> bool) option \<Rightarrow> bool option \<Rightarrow> drain_effect list \<times> bool" where
  "Drain raft gossip =
     (let transfer = (case raft of Some (True, _) \<Rightarrow> [TransferLeadership] | _ \<Rightarrow> []) in
      case gossip of
        None \<Rightarrow> (transfer, True)
      | Some ok \<Rightarrow> (transfer @ [LeaveGossip], ok))"

subsection \<open>Bounds of a rebalance pass\<close>

definition fair_shuffle :: "rebalance_env \<Rightarrow> bool" where
  "fair_shuffle env \<longleftrightarrow> (\<forall>n xs. mset (re_shuffle env n xs) = mset xs)"

lemma distinct_submset:
  assumes "mset xs \<subseteq># mset ys" "distinct ys"
  shows "distinct xs \<and> set xs \<subseteq> set ys \<and> length xs \<le> length ys"
proof -
  have "count (mset xs) a \<le> 1" for a
  proof -
    have "count (mset xs) a \<le> count (mset ys) a" using assms(1) by (simp add: mset_subset_eq_count)
    also have "\<dots> \<le> 1" using assms(2) by (auto simp: distinct_count_atmost_1)
    finally show ?thesis .
  qed
  then have "count (mset xs) a = (if a \<in> set xs then 1 else 0)" for a
    by (metis One_nat_def count_greater_eq_one_iff count_mset_0_iff le_antisym set_mset_mset)
  then have "distinct xs" by (simp add: distinct_count_atmost_1)
  moreover have "set xs \<subseteq> set ys" using set_mset_mono[OF assms(1)] by simp
  moreover have "length xs \<le> length ys" using size_mset_mono[OF assms(1)] by simp
  ultimately show ?thesis by simp
qed

lemma take_submset: "mset (take k xs) \<subseteq># mset xs"
  by (metis append_take_drop_id mset_append mset_subset_eq_add_left)

lemma select_bounds:
  assumes "fair_shuffle env" "xs = select_evictions env cfg average n clients" "xs \<noteq> []"
  shows "mset xs \<subseteq># mset (filter (\<lambda>c. rb_ExcludeClientIDs cfg c \<noteq> Some True) clients)"
    "int (length xs) \<le> rb_MaxEvictionsPerNode cfg" "int (length xs) \<le> int (length clients) - go_round average"
    "of_int (int (length clients)) > average * (1 + rb_ImbalanceThreshold cfg)"
proof -
  let ?e = "filter (\<lambda>c. rb_ExcludeClientIDs cfg c \<noteq> Some True) clients"
  let ?k = "min (min (int (length clients) - go_round average) (rb_MaxEvictionsPerNode cfg)) (int (length ?e))"
  have xs: "xs = take (nat ?k) (re_shuffle env n ?e)" and big: "of_int (int (length clients)) > average * (1 + rb_ImbalanceThreshold cfg)"
    and pos: "?k > 0"
    using assms(2,3) by (auto simp: select_evictions_def Let_def split: if_splits)
  have "mset (re_shuffle env n ?e) = mset ?e" using assms(1) by (simp add: fair_shuffle_def)
  then show "mset xs \<subseteq># mset ?e" using take_submset[of "nat ?k" "re_shuffle env n ?e"] xs by simp
  have "length xs \<le> nat ?k" unfolding xs length_take by (rule min.cobounded2)
  then have "int (length xs) \<le> ?k" using le_nat_iff[of ?k "length xs"] pos by simp
  then show "int (length xs) \<le> rb_MaxEvictionsPerNode cfg" "int (length xs) \<le> int (length clients) - go_round average"
    by linarith+
  show "of_int (int (length clients)) > average * (1 + rb_ImbalanceThreshold cfg)" by (rule big)
qed

lemma evict_loop_bounds:
  assumes "evict_loop env cfg dryRun n xs waits = (calls, evicted, errs, waits', stop)"
  shows "mset (evicted @ errs) \<subseteq># mset xs \<and> set calls \<subseteq> {n} \<times> set (evicted @ errs) \<and> (dryRun \<longrightarrow> calls = [])"
  using assms
proof (induction xs arbitrary: waits calls evicted errs waits' stop)
  case (Cons c rest)
  let ?ws = "if dryRun \<or> \<not> re_evict env n c then waits
     else if rest \<noteq> [] \<and> rb_EvictStagger cfg > 0 then tl waits else waits"
  obtain calls' evicted' errs' ws' stop' where rec: "evict_loop env cfg dryRun n rest ?ws = (calls', evicted', errs', ws', stop')"
    using prod_cases5 by blast
  note ih = Cons.IH[OF rec]
  consider "dryRun" "calls = calls'" "evicted = c # evicted'" "errs = errs'"
    | "\<not> dryRun" "calls = (n, c) # calls'" "evicted = evicted'" "errs = c # errs'"
    | "\<not> dryRun" "calls = [(n, c)]" "evicted = [c]" "errs = []"
    | "\<not> dryRun" "calls = (n, c) # calls'" "evicted = c # evicted'" "errs = errs'"
    using Cons.prems rec by (auto split: if_splits)
  then show ?case using ih by cases auto
qed simp

definition good_node_result ::
  "rebalance_env \<Rightarrow> RebalanceConfig \<Rightarrow> (string \<rightharpoonup> string) \<Rightarrow> rat \<Rightarrow> RebalanceNodeResult \<Rightarrow> bool" where
  "good_node_result env cfg sessions average nr \<longleftrightarrow>
     nr_Before nr = int (length (byNode env sessions (nr_NodeID nr))) \<and> nr_Target nr = go_round average \<and>
     of_int (nr_Before nr) > average * (1 + rb_ImbalanceThreshold cfg) \<and>
     distinct (nr_Evicted nr @ nr_EvictErrs nr) \<and>
     (\<forall>c\<in>set (nr_Evicted nr @ nr_EvictErrs nr). sessions c = Some (nr_NodeID nr) \<and> rb_ExcludeClientIDs cfg c \<noteq> Some True) \<and>
     int (length (nr_Evicted nr @ nr_EvictErrs nr)) \<le> rb_MaxEvictionsPerNode cfg \<and>
     nr_Before nr - int (length (nr_Evicted nr @ nr_EvictErrs nr)) \<ge> nr_Target nr"

lemma rebalance_nodes_bounds:
  assumes "fair_shuffle env" "distinct (re_sessionOrder env)"
    and "rebalance_nodes env cfg dryRun sessions average ns waits = (calls, nrs, stop)"
  shows "(\<forall>nr\<in>set nrs. nr_NodeID nr \<in> set ns \<and> good_node_result env cfg sessions average nr) \<and>
    (\<forall>(n, c)\<in>set calls. \<exists>nr\<in>set nrs. nr_NodeID nr = n \<and> c \<in> set (nr_Evicted nr @ nr_EvictErrs nr)) \<and>
    (dryRun \<longrightarrow> calls = [])"
  using assms(3)
proof (induction ns arbitrary: waits calls nrs stop)
  case (Cons n ns)
  let ?clients = "byNode env sessions n"
  let ?xs = "select_evictions env cfg average n ?clients"
  show ?case
  proof (cases "?xs = []")
    case True
    with Cons show ?thesis by fastforce
  next
    case False
    obtain calls1 evicted errs ws' stop1 where ev: "evict_loop env cfg dryRun n ?xs waits = (calls1, evicted, errs, ws', stop1)"
      using prod_cases5 by blast
    let ?nr = "\<lparr>nr_NodeID = n, nr_Before = int (length ?clients), nr_Target = go_round average, nr_Evicted = evicted, nr_EvictErrs = errs\<rparr>"
    note ev' = evict_loop_bounds[OF ev] and sel = select_bounds[OF assms(1) refl False]
    have d: "distinct (filter (\<lambda>c. rb_ExcludeClientIDs cfg c \<noteq> Some True) ?clients)"
      using assms(2) by (simp add: byNode_def)
    have "mset (evicted @ errs) \<subseteq># mset (filter (\<lambda>c. rb_ExcludeClientIDs cfg c \<noteq> Some True) ?clients)"
      using ev' sel(1) subset_mset.order_trans by blast
    note sub = distinct_submset[OF this d]
    have "length (evicted @ errs) \<le> length ?xs" using size_mset_mono[of "mset (evicted @ errs)" "mset ?xs"] ev' by simp
    then have len: "int (length (evicted @ errs)) \<le> int (length ?xs)" by simp
    have good: "good_node_result env cfg sessions average ?nr"
      using sub len sel by (auto simp: good_node_result_def byNode_def)
    obtain calls2 nrs2 stop2 where rec: "rebalance_nodes env cfg dryRun sessions average ns ws' = (calls2, nrs2, stop2)"
      using prod_cases3 by blast
    have "(stop1 \<and> calls = calls1 \<and> nrs = [?nr]) \<or> (\<not> stop1 \<and> calls = calls1 @ calls2 \<and> nrs = ?nr # nrs2)"
      using Cons.prems False ev rec by (auto simp: Let_def split: if_splits)
    then show ?thesis using good ev' Cons.IH[OF rec] by (elim disjE conjE) fastforce+
  qed
qed simp

subsection \<open>Ticks of the sweep\<close>

definition missing_at :: "sweep_input \<Rightarrow> string \<Rightarrow> bool" where
  "missing_at t n \<longleftrightarrow> n \<in> set (si_holding t) \<and> n \<notin> sweep_live t"

definition purge_due :: "sweep_input \<Rightarrow> RoutingSweep \<Rightarrow> string \<Rightarrow> bool" where
  "purge_due t s n \<longleftrightarrow> n \<notin> sweep_live t \<and> n \<notin> rs_flagged s \<and>
     (\<exists>since. rs_absentSince s n = Some since \<and> si_now t - since > rs_Threshold s)"

lemma sweep_visit_effect:
  assumes "sweep_visit t n (s, calls) = (s', calls')"
  shows "rs_Threshold s' = rs_Threshold s" "rs_PurgeNode s' = rs_PurgeNode s"
    "k \<noteq> n \<Longrightarrow> rs_absentSince s' k = rs_absentSince s k \<and> (k \<in> rs_flagged s' \<longleftrightarrow> k \<in> rs_flagged s)"
    "rs_absentSince s' n = (if n \<in> sweep_live t then None
       else case rs_absentSince s n of None \<Rightarrow> Some (si_now t) | Some x \<Rightarrow> Some x)"
    "set calls' \<subseteq> set calls \<union> (if purge_due t s n then {n} else {})"
    "n \<notin> sweep_live t \<Longrightarrow> n \<in> rs_flagged s \<Longrightarrow> n \<in> rs_flagged s'"
    "n \<in> set calls' \<Longrightarrow> n \<in> set calls \<or> \<not> si_purge t n \<or> n \<in> rs_flagged s'"
  using assms
  by (auto simp: sweep_visit_def sweep_clear_def purge_due_def split: if_splits option.splits)

lemma sweep_fold_effect:
  assumes "fold (sweep_visit t) ns (s, calls) = (s', calls')" "distinct ns"
  shows "rs_Threshold s' = rs_Threshold s \<and> rs_PurgeNode s' = rs_PurgeNode s \<and>
    (\<forall>k. k \<notin> set ns \<longrightarrow> rs_absentSince s' k = rs_absentSince s k \<and> (k \<in> rs_flagged s' \<longleftrightarrow> k \<in> rs_flagged s)) \<and>
    (\<forall>k\<in>set ns. rs_absentSince s' k = (if k \<in> sweep_live t then None
       else case rs_absentSince s k of None \<Rightarrow> Some (si_now t) | Some x \<Rightarrow> Some x)) \<and>
    (\<forall>k. k \<in> set calls' \<longrightarrow> k \<in> set calls \<or> (k \<in> set ns \<and> purge_due t s k)) \<and>
    (\<forall>k\<in>set ns. k \<notin> sweep_live t \<longrightarrow> k \<in> rs_flagged s \<longrightarrow> k \<in> rs_flagged s') \<and>
    (\<forall>k. k \<in> set calls' \<longrightarrow> k \<in> set calls \<or> \<not> si_purge t k \<or> k \<in> rs_flagged s')"
  using assms
proof (induction ns arbitrary: s calls)
  case (Cons n ns)
  obtain s1 calls1 where v: "sweep_visit t n (s, calls) = (s1, calls1)" by force
  note e = sweep_visit_effect[OF v]
  have n: "n \<notin> set ns" using Cons.prems(2) by simp
  have ih: "rs_Threshold s' = rs_Threshold s1 \<and> rs_PurgeNode s' = rs_PurgeNode s1 \<and>
    (\<forall>k. k \<notin> set ns \<longrightarrow> rs_absentSince s' k = rs_absentSince s1 k \<and> (k \<in> rs_flagged s' \<longleftrightarrow> k \<in> rs_flagged s1)) \<and>
    (\<forall>k\<in>set ns. rs_absentSince s' k = (if k \<in> sweep_live t then None
       else case rs_absentSince s1 k of None \<Rightarrow> Some (si_now t) | Some x \<Rightarrow> Some x)) \<and>
    (\<forall>k. k \<in> set calls' \<longrightarrow> k \<in> set calls1 \<or> (k \<in> set ns \<and> purge_due t s1 k)) \<and>
    (\<forall>k\<in>set ns. k \<notin> sweep_live t \<longrightarrow> k \<in> rs_flagged s1 \<longrightarrow> k \<in> rs_flagged s') \<and>
    (\<forall>k. k \<in> set calls' \<longrightarrow> k \<in> set calls1 \<or> \<not> si_purge t k \<or> k \<in> rs_flagged s')"
    using Cons.IH[of s1 calls1] Cons.prems v by simp
  have same: "rs_absentSince s1 k = rs_absentSince s k \<and> (k \<in> rs_flagged s1 \<longleftrightarrow> k \<in> rs_flagged s)" if "k \<in> set ns" for k
    by (rule e(3)) (use that n in auto)
  have due: "purge_due t s1 k = purge_due t s k" if "k \<in> set ns" for k
    using same[OF that] e(1) by (simp add: purge_due_def)
  have calls1: "k \<in> set calls1 \<Longrightarrow> k \<in> set calls \<or> (k = n \<and> purge_due t s n)" for k
    using e(5) by (auto split: if_splits)
  have old: "k \<in> set calls1 \<Longrightarrow> k \<in> set calls \<or> \<not> si_purge t k \<or> k \<in> rs_flagged s'" for k
    using calls1[of k] e(7) ih n by blast
  show ?case
  proof (intro conjI allI ballI impI)
    show "rs_Threshold s' = rs_Threshold s" "rs_PurgeNode s' = rs_PurgeNode s" using ih e(1,2) by auto
    fix k
    show "rs_absentSince s' k = rs_absentSince s k" "k \<in> rs_flagged s' \<longleftrightarrow> k \<in> rs_flagged s" if "k \<notin> set (n # ns)"
      using that ih e(3)[of k] by auto
    show "rs_absentSince s' k = (if k \<in> sweep_live t then None
       else case rs_absentSince s k of None \<Rightarrow> Some (si_now t) | Some x \<Rightarrow> Some x)" if "k \<in> set (n # ns)"
      using that ih e(4) same[of k] n by (cases "k = n") auto
    show "k \<in> set calls \<or> (k \<in> set (n # ns) \<and> purge_due t s k)" if "k \<in> set calls'"
      using that ih calls1[of k] due[of k] by auto
    show "k \<in> rs_flagged s'" if "k \<in> set (n # ns)" "k \<notin> sweep_live t" "k \<in> rs_flagged s"
      using that ih e(6) same[of k] n by (cases "k = n") auto
    show "k \<in> set calls \<or> \<not> si_purge t k \<or> k \<in> rs_flagged s'" if "k \<in> set calls'"
      using that ih old[of k] by blast
  qed
qed auto

lemma sweep_tick_effect:
  assumes "sweep_tick t s = (s', calls)"
  shows "rs_Threshold s' = rs_Threshold s"
    "rs_absentSince s' k = (if missing_at t k then Some (case rs_absentSince s k of None \<Rightarrow> si_now t | Some x \<Rightarrow> x) else None)"
    "k \<in> set calls \<Longrightarrow> missing_at t k \<and> purge_due t s k"
    "missing_at t k \<Longrightarrow> k \<in> rs_flagged s \<or> (k \<in> set calls \<and> si_purge t k) \<Longrightarrow> k \<in> rs_flagged s'"
proof -
  obtain s1 where f: "fold (sweep_visit t) (remdups (si_holding t)) (s, []) = (s1, calls)" and s': "s' = sweep_forget t s1"
    using assms by (auto simp: sweep_tick_def split: prod.splits)
  note e = sweep_fold_effect[OF f, simplified]
  show "rs_Threshold s' = rs_Threshold s" using e s' by (simp add: sweep_forget_def)
  show "rs_absentSince s' k = (if missing_at t k then Some (case rs_absentSince s k of None \<Rightarrow> si_now t | Some x \<Rightarrow> x) else None)"
    using e s' by (auto simp: sweep_forget_def missing_at_def split: option.splits)
  show "missing_at t k \<and> purge_due t s k" if "k \<in> set calls"
    using e that by (auto simp: missing_at_def purge_due_def)
  show "k \<in> rs_flagged s'" if "missing_at t k" "k \<in> rs_flagged s \<or> (k \<in> set calls \<and> si_purge t k)"
    using e that s' by (auto simp: sweep_forget_def missing_at_def)
qed

text \<open>The absence times are a debounced absence.\<close>

interpretation sweep_window: debounce rs_absentSince "\<lambda>t s. fst (sweep_tick t s)" si_now "\<lambda>_. missing_at"
proof (unfold_locales, goal_cases)
  case (1 t s k x)
  obtain s' calls where t: "sweep_tick t s = (s', calls)" by force
  from 1 sweep_tick_effect(2)[OF t, of k] t show ?case by (auto split: if_splits option.splits)
qed simp

lemma sweep_run_threshold: "rs_Threshold (fold (\<lambda>t s. fst (sweep_tick t s)) ts s) = rs_Threshold s"
proof (induction ts arbitrary: s)
  case (Cons t ts)
  obtain s' calls where t: "sweep_tick t s = (s', calls)" by force
  from Cons[of s'] sweep_tick_effect(1)[OF t] t show ?case by simp
qed simp

lemma sweep_run_flagged:
  assumes "k \<in> rs_flagged s" "\<forall>x\<in>set ts. missing_at x k"
  shows "k \<in> rs_flagged (fold (\<lambda>t s. fst (sweep_tick t s)) ts s)"
  using assms
proof (induction ts arbitrary: s)
  case (Cons t ts)
  obtain s' calls where t: "sweep_tick t s = (s', calls)" by force
  have "k \<in> rs_flagged s'" using sweep_tick_effect(4)[OF t, of k] Cons.prems by simp
  with Cons t show ?case by simp
qed simp

subsection \<open>Ticks of the monitor\<close>

lemma monitor_seen_effect:
  "mo_Threshold (monitor_seen t m) = mo_Threshold m"
  "mo_PurgeNode (monitor_seen t m) = mo_PurgeNode m"
  "k \<notin> core_ids t \<Longrightarrow> mo_lastSeen (monitor_seen t m) k = mo_lastSeen m k \<and> (k \<in> mo_warned (monitor_seen t m) \<longleftrightarrow> k \<in> mo_warned m)"
proof -
  let ?f = "\<lambda>meta m. if nm_Role meta \<noteq> RoleCore then m
    else m\<lparr>mo_lastSeen := (mo_lastSeen m)(nm_NodeID meta \<mapsto> mi_now t), mo_warned := mo_warned m - {nm_NodeID meta}\<rparr>"
  have "mo_Threshold (fold ?f ms m) = mo_Threshold m \<and> mo_PurgeNode (fold ?f ms m) = mo_PurgeNode m \<and>
    (k \<notin> nm_NodeID ` set (filter (\<lambda>meta. nm_Role meta = RoleCore) ms) \<longrightarrow>
      mo_lastSeen (fold ?f ms m) k = mo_lastSeen m k \<and> (k \<in> mo_warned (fold ?f ms m) \<longleftrightarrow> k \<in> mo_warned m))" for ms
    by (induction ms arbitrary: m) auto
  from this[of "mi_members t"] show "mo_Threshold (monitor_seen t m) = mo_Threshold m"
    "mo_PurgeNode (monitor_seen t m) = mo_PurgeNode m"
    "k \<notin> core_ids t \<Longrightarrow> mo_lastSeen (monitor_seen t m) k = mo_lastSeen m k \<and> (k \<in> mo_warned (monitor_seen t m) \<longleftrightarrow> k \<in> mo_warned m)"
    by (simp_all add: monitor_seen_def core_ids_def)
qed

lemma monitor_fold_effect:
  assumes "fold (monitor_visit t) ns (m, calls) = (m', calls')"
  shows "mo_Threshold m' = mo_Threshold m \<and> mo_lastSeen m' = mo_lastSeen m \<and> mo_warned m \<subseteq> mo_warned m' \<and>
    (\<forall>k\<in>set calls'. k \<in> set calls \<or> (k \<in> mo_warned m' \<and> k \<notin> mo_warned m \<and> k \<notin> core_ids t \<and>
       (\<exists>seenAt. mo_lastSeen m k = Some seenAt \<and> mi_now t - seenAt > mo_Threshold m)))"
  using assms
proof (induction ns arbitrary: m calls)
  case (Cons n ns)
  obtain m1 calls1 where v: "monitor_visit t n (m, calls) = (m1, calls1)" by force
  then have "mo_Threshold m1 = mo_Threshold m \<and> mo_lastSeen m1 = mo_lastSeen m \<and> mo_warned m \<subseteq> mo_warned m1 \<and>
    (\<forall>k\<in>set calls1. k \<in> set calls \<or> (k \<in> mo_warned m1 \<and> k \<notin> mo_warned m \<and> k \<notin> core_ids t \<and>
       (\<exists>seenAt. mo_lastSeen m k = Some seenAt \<and> mi_now t - seenAt > mo_Threshold m)))"
    by (auto simp: monitor_visit_def split: option.splits if_splits)
  moreover have "fold (monitor_visit t) ns (m1, calls1) = (m', calls')" using Cons.prems v by simp
  note Cons.IH[OF this]
  ultimately show ?case by (elim conjE) (intro conjI ballI, auto)
qed simp

lemma monitor_tick_effect:
  assumes "monitor_tick t m = (m', calls)"
  shows "k \<in> set calls \<Longrightarrow> k \<in> mo_warned m' \<and> k \<notin> core_ids t \<and> k \<notin> mo_warned m \<and>
      (\<exists>seenAt. mo_lastSeen m k = Some seenAt \<and> mi_now t - seenAt > mo_Threshold m)"
    "k \<notin> core_ids t \<Longrightarrow> k \<in> mo_warned m \<Longrightarrow> k \<in> mo_warned m'"
proof -
  have f: "fold (monitor_visit t) (mi_order t) (monitor_seen t m, []) = (m', calls)" using assms by (simp add: monitor_tick_def)
  note e = monitor_fold_effect[OF f] and s = monitor_seen_effect[where t = t and m = m]
  show "k \<in> mo_warned m' \<and> k \<notin> core_ids t \<and> k \<notin> mo_warned m \<and>
      (\<exists>seenAt. mo_lastSeen m k = Some seenAt \<and> mi_now t - seenAt > mo_Threshold m)" if "k \<in> set calls"
  proof -
    have "\<forall>k\<in>set calls. k \<in> mo_warned m' \<and> k \<notin> mo_warned (monitor_seen t m) \<and> k \<notin> core_ids t \<and>
        (\<exists>seenAt. mo_lastSeen (monitor_seen t m) k = Some seenAt \<and> mi_now t - seenAt > mo_Threshold (monitor_seen t m))"
      using e by simp
    from bspec[OF this that] show ?thesis using s(1) s(3)[where k = k] by simp
  qed
  show "k \<in> mo_warned m'" if "k \<notin> core_ids t" "k \<in> mo_warned m"
    using e that(2) s(3)[where k = k, OF that(1)] by blast
qed

lemma monitor_run_warned:
  assumes "k \<in> mo_warned m" "\<forall>x\<in>set ts. k \<notin> core_ids x"
  shows "k \<in> mo_warned (fold (\<lambda>t m. fst (monitor_tick t m)) ts m)"
  using assms
proof (induction ts arbitrary: m)
  case (Cons t ts)
  obtain m' calls where t: "monitor_tick t m = (m', calls)" by force
  have "k \<in> mo_warned m'" using monitor_tick_effect(2)[OF t, of k] Cons.prems by simp
  with Cons t show ?case by simp
qed simp

subsection \<open>Examples\<close>

text \<open>Three edge nodes with two, one and one sessions.\<close>

definition rebalance_example :: rebalance_env where
  "rebalance_example = \<lparr>re_nodeOrder = [''e1'', ''e2'', ''e3''], re_sessionOrder = [''a'', ''b'', ''c'', ''d''],
     re_shuffle = (\<lambda>_ xs. rev xs), re_evict = (\<lambda>_ _. True), re_done = []\<rparr>"

definition example_sessions :: "string \<rightharpoonup> string" where
  "example_sessions = [''a'' \<mapsto> ''e1'', ''b'' \<mapsto> ''e1'', ''c'' \<mapsto> ''e2'', ''d'' \<mapsto> ''e3'']"

definition example_live :: "string \<rightharpoonup> bool" where
  "example_live = [''e1'' \<mapsto> True, ''e2'' \<mapsto> True, ''e3'' \<mapsto> True]"

definition example_result :: RebalanceResult where
  "example_result = \<lparr>rr_DryRun = False, rr_LiveEdgeNodes = 3, rr_TotalSessions = 4, rr_Average = 4 / 3,
     rr_Nodes = [\<lparr>nr_NodeID = ''e1'', nr_Before = 2, nr_Target = 1, nr_Evicted = [''b''], nr_EvictErrs = []\<rparr>]\<rparr>"

lemma rebalance_example_run:
  "Rebalance rebalance_example example_sessions example_live DefaultRebalanceConfig True False =
     ([(''e1'', ''b'')], Some example_result, None)"
proof -
  have "\<lfloor>11 / 6 :: rat\<rfloor> = 1" by (simp add: floor_eq_iff)
  then show ?thesis
    by (simp add: Rebalance_def rebalance_example_def example_sessions_def example_live_def DefaultRebalanceConfig_def
        example_result_def byNode_def select_evictions_def Let_def go_round_def)
qed

lemma rebalance_example_fair: "fair_shuffle rebalance_example" "distinct (re_sessionOrder rebalance_example)"
  by (simp_all add: fair_shuffle_def rebalance_example_def)

definition sweep_example :: "int \<Rightarrow> sweep_input" where
  "sweep_example now = \<lparr>si_now = now, si_members = [], si_holding = [''e1''], si_purge = (\<lambda>_. True)\<rparr>"

definition armed_sweep :: "int \<Rightarrow> RoutingSweep" where
  "armed_sweep threshold = (NewRoutingSweep threshold)\<lparr>rs_PurgeNode := True\<rparr>"

lemma armed_sweep_fields [simp]: "rs_absentSince (armed_sweep thr) = Map.empty" "rs_Threshold (armed_sweep thr) = thr"
  by (simp_all add: armed_sweep_def NewRoutingSweep_def Let_def)

lemma sweep_example_purges:
  "''e1'' \<in> set (snd (sweep_tick (sweep_example 11) (fst (sweep_tick (sweep_example 0) (armed_sweep 10)))))"
  by (simp add: sweep_tick_def sweep_example_def sweep_visit_def sweep_live_def sweep_forget_def armed_sweep_def
      NewRoutingSweep_def Let_def)

definition monitor_example :: "int \<Rightarrow> NodeMeta list \<Rightarrow> monitor_input" where
  "monitor_example now ms = \<lparr>mi_now = now, mi_members = ms, mi_order = [''n0''], mi_purge = (\<lambda>_. False)\<rparr>"

definition armed_monitor :: "int \<Rightarrow> Monitor" where
  "armed_monitor threshold = (NewMonitor threshold)\<lparr>mo_PurgeNode := True\<rparr>"

definition monitor_example_state :: Monitor where
  "monitor_example_state = fst (monitor_tick (monitor_example 0 [core_meta ''n0'' '''']) (armed_monitor 10))"

lemma monitor_example_purges: "''n0'' \<in> set (snd (monitor_tick (monitor_example 11 []) monitor_example_state))"
  by (simp add: monitor_example_state_def monitor_tick_def monitor_example_def monitor_seen_def monitor_visit_def core_ids_def
      core_meta_def RoleCore_def armed_monitor_def NewMonitor_def Let_def)

subsection \<open>Properties\<close>

text \<open>C21. What a rebalance pass may do: whatever order the map iterations take and however the
  candidates are shuffled, every node a pass acts on is a live edge node whose session count exceeds
  the average by more than the configured fraction; the clients selected there are distinct, hold a
  session on that node, are not excluded, and are at most the configured maximum and at most as many
  as leave the node its target. Every eviction asked for is one of those clients on that node, and a
  dry run asks for none.\<close>

theorem rebalance_bounded:
  assumes "fair_shuffle env" "distinct (re_sessionOrder env)"
    and "Rebalance env sessions live cfg evictor dryRun = (calls, Some r, err)"
  shows "(\<forall>nr\<in>set (rr_Nodes r). live (nr_NodeID nr) = Some True \<and> nr_Target nr = go_round (rr_Average r) \<and>
        nr_Before nr = int (length (byNode env sessions (nr_NodeID nr))) \<and>
        of_int (nr_Before nr) > rr_Average r * (1 + rb_ImbalanceThreshold cfg) \<and>
        distinct (nr_Evicted nr @ nr_EvictErrs nr) \<and>
        (\<forall>c\<in>set (nr_Evicted nr @ nr_EvictErrs nr). sessions c = Some (nr_NodeID nr) \<and> rb_ExcludeClientIDs cfg c \<noteq> Some True) \<and>
        int (length (nr_Evicted nr @ nr_EvictErrs nr)) \<le> rb_MaxEvictionsPerNode cfg \<and>
        nr_Before nr - int (length (nr_Evicted nr @ nr_EvictErrs nr)) \<ge> nr_Target nr) \<and>
     (\<forall>(n, c)\<in>set calls. \<exists>nr\<in>set (rr_Nodes r). nr_NodeID nr = n \<and> c \<in> set (nr_Evicted nr @ nr_EvictErrs nr)) \<and>
     (dryRun \<longrightarrow> calls = [])"
proof -
  let ?ns = "filter (\<lambda>n. live n = Some True) (re_nodeOrder env)"
  show ?thesis
  proof (cases "?ns = []")
    case True
    with assms(3) have "calls = [] \<and> rr_Nodes r = []" by (auto simp: Rebalance_def Let_def split: if_splits)
    then show ?thesis by simp
  next
    case False
    then obtain nrs stop where run: "rebalance_nodes env cfg dryRun sessions (rr_Average r) ?ns (re_done env) = (calls, nrs, stop)"
      and nrs: "rr_Nodes r = nrs"
      using assms(3) by (auto simp: Rebalance_def Let_def split: if_splits prod.splits)
    note b = rebalance_nodes_bounds[OF assms(1,2) run]
    have "live (nr_NodeID nr) = Some True \<and> good_node_result env cfg sessions (rr_Average r) nr" if "nr \<in> set nrs" for nr
      using b that by auto
    then show ?thesis unfolding nrs good_node_result_def using b by blast
  qed
qed

theorem rebalance_bounded_witness:
  "nr_Before (hd (rr_Nodes example_result)) - int (length (nr_Evicted (hd (rr_Nodes example_result)))) \<ge> go_round (rr_Average example_result) \<and>
   example_live ''e1'' = Some True \<and> example_sessions ''b'' = Some ''e1''"
  using rebalance_bounded[OF rebalance_example_fair rebalance_example_run] by (simp add: example_result_def)

text \<open>A rebalance pass can leave a node below the average: its target is the average rounded to the
  nearest number, so with two, one and one sessions on three nodes it evicts one of the two clients of
  the first, although the average is above one.\<close>

lemma rebalance_below_average:
  "Rebalance rebalance_example example_sessions example_live DefaultRebalanceConfig True False =
     ([(''e1'', ''b'')], Some example_result, None)"
  "\<exists>nr\<in>set (rr_Nodes example_result). of_int (nr_Before nr - int (length (nr_Evicted nr))) < rr_Average example_result"
  by (simp_all only: rebalance_example_run) (simp add: example_result_def)

text \<open>C22. The routing sweep purges only the vanished: over any run of ticks of a fresh sweep, a tick
  that purges a node is preceded by a tick more than the threshold earlier, and from that tick on, the
  purging one included, the node held routing entries and was missing from gossip at every tick.\<close>

theorem routing_sweep_purges_vanished:
  assumes "n \<in> set (snd (sweep_tick t (fold (\<lambda>t s. fst (sweep_tick t s)) ticks (armed_sweep threshold))))"
  shows "\<exists>pre u post. ticks = pre @ u # post \<and> si_now t - si_now u > threshold \<and>
     (\<forall>x\<in>set (u # post @ [t]). n \<in> set (si_holding x) \<and> n \<notin> sweep_live x)"
proof -
  let ?s = "fold (\<lambda>t s. fst (sweep_tick t s)) ticks (armed_sweep threshold)"
  obtain s' calls where t: "sweep_tick t ?s = (s', calls)" by force
  with assms have "missing_at t n" "purge_due t ?s n" using sweep_tick_effect(3)[OF t, of n] by auto
  then obtain since where since: "rs_absentSince ?s n = Some since" "si_now t - since > threshold"
    by (auto simp: purge_due_def sweep_run_threshold)
  from sweep_window.since_run[OF _ since(1)] obtain pre u post where
    u: "ticks = pre @ u # post" "si_now u = since" "\<forall>x\<in>set (u # post). missing_at x n" by auto
  have "si_now t - si_now u > threshold" using since(2) u(2) by simp
  moreover have "\<forall>x\<in>set (u # post @ [t]). n \<in> set (si_holding x) \<and> n \<notin> sweep_live x"
    using u(3) \<open>missing_at t n\<close> by (auto simp: missing_at_def)
  ultimately show ?thesis using u(1) by blast
qed

theorem routing_sweep_purges_vanished_witness:
  "\<exists>pre u post. [sweep_example 0] = pre @ u # post \<and> (11::int) - si_now u > 10"
proof -
  have "''e1'' \<in> set (snd (sweep_tick (sweep_example 11) (fold (\<lambda>t s. fst (sweep_tick t s)) [sweep_example 0] (armed_sweep 10))))"
    using sweep_example_purges by simp
  from routing_sweep_purges_vanished[OF this] obtain pre u post where
    "[sweep_example 0] = pre @ u # post" "si_now (sweep_example 11) - si_now u > 10" by blast
  then show ?thesis by (intro exI[of _ pre] exI[of _ u] exI[of _ post]) (simp add: sweep_example_def)
qed




end
