(* ===== verification/Connector.thy ===== *)
theory Connector
  imports Hooks "HOL-Library.Multiset"
begin

text \<open>
  Output connectors (\<^verbatim>\<open>internal/connector\<close>): the bounded buffer that drops its oldest request
  (\<^verbatim>\<open>buffer.go\<close>), the connector that drains it with retries (\<^verbatim>\<open>buffered.go\<close>), the fan-out over the
  configured connectors (\<^verbatim>\<open>fanout.go\<close>) and the Kafka connector (\<^verbatim>\<open>kafka_hono.go\<close>), together with the
  requests the broker hook hands over (\<^verbatim>\<open>hooks.go\<close>) and the command consumer (\<^verbatim>\<open>commander.go\<close>).

  Publishing, draining and shutting down run concurrently, so the buffered connector is a step
  relation: one step per push, per request taken off the buffer, per finished forwarding, and for
  closing and cancelling. The state carries the history of every request beside the counters of the
  code. What the wrapped connector answers to an attempt and whether the context ends during a wait
  are chosen by the step. The producer, the UUID parser and the JSON encoder are parameters.

  The locale \<open>drop_oldest\<close> is the contract of an output buffer; the lemmas show that the buffer keeps
  the newest requests, that no request is lost without a trace in the history, which losses the
  counters miss, and which topics the Kafka connector forwards.
\<close>

subsection \<open>Requests\<close>

record ForwardRequest =
  fr_Topic :: string
  fr_Payload :: string
  fr_Headers :: "string \<rightharpoonup> string"
  fr_DeviceId :: string
  fr_TenantId :: string
  fr_TenantSlug :: string
  fr_FleetId :: string

record ForwardResponse =
  fs_Success :: bool
  fs_Error :: string

definition ConnectionEventTopic :: string where
  "ConnectionEventTopic = ''$connection''"

subsection \<open>MemoryOutputBuffer\<close>

record MemoryOutputBuffer =
  ob_items :: "ForwardRequest list"
  ob_capacity :: int
  ob_closed :: bool

definition NewMemoryOutputBuffer :: "int \<Rightarrow> MemoryOutputBuffer" where
  "NewMemoryOutputBuffer capacity =
     \<lparr>ob_items = [], ob_capacity = (if capacity \<le> 0 then 1 else capacity), ob_closed = False\<rparr>"

definition Push :: "ForwardRequest \<Rightarrow> MemoryOutputBuffer \<Rightarrow> MemoryOutputBuffer \<times> ForwardRequest option" where
  "Push req b =
     (if ob_closed b then (b, None)
      else if int (length (ob_items b)) \<ge> ob_capacity b
      then (b\<lparr>ob_items := tl (ob_items b) @ [req]\<rparr>, Some (hd (ob_items b)))
      else (b\<lparr>ob_items := ob_items b @ [req]\<rparr>, None))"

text \<open>One pass of the loop of \<open>Next\<close>: a request, the end, or a wait for a signal or the context.\<close>

datatype next_result = NextGot ForwardRequest | NextEnd | NextWait

definition Next :: "MemoryOutputBuffer \<Rightarrow> MemoryOutputBuffer \<times> next_result" where
  "Next b =
     (case ob_items b of
        req # rest \<Rightarrow> (b\<lparr>ob_items := rest\<rparr>, NextGot req)
      | [] \<Rightarrow> (b, if ob_closed b then NextEnd else NextWait))"

definition Len :: "MemoryOutputBuffer \<Rightarrow> int" where
  "Len b = int (length (ob_items b))"

definition Close :: "MemoryOutputBuffer \<Rightarrow> MemoryOutputBuffer" where
  "Close b = b\<lparr>ob_closed := True\<rparr>"

subsection \<open>BufferedConnector\<close>

definition forwardRetryBackoff :: "int list" where
  "forwardRetryBackoff = [0, 200000000, 1000000000]"

text \<open>The answer of the wrapped connector to one attempt.\<close>

datatype inner_answer = InnerErr string | InnerResp ForwardResponse | InnerNil

datatype forward_outcome = Forwarded | ForwardDropped | ForwardAbandoned

definition attempt_ok :: "inner_answer \<Rightarrow> bool" where
  "attempt_ok a = (case a of InnerResp r \<Rightarrow> fs_Success r | _ \<Rightarrow> False)"

text \<open>The retry loop: the answers of the attempts and, for each wait before a retry, whether the context
  ended. The second component is the number of attempts made.\<close>

fun retry_loop :: "nat \<Rightarrow> int list \<Rightarrow> inner_answer list \<Rightarrow> bool list \<Rightarrow> forward_outcome \<times> nat" where
  "retry_loop i [] answers waits = (ForwardDropped, 0)"
| "retry_loop i (d # ds) answers waits =
     (if i > 0 \<and> waits \<noteq> [] \<and> hd waits then (ForwardAbandoned, 0)
      else let waits' = (if i > 0 then tl waits else waits);
               answer = (case answers of [] \<Rightarrow> InnerNil | a # _ \<Rightarrow> a) in
        if attempt_ok answer then (Forwarded, 1)
        else case retry_loop (Suc i) ds (tl answers) waits' of (outcome, n) \<Rightarrow> (outcome, Suc n))"

definition forwardWithRetry :: "inner_answer list \<Rightarrow> bool list \<Rightarrow> forward_outcome \<times> nat" where
  "forwardWithRetry answers waits = retry_loop 0 forwardRetryBackoff answers waits"

text \<open>The connector and its history: the requests pushed, refused by a closed buffer, dropped from a full
  one, handed to the retry loop, and how that ended. \<open>bc_full\<close> and \<open>bc_error\<close> are the two labels of
  the drop counter.\<close>

record BufferedConnector =
  bc_buf :: MemoryOutputBuffer
  bc_cancelled :: bool
  bc_full :: nat
  bc_error :: nat
  bc_busy :: "ForwardRequest option"
  h_pushed :: "ForwardRequest list"
  h_refused :: "ForwardRequest list"
  h_overflow :: "ForwardRequest list"
  h_taken :: "ForwardRequest list"
  h_delivered :: "ForwardRequest list"
  h_failed :: "ForwardRequest list"
  h_abandoned :: "ForwardRequest list"

definition NewBuffered :: "int \<Rightarrow> BufferedConnector" where
  "NewBuffered capacity =
     \<lparr>bc_buf = NewMemoryOutputBuffer capacity, bc_cancelled = False, bc_full = 0, bc_error = 0, bc_busy = None,
      h_pushed = [], h_refused = [], h_overflow = [], h_taken = [], h_delivered = [], h_failed = [], h_abandoned = []\<rparr>"

text \<open>\<open>Forward\<close> answers success whatever became of the request.\<close>

definition BufferedConnector_Forward :: "ForwardRequest \<Rightarrow> BufferedConnector \<Rightarrow> BufferedConnector \<times> ForwardResponse" where
  "BufferedConnector_Forward req b =
     (case Push req (bc_buf b) of
        (buf, dropped) \<Rightarrow>
          (b\<lparr>bc_buf := buf,
             bc_full := (case dropped of Some _ \<Rightarrow> Suc (bc_full b) | None \<Rightarrow> bc_full b),
             h_overflow := (case dropped of Some r \<Rightarrow> h_overflow b @ [r] | None \<Rightarrow> h_overflow b),
             h_refused := (if ob_closed (bc_buf b) then h_refused b @ [req] else h_refused b),
             h_pushed := h_pushed b @ [req]\<rparr>,
           \<lparr>fs_Success = True, fs_Error = ''''\<rparr>))"

text \<open>The drain loop takes a request when it is between two, and then runs the retry loop on it.\<close>

definition drain_take :: "BufferedConnector \<Rightarrow> BufferedConnector option" where
  "drain_take b =
     (case bc_busy b of
        Some _ \<Rightarrow> None
      | None \<Rightarrow> (case Next (bc_buf b) of
                   (buf, NextGot req) \<Rightarrow> Some (b\<lparr>bc_buf := buf, bc_busy := Some req, h_taken := h_taken b @ [req]\<rparr>)
                 | _ \<Rightarrow> None))"

definition drain_finish :: "inner_answer list \<Rightarrow> bool list \<Rightarrow> BufferedConnector \<Rightarrow> BufferedConnector option" where
  "drain_finish answers waits b =
     (case bc_busy b of
        None \<Rightarrow> None
      | Some req \<Rightarrow>
          (case fst (forwardWithRetry answers waits) of
             Forwarded \<Rightarrow> Some (b\<lparr>bc_busy := None, h_delivered := h_delivered b @ [req]\<rparr>)
           | ForwardDropped \<Rightarrow> Some (b\<lparr>bc_busy := None, bc_error := Suc (bc_error b), h_failed := h_failed b @ [req]\<rparr>)
           | ForwardAbandoned \<Rightarrow> Some (b\<lparr>bc_busy := None, h_abandoned := h_abandoned b @ [req]\<rparr>)))"

text \<open>\<open>Shutdown\<close> closes the buffer and then cancels the context of the drain loop, which may also be
  cancelled from above. A wait ends early only once the context is cancelled.\<close>

inductive bc_step :: "BufferedConnector \<Rightarrow> BufferedConnector \<Rightarrow> bool" where
  push: "bc_step b (fst (BufferedConnector_Forward req b))"
| take: "drain_take b = Some b' \<Longrightarrow> bc_step b b'"
| finish: "drain_finish answers waits b = Some b' \<Longrightarrow> (True \<in> set waits \<Longrightarrow> bc_cancelled b) \<Longrightarrow> bc_step b b'"
| close: "bc_step b (b\<lparr>bc_buf := Close (bc_buf b)\<rparr>)"
| cancel: "bc_step b (b\<lparr>bc_cancelled := True\<rparr>)"

inductive bc_reachable :: "int \<Rightarrow> BufferedConnector \<Rightarrow> bool" for capacity where
  init: "bc_reachable capacity (NewBuffered capacity)"
| step: "bc_reachable capacity b \<Longrightarrow> bc_step b b' \<Longrightarrow> bc_reachable capacity b'"

subsection \<open>FanOut\<close>

text \<open>What the goroutine of one connector logs: nothing, an error, a failure, or a recovered panic, which
  a nil response without error also causes.\<close>

datatype fanout_log = FanOk | FanError | FanFailed | FanPanicked

definition fanout_one :: "inner_answer option \<Rightarrow> fanout_log" where
  "fanout_one answer =
     (case answer of
        None \<Rightarrow> FanPanicked
      | Some InnerNil \<Rightarrow> FanPanicked
      | Some (InnerErr _) \<Rightarrow> FanError
      | Some (InnerResp r) \<Rightarrow> if fs_Success r then FanOk else FanFailed)"

text \<open>One answer per connector; \<open>None\<close> is a panic inside it.\<close>

definition FanOut :: "(ForwardRequest \<Rightarrow> inner_answer option) list \<Rightarrow> ForwardRequest \<Rightarrow> fanout_log list" where
  "FanOut conns req = map (\<lambda>conn. fanout_one (conn req)) conns"

definition device_request :: "DeviceInfo \<Rightarrow> string \<Rightarrow> string \<Rightarrow> ForwardRequest" where
  "device_request info topic payload =
     \<lparr>fr_Topic = topic, fr_Payload = payload, fr_Headers = [''content-type'' \<mapsto> ''application/json''],
      fr_DeviceId = di_ID info, fr_TenantId = di_TenantID info, fr_TenantSlug = di_TenantSlug info,
      fr_FleetId = di_FleetIDStr info\<rparr>"

subsection \<open>KafkaHonoConnector\<close>

record KafkaHonoConfig =
  kc_Brokers :: "string list"
  kc_SASLUsername :: string
  kc_SASLPassword :: string
  kc_TopicPrefix :: string
  kc_ClientID :: string
  kc_Enabled :: bool

record KafkaHonoConnector =
  kf_config :: KafkaHonoConfig
  kf_producer :: bool

datatype kafka_error = MissingBrokers | CreateProducer | ProducerNotInitialized

definition config_value :: "(string \<rightharpoonup> string) \<Rightarrow> string \<Rightarrow> string" where
  "config_value config key = (case config key of Some v \<Rightarrow> v | None \<Rightarrow> '''')"

text \<open>\<^verbatim>\<open>strings.TrimSpace\<close>, for the white space of ASCII.\<close>

definition is_space :: "char \<Rightarrow> bool" where
  "is_space c \<longleftrightarrow> c = CHR '' '' \<or> c = CHR 0x09 \<or> c = CHR 0x0A \<or> c = CHR 0x0B \<or> c = CHR 0x0C \<or> c = CHR 0x0D"

definition trim_space :: "string \<Rightarrow> string" where
  "trim_space s = rev (dropWhile is_space (rev (dropWhile is_space s)))"

text \<open>The loop over a comma-separated list that keeps its non-empty trimmed parts.\<close>

definition comma_list :: "string \<Rightarrow> string list" where
  "comma_list v = filter (\<lambda>s. s \<noteq> '''') (map trim_space (go_split CHR '','' v))"

text \<open>\<open>created\<close> says whether the producer can be created.\<close>

definition KafkaHono_Init :: "bool \<Rightarrow> (string \<rightharpoonup> string) \<Rightarrow> KafkaHonoConnector \<Rightarrow> KafkaHonoConnector \<times> kafka_error option" where
  "KafkaHono_Init created config k =
     (let pfx = config_value config ''topic_prefix'';
          cid = config_value config ''client_id'';
          cfg = \<lparr>kc_Brokers = [], kc_SASLUsername = config_value config ''sasl_username'',
                 kc_SASLPassword = config_value config ''sasl_password'',
                 kc_TopicPrefix = (if pfx = '''' then ''hono'' else pfx),
                 kc_ClientID = (if cid = '''' then ''keel-mqtt-gateway-kafka-hono'' else cid),
                 kc_Enabled = (config_value config ''enabled'' = ''true'')\<rparr>;
          k = k\<lparr>kf_config := cfg\<rparr>
      in if \<not> kc_Enabled cfg then (k, None)
         else let brokersStr = config_value config ''brokers'' in
           if brokersStr = '''' then (k, Some MissingBrokers)
           else let k = k\<lparr>kf_config := cfg\<lparr>kc_Brokers := comma_list brokersStr\<rparr>\<rparr> in
             if \<not> created then (k, Some CreateProducer) else (k\<lparr>kf_producer := True\<rparr>, None))"

definition stripViaPrefix :: "uuid_parser \<Rightarrow> string \<Rightarrow> string" where
  "stripViaPrefix parse topic =
     (if \<not> has_prefix topic ''via/'' then topic
      else case cut_first CHR ''/'' (drop 4 topic) of
        None \<Rightarrow> topic
      | Some (subID, rest) \<Rightarrow> if parse subID = None then topic else rest)"

definition categoryFromTopic :: "uuid_parser \<Rightarrow> string \<Rightarrow> string" where
  "categoryFromTopic parse topic =
     (let first = takeWhile (\<lambda>c. c \<noteq> CHR ''/'') (stripViaPrefix parse topic) in
      if first = ''telemetry'' \<or> first = ''t'' then ''telemetry''
      else if first = ''event'' \<or> first = ''e'' then ''event''
      else '''')"

record kafka_message =
  km_Topic :: string
  km_Key :: string
  km_Value :: string
  km_Headers :: "string \<rightharpoonup> string"

text \<open>\<open>publish\<close> is the producer: \<open>None\<close> on success, else its error. The first component of the result is
  what was handed to it.\<close>

definition KafkaHono_Forward ::
  "uuid_parser \<Rightarrow> (kafka_message \<Rightarrow> string option) \<Rightarrow> KafkaHonoConnector \<Rightarrow> ForwardRequest \<Rightarrow> kafka_message option \<times> ForwardResponse" where
  "KafkaHono_Forward parse publish k req =
     (if \<not> kc_Enabled (kf_config k) \<or> \<not> kf_producer k then (None, \<lparr>fs_Success = True, fs_Error = ''''\<rparr>)
      else let category = categoryFromTopic parse (fr_Topic req) in
        if category = '''' then (None, \<lparr>fs_Success = False, fs_Error = ''unknown topic category: '' @ fr_Topic req\<rparr>)
        else let headers = [''device_id'' \<mapsto> fr_DeviceId req, ''tenant_id'' \<mapsto> fr_TenantId req];
                 headers = (case fr_Headers req ''content-type'' of Some ct \<Rightarrow> headers(''content-type'' \<mapsto> ct) | None \<Rightarrow> headers);
                 msg = \<lparr>km_Topic = kc_TopicPrefix (kf_config k) @ ''.'' @ category @ ''.'' @ fr_TenantId req,
                        km_Key = fr_DeviceId req, km_Value = fr_Payload req, km_Headers = headers\<rparr>
          in case publish msg of
               Some err \<Rightarrow> (Some msg, \<lparr>fs_Success = False, fs_Error = err\<rparr>)
             | None \<Rightarrow> (Some msg, \<lparr>fs_Success = True, fs_Error = ''''\<rparr>))"

definition KafkaHono_HealthCheck :: "KafkaHonoConnector \<Rightarrow> kafka_error option" where
  "KafkaHono_HealthCheck k =
     (if \<not> kc_Enabled (kf_config k) then None else if \<not> kf_producer k then Some ProducerNotInitialized else None)"

definition KafkaHono_Shutdown :: "KafkaHonoConnector \<Rightarrow> KafkaHonoConnector" where
  "KafkaHono_Shutdown k = k\<lparr>kf_producer := False\<rparr>"

subsection \<open>Commander\<close>

record PlatformCommand =
  pc_DeviceID :: string
  pc_TenantID :: string
  pc_Type :: string
  pc_Payload :: string

text \<open>\<open>reqID\<close> is the fresh request identifier and \<open>envelope\<close> the encoding of the legacy payload, \<open>None\<close>
  when it fails. The result is what is published, with quality of service 1 and not retained, and
  whether the message is answered with an error.\<close>

definition Commander_handle ::
  "string \<Rightarrow> (string \<Rightarrow> string \<Rightarrow> string option) \<Rightarrow> (string \<Rightarrow> string \<Rightarrow> bool) \<Rightarrow> PlatformCommand option \<Rightarrow>
   (string \<times> string) option \<times> bool" where
  "Commander_handle reqID envelope publish decoded =
     (case decoded of
        None \<Rightarrow> (None, False)
      | Some cmd \<Rightarrow>
          if pc_DeviceID cmd = '''' then (None, False)
          else let subject = (if pc_Type cmd = '''' then ''req'' else pc_Type cmd) in
            if pc_TenantID cmd \<noteq> '''' then
              let topic = ''command/'' @ pc_TenantID cmd @ ''//'' @ pc_DeviceID cmd @ ''/req/'' @ reqID @ ''/'' @ subject in
              (Some (topic, pc_Payload cmd), \<not> publish topic (pc_Payload cmd))
            else case envelope (pc_Type cmd) (pc_Payload cmd) of
                None \<Rightarrow> (None, True)
              | Some payload \<Rightarrow>
                  let topic = ''command/'' @ pc_DeviceID cmd in (Some (topic, payload), \<not> publish topic payload))"

subsection \<open>The contract of an output buffer\<close>

locale drop_oldest =
  fixes push :: "'r \<Rightarrow> 'b \<Rightarrow> 'b \<times> 'r option"
    and items :: "'b \<Rightarrow> 'r list"
    and cap :: "'b \<Rightarrow> nat"
    and ready :: "'b \<Rightarrow> bool"
  assumes push_ready: "ready b \<Longrightarrow> ready (fst (push r b)) \<and> cap (fst (push r b)) = cap b"
    and push_items: "ready b \<Longrightarrow> items (fst (push r b)) =
      (if length (items b) < cap b then items b @ [r] else tl (items b) @ [r])"
    and push_dropped: "ready b \<Longrightarrow> snd (push r b) = (if length (items b) < cap b then None else Some (hd (items b)))"
    and ready_bound: "ready b \<Longrightarrow> 0 < cap b \<and> length (items b) \<le> cap b"
begin

lemma push_keeps_newest: "ready b \<Longrightarrow> items (fst (push r b)) = drop (Suc (length (items b)) - cap b) (items b @ [r])"
proof -
  assume b: "ready b"
  show ?thesis
  proof (cases "length (items b) < cap b")
    case True
    then show ?thesis using push_items[OF b] by simp
  next
    case False
    then have "length (items b) = cap b" "items b \<noteq> []" using ready_bound[OF b] by auto
    then show ?thesis using push_items[OF b] by (cases "items b") simp_all
  qed
qed

lemma push_run:
  "ready b \<Longrightarrow> items (fold (\<lambda>r b. fst (push r b)) rs b) = drop (length (items b) + length rs - cap b) (items b @ rs)"
proof (induction rs arbitrary: b)
  case Nil
  then show ?case using ready_bound[of b] by simp
next
  case (Cons r rs)
  let ?k = "Suc (length (items b)) - cap b"
  let ?m = "Suc (length (items b)) - ?k + length rs - cap b"
  note new = push_keeps_newest[OF Cons.prems, of r] and ready = push_ready[OF Cons.prems, of r]
  have len: "length (items (fst (push r b))) = Suc (length (items b)) - ?k" using new by simp
  have "items (fold (\<lambda>r b. fst (push r b)) (r # rs) b) = items (fold (\<lambda>r b. fst (push r b)) rs (fst (push r b)))" by simp
  also have "\<dots> = drop ?m (items (fst (push r b)) @ rs)"
    unfolding Cons.IH[OF conjunct1[OF ready]] conjunct2[OF ready] len ..
  also have "\<dots> = drop ?m (drop ?k (items b @ [r]) @ rs)" unfolding new ..
  also have "drop ?k (items b @ [r]) @ rs = drop ?k (items b @ r # rs)"
    using ready_bound[OF Cons.prems] by (simp add: drop_append)
  also have "?m + ?k = length (items b) + length (r # rs) - cap b" using ready_bound[OF Cons.prems] by simp
  then have "drop ?m (drop ?k (items b @ r # rs)) = drop (length (items b) + length (r # rs) - cap b) (items b @ r # rs)"
    by (simp only: drop_drop)
  finally show ?case .
qed

end

definition buffer_ready :: "MemoryOutputBuffer \<Rightarrow> bool" where
  "buffer_ready b \<longleftrightarrow> \<not> ob_closed b \<and> 0 < ob_capacity b \<and> int (length (ob_items b)) \<le> ob_capacity b"

lemma Push_ready:
  "buffer_ready b \<Longrightarrow> Push r b =
     (if length (ob_items b) < nat (ob_capacity b) then (b\<lparr>ob_items := ob_items b @ [r]\<rparr>, None)
      else (b\<lparr>ob_items := tl (ob_items b) @ [r]\<rparr>, Some (hd (ob_items b))))"
  by (auto simp: Push_def buffer_ready_def)

interpretation mem_buffer: drop_oldest Push ob_items "\<lambda>b. nat (ob_capacity b)" buffer_ready
proof (unfold_locales, goal_cases)
  case (1 b r)
  moreover from 1 have "ob_items b \<noteq> [] \<or> length (ob_items b) < nat (ob_capacity b)" by (auto simp: buffer_ready_def)
  ultimately show ?case by (auto simp: Push_ready) (auto simp: buffer_ready_def)
qed (auto simp: Push_ready, auto simp: buffer_ready_def)

subsection \<open>Conservation of requests\<close>

definition busy_list :: "BufferedConnector \<Rightarrow> ForwardRequest list" where
  "busy_list b = (case bc_busy b of None \<Rightarrow> [] | Some r \<Rightarrow> [r])"

text \<open>\<open>pre\<close> are the accepted requests that have left the buffer.\<close>

definition bc_inv :: "int \<Rightarrow> BufferedConnector \<Rightarrow> bool" where
  "bc_inv capacity b \<longleftrightarrow>
     ob_capacity (bc_buf b) = (if capacity \<le> 0 then 1 else capacity) \<and>
     int (length (ob_items (bc_buf b))) \<le> ob_capacity (bc_buf b) \<and>
     (\<exists>pre. h_pushed b = pre @ ob_items (bc_buf b) @ h_refused b \<and>
        mset pre = mset (h_overflow b) + mset (h_taken b) \<and> subseq (h_taken b) pre) \<and>
     mset (h_taken b) = mset (h_delivered b) + mset (h_failed b) + mset (h_abandoned b) + mset (busy_list b) \<and>
     subseq (h_delivered b @ busy_list b) (h_taken b) \<and>
     bc_full b = length (h_overflow b) \<and> bc_error b = length (h_failed b) \<and>
     (h_refused b \<noteq> [] \<longrightarrow> ob_closed (bc_buf b)) \<and> (h_abandoned b \<noteq> [] \<longrightarrow> bc_cancelled b)"

lemma bc_inv_new: "bc_inv capacity (NewBuffered capacity)"
  by (simp add: bc_inv_def NewBuffered_def NewMemoryOutputBuffer_def busy_list_def)

lemma bc_inv_push:
  assumes "bc_inv capacity b"
  shows "bc_inv capacity (fst (BufferedConnector_Forward req b))"
proof (cases "ob_closed (bc_buf b)")
  case True
  then have eq: "fst (BufferedConnector_Forward req b) = b\<lparr>h_refused := h_refused b @ [req], h_pushed := h_pushed b @ [req]\<rparr>"
    by (simp add: BufferedConnector_Forward_def Push_def)
  show ?thesis using assms True unfolding eq bc_inv_def by (auto simp: busy_list_def)
next
  case open': False
  from assms obtain pre where pre: "h_pushed b = pre @ ob_items (bc_buf b) @ h_refused b"
    "mset pre = mset (h_overflow b) + mset (h_taken b)" "subseq (h_taken b) pre" by (auto simp: bc_inv_def)
  have noref: "h_refused b = []" using assms open' by (auto simp: bc_inv_def)
  show ?thesis
  proof (cases "int (length (ob_items (bc_buf b))) \<ge> ob_capacity (bc_buf b)")
    case False
    with open' have eq: "fst (BufferedConnector_Forward req b) =
        b\<lparr>bc_buf := (bc_buf b)\<lparr>ob_items := ob_items (bc_buf b) @ [req]\<rparr>, h_pushed := h_pushed b @ [req]\<rparr>"
      by (simp add: BufferedConnector_Forward_def Push_def)
    show ?thesis using assms False pre noref unfolding eq bc_inv_def by (auto simp: busy_list_def)
  next
    case True
    have "ob_items (bc_buf b) \<noteq> []" using True assms by (auto simp: bc_inv_def split: if_splits)
    then obtain x xs where items: "ob_items (bc_buf b) = x # xs" by (cases "ob_items (bc_buf b)") auto
    have eq: "fst (BufferedConnector_Forward req b) =
        b\<lparr>bc_buf := (bc_buf b)\<lparr>ob_items := xs @ [req]\<rparr>, bc_full := Suc (bc_full b), h_overflow := h_overflow b @ [x],
          h_pushed := h_pushed b @ [req]\<rparr>"
      using True open' items by (simp add: BufferedConnector_Forward_def Push_def)
    have "h_pushed b @ [req] = (pre @ [x]) @ (xs @ [req]) @ []" using pre(1) items noref by simp
    moreover have "subseq (h_taken b) (pre @ [x])" by (rule subseq_rev_drop_many[OF pre(3)])
    moreover have "mset (pre @ [x]) = mset (h_overflow b @ [x]) + mset (h_taken b)" using pre(2) by simp
    ultimately have "\<exists>pre'. h_pushed b @ [req] = pre' @ (xs @ [req]) @ h_refused b \<and>
        mset pre' = mset (h_overflow b @ [x]) + mset (h_taken b) \<and> subseq (h_taken b) pre'"
      by (intro exI[of _ "pre @ [x]"]) (simp add: noref)
    then show ?thesis using assms noref items unfolding eq bc_inv_def by (simp add: busy_list_def)
  qed
qed

lemma bc_inv_take:
  assumes "bc_inv capacity b" "drain_take b = Some b'"
  shows "bc_inv capacity b'"
proof -
  from assms(2) obtain req rest where idle: "bc_busy b = None" and items: "ob_items (bc_buf b) = req # rest"
    and b': "b' = b\<lparr>bc_buf := (bc_buf b)\<lparr>ob_items := rest\<rparr>, bc_busy := Some req, h_taken := h_taken b @ [req]\<rparr>"
    by (auto simp: drain_take_def Next_def split: option.splits list.splits if_splits)
  from assms(1) obtain pre where pre: "h_pushed b = pre @ ob_items (bc_buf b) @ h_refused b"
    "mset pre = mset (h_overflow b) + mset (h_taken b)" "subseq (h_taken b) pre" by (auto simp: bc_inv_def)
  have "h_pushed b = (pre @ [req]) @ rest @ h_refused b" using pre(1) items by simp
  moreover have "subseq (h_taken b @ [req]) (pre @ [req])" using pre(3) by simp
  moreover have "mset (pre @ [req]) = mset (h_overflow b) + mset (h_taken b @ [req])" using pre(2) by simp
  ultimately have "\<exists>pre'. h_pushed b = pre' @ rest @ h_refused b \<and>
      mset pre' = mset (h_overflow b) + mset (h_taken b @ [req]) \<and> subseq (h_taken b @ [req]) pre'" by blast
  moreover have "subseq (h_delivered b @ [req]) (h_taken b @ [req])"
    using assms(1) idle by (simp add: bc_inv_def busy_list_def)
  ultimately show ?thesis
    using assms(1) idle items unfolding b' bc_inv_def by (simp add: busy_list_def)
qed

lemma retry_abandoned: "fst (retry_loop i ds answers waits) = ForwardAbandoned \<Longrightarrow> True \<in> set waits"
proof (induction i ds answers waits rule: retry_loop.induct)
  case (2 i d ds answers waits)
  show ?case
  proof (cases "i > 0 \<and> waits \<noteq> [] \<and> hd waits")
    case True
    then show ?thesis using hd_in_set[of waits] by simp
  next
    case False
    let ?ws = "if i > 0 then tl waits else waits"
    have "\<not> attempt_ok (case answers of [] \<Rightarrow> InnerNil | a # _ \<Rightarrow> a)"
      "fst (retry_loop (Suc i) ds (tl answers) ?ws) = ForwardAbandoned"
      using 2(2) False by (auto simp: Let_def split: if_splits prod.splits)
    with 2(1)[OF False refl refl] have "True \<in> set ?ws" by simp
    then show ?thesis by (cases waits) (auto split: if_splits)
  qed
qed simp

lemma bc_inv_finish:
  assumes "bc_inv capacity b" "drain_finish answers waits b = Some b'" "True \<in> set waits \<Longrightarrow> bc_cancelled b"
  shows "bc_inv capacity b'"
proof -
  from assms(2) obtain req where busy: "bc_busy b = Some req" by (auto simp: drain_finish_def split: option.splits)
  have sub: "subseq (h_delivered b @ [req]) (h_taken b)" using assms(1) busy by (simp add: bc_inv_def busy_list_def)
  then have sub': "subseq (h_delivered b) (h_taken b)"
    using subseq_order.order_trans[OF subseq_rev_drop_many[OF subseq_order.order_refl]] by blast
  show ?thesis
  proof (cases "fst (forwardWithRetry answers waits)")
    case ForwardAbandoned
    then have "bc_cancelled b" using assms(3) retry_abandoned[of 0 forwardRetryBackoff answers waits] by (simp add: forwardWithRetry_def)
    moreover from ForwardAbandoned assms(2) busy have b': "b' = b\<lparr>bc_busy := None, h_abandoned := h_abandoned b @ [req]\<rparr>"
      by (simp add: drain_finish_def)
    ultimately show ?thesis using assms(1) busy sub' unfolding b' bc_inv_def by (elim conjE, intro conjI) (simp_all add: busy_list_def)
  next
    case Forwarded
    with assms(2) busy have b': "b' = b\<lparr>bc_busy := None, h_delivered := h_delivered b @ [req]\<rparr>"
      by (simp add: drain_finish_def)
    show ?thesis using assms(1) busy sub unfolding b' bc_inv_def by (elim conjE, intro conjI) (simp_all add: busy_list_def)
  next
    case ForwardDropped
    with assms(2) busy have b': "b' = b\<lparr>bc_busy := None, bc_error := Suc (bc_error b), h_failed := h_failed b @ [req]\<rparr>"
      by (simp add: drain_finish_def)
    show ?thesis using assms(1) busy sub' unfolding b' bc_inv_def by (elim conjE, intro conjI) (simp_all add: busy_list_def)
  qed
qed

lemma bc_inv_step [keel_inv]:
  assumes "bc_inv capacity b" "bc_step b b'"
  shows "bc_inv capacity b'"
  using assms(2)
proof (cases rule: bc_step.cases)
  case push
  with assms(1) show ?thesis by (simp add: bc_inv_push)
next
  case take
  with assms(1) show ?thesis by (simp add: bc_inv_take)
next
  case finish
  with assms(1) show ?thesis by (meson bc_inv_finish)
qed (use assms(1) in \<open>auto simp: bc_inv_def busy_list_def Close_def\<close>)

lemma bc_reachable_inv: "bc_reachable capacity b \<Longrightarrow> bc_inv capacity b"
  by (induction rule: bc_reachable.induct) (auto intro: bc_inv_new keel_inv)

subsection \<open>Topics\<close>

lemma takeWhile_level:
  assumes "take (Suc (length p)) topic = p @ ''/''" "CHR ''/'' \<notin> set p"
  shows "takeWhile (\<lambda>c. c \<noteq> CHR ''/'') topic = p"
proof -
  have "topic = p @ CHR ''/'' # drop (Suc (length p)) topic"
    using append_take_drop_id[of "Suc (length p)" topic] assms(1) by simp
  moreover have "takeWhile (\<lambda>c. c \<noteq> CHR ''/'') (p @ CHR ''/'' # r) = p" for r
    using assms(2) by (subst takeWhile_append2) auto
  ultimately show ?thesis by metis
qed

lemma level_cases:
  "take 2 topic = ''t/'' \<Longrightarrow> takeWhile (\<lambda>c. c \<noteq> CHR ''/'') topic = ''t''"
  "take 2 topic = ''e/'' \<Longrightarrow> takeWhile (\<lambda>c. c \<noteq> CHR ''/'') topic = ''e''"
  "take 10 topic = ''telemetry/'' \<Longrightarrow> takeWhile (\<lambda>c. c \<noteq> CHR ''/'') topic = ''telemetry''"
  "take 6 topic = ''event/'' \<Longrightarrow> takeWhile (\<lambda>c. c \<noteq> CHR ''/'') topic = ''event''"
  "take 4 topic = ''via/'' \<Longrightarrow> takeWhile (\<lambda>c. c \<noteq> CHR ''/'') topic = ''via''"
  using takeWhile_level[of "''t''" topic] takeWhile_level[of "''e''" topic] takeWhile_level[of "''telemetry''" topic]
    takeWhile_level[of "''event''" topic] takeWhile_level[of "''via''" topic]
  by (simp_all add: numeral_eq_Suc)

definition status_topics :: "string list" where
  "status_topics = [''status/heartbeat'', ''status/ota'', ''status/ca'']"

definition category_of_level :: "string \<Rightarrow> string" where
  "category_of_level l = (if l = ''telemetry'' \<or> l = ''t'' then ''telemetry'' else if l = ''event'' \<or> l = ''e'' then ''event'' else '''')"

lemma categoryFromTopic_level:
  "categoryFromTopic parse topic = category_of_level (takeWhile (\<lambda>c. c \<noteq> CHR ''/'') (stripViaPrefix parse topic))"
  by (simp add: categoryFromTopic_def category_of_level_def Let_def)

lemma filter_ladder:
  assumes "if a then True else if b \<and> (c \<or> d) then True else if e \<and> f then g else if h \<and> i then j else False"
  obtains (exact) a | (t) c | (e) d | (telemetry) f | (event) i
  using assms by (auto split: if_splits)

lemma exact_category:
  "list_all (\<lambda>topic. (category_of_level (takeWhile (\<lambda>c. c \<noteq> CHR ''/'') topic) = '''') = (topic \<in> set status_topics))
     [''telemetry'', ''t'', ''event'', ''e'', ''status/heartbeat'', ''status/ota'', ''status/ca'']"
  by (simp add: category_of_level_def status_topics_def)

lemma direct_category:
  assumes "allowed_direct_publish topic info"
  shows "category_of_level (takeWhile (\<lambda>c. c \<noteq> CHR ''/'') topic) = '''' \<longleftrightarrow> topic \<in> set status_topics"
proof -
  from assms[unfolded allowed_direct_publish_def] show ?thesis
  proof (cases rule: filter_ladder)
    case exact
    with exact_category show ?thesis unfolding list_all_iff by (rule bspec)
  next
    case t
    then have "topic \<notin> set status_topics" by (auto simp: status_topics_def)
    with t show ?thesis by (simp only: level_cases) (simp add: category_of_level_def)
  next
    case e
    then have "topic \<notin> set status_topics" by (auto simp: status_topics_def)
    with e show ?thesis by (simp only: level_cases) (simp add: category_of_level_def)
  next
    case telemetry
    then have "topic \<notin> set status_topics" by (auto simp: status_topics_def)
    with telemetry show ?thesis by (simp only: level_cases) (simp add: category_of_level_def)
  next
    case event
    then have "topic \<notin> set status_topics" by (auto simp: status_topics_def)
    with event show ?thesis by (simp only: level_cases) (simp add: category_of_level_def)
  qed
qed

lemma has_via: "has_prefix topic ''via/'' \<longleftrightarrow> take 4 topic = ''via/''"
  by (simp add: has_prefix_def numeral_eq_Suc)

declare isAllowedPublish.simps [simp del]

lemma allowed_direct: "take 4 topic \<noteq> ''via/'' \<Longrightarrow> isAllowedPublish parse topic info = allowed_direct_publish topic info"
  by (subst isAllowedPublish.simps) (simp only: if_False)

lemma allowed_viaD:
  assumes "isAllowedPublish parse topic info" "take 4 topic = ''via/''" "subID = takeWhile (\<lambda>c. c \<noteq> CHR ''/'') (drop 4 topic)"
  shows "length subID < length (drop 4 topic)" "parse subID \<noteq> None" "isAllowedPublish parse (drop (length subID + 1) (drop 4 topic)) info"
  using assms(1) unfolding isAllowedPublish.simps[of parse topic] Let_def if_P[OF assms(2)] assms(3)[symmetric]
  by (simp_all split: if_splits)

lemma cut_first_takeWhile:
  assumes "length (takeWhile (\<lambda>x. x \<noteq> c) s) < length s"
  shows "cut_first c s = Some (takeWhile (\<lambda>x. x \<noteq> c) s, drop (length (takeWhile (\<lambda>x. x \<noteq> c) s) + 1) s)"
proof -
  let ?n = "length (takeWhile (\<lambda>x. x \<noteq> c) s)"
  have "dropWhile (\<lambda>x. x \<noteq> c) s = s ! ?n # drop (Suc ?n) s"
    unfolding dropWhile_eq_drop by (rule Cons_nth_drop_Suc[OF assms, symmetric])
  then show ?thesis by (simp add: cut_first_def)
qed

lemma stripped_allowed:
  assumes "isAllowedPublish parse topic info"
  shows "isAllowedPublish parse (stripViaPrefix parse topic) info"
proof (cases "take 4 topic = ''via/''")
  case False
  with assms show ?thesis by (simp add: stripViaPrefix_def has_via)
next
  case True
  note a = allowed_viaD[OF assms True refl]
  from a(3) show ?thesis unfolding stripViaPrefix_def has_via cut_first_takeWhile[OF a(1)]
    by (simp only: True a(2) simp_thms if_False option.case prod.case)
qed

lemma allowed_category:
  assumes "isAllowedPublish parse topic info"
  shows "categoryFromTopic parse topic = '''' \<longleftrightarrow>
    has_prefix (stripViaPrefix parse topic) ''via/'' \<or> stripViaPrefix parse topic \<in> set status_topics"
proof -
  let ?t = "stripViaPrefix parse topic"
  have allowed: "isAllowedPublish parse ?t info" by (rule stripped_allowed[OF assms])
  show ?thesis
  proof (cases "take 4 ?t = ''via/''")
    case True
    then show ?thesis by (simp add: categoryFromTopic_level level_cases category_of_level_def has_via)
  next
    case False
    then have "allowed_direct_publish ?t info" using allowed by (simp add: allowed_direct)
    from direct_category[OF this] False show ?thesis by (simp add: categoryFromTopic_level has_via)
  qed
qed

lemma category_values: "categoryFromTopic parse topic \<in> {'''', ''telemetry'', ''event''}"
  by (simp add: categoryFromTopic_def Let_def)

subsection \<open>Examples\<close>

definition example_request :: "string \<Rightarrow> ForwardRequest" where
  "example_request payload = \<lparr>fr_Topic = ''telemetry'', fr_Payload = payload, fr_Headers = Map.empty, fr_DeviceId = ''d'',
     fr_TenantId = ''t'', fr_TenantSlug = '''', fr_FleetId = ''''\<rparr>"

definition example_kafka :: KafkaHonoConnector where
  "example_kafka = fst (KafkaHono_Init True [''enabled'' \<mapsto> ''true'', ''brokers'' \<mapsto> ''b:1'']
     \<lparr>kf_config = \<lparr>kc_Brokers = [], kc_SASLUsername = '''', kc_SASLPassword = '''', kc_TopicPrefix = '''', kc_ClientID = '''',
        kc_Enabled = False\<rparr>, kf_producer = False\<rparr>)"

lemma example_kafka_enabled: "kc_Enabled (kf_config example_kafka)" "kf_producer example_kafka"
  by (simp_all add: example_kafka_def KafkaHono_Init_def Let_def config_value_def)

definition example_device :: DeviceInfo where
  "example_device = \<lparr>di_ID = ''d'', di_TenantID = ''t'', di_TenantSlug = ''s'', di_FleetID = None, di_FleetIDStr = ''nofleet'', di_Identity = ''d@t''\<rparr>"

text \<open>A device is forwarding when the context is cancelled, and one more publish arrives after the buffer
  has been closed.\<close>

definition shutdown_run :: "BufferedConnector list" where
  "shutdown_run =
     (let b0 = NewBuffered 1;
          b1 = fst (BufferedConnector_Forward (example_request ''a'') b0);
          b2 = the (drain_take b1);
          b3 = b2\<lparr>bc_buf := Close (bc_buf b2)\<rparr>;
          b4 = b3\<lparr>bc_cancelled := True\<rparr>;
          b5 = the (drain_finish [InnerErr ''down''] [True] b4);
          b6 = fst (BufferedConnector_Forward (example_request ''b'') b5)
      in [b0, b1, b2, b3, b4, b5, b6])"

lemma shutdown_reachable: "bc_reachable 1 (last shutdown_run)"
proof -
  let ?b1 = "fst (BufferedConnector_Forward (example_request ''a'') (NewBuffered 1))"
  let ?b2 = "the (drain_take ?b1)"
  let ?b3 = "?b2\<lparr>bc_buf := Close (bc_buf ?b2)\<rparr>"
  let ?b4 = "?b3\<lparr>bc_cancelled := True\<rparr>"
  let ?b5 = "the (drain_finish [InnerErr ''down''] [True] ?b4)"
  have 1: "bc_reachable 1 ?b1" by (rule bc_reachable.step[OF bc_reachable.init bc_step.push])
  have t: "drain_take ?b1 = Some ?b2"
    by (simp add: drain_take_def BufferedConnector_Forward_def Push_def NewBuffered_def NewMemoryOutputBuffer_def Next_def)
  have 2: "bc_reachable 1 ?b2" by (rule bc_reachable.step[OF 1 bc_step.take[OF t]])
  have 4: "bc_reachable 1 ?b4"
    by (rule bc_reachable.step[OF bc_reachable.step[OF 2 bc_step.close] bc_step.cancel])
  have "bc_busy ?b4 = Some (example_request ''a'')"
    by (simp add: drain_take_def BufferedConnector_Forward_def Push_def NewBuffered_def NewMemoryOutputBuffer_def Next_def)
  then have f: "drain_finish [InnerErr ''down''] [True] ?b4 = Some ?b5"
    by (simp add: drain_finish_def split: forward_outcome.splits)
  have 5: "bc_reachable 1 ?b5" by (rule bc_reachable.step[OF 4 bc_step.finish[OF f]]) simp
  show ?thesis unfolding shutdown_run_def Let_def
    by (simp only: last.simps list.distinct if_False if_True simp_thms) (rule bc_reachable.step[OF 5 bc_step.push])
qed

lemma shutdown_losses:
  "h_abandoned (last shutdown_run) = [example_request ''a'']" "h_refused (last shutdown_run) = [example_request ''b'']"
  "bc_full (last shutdown_run) = 0" "bc_error (last shutdown_run) = 0" "h_delivered (last shutdown_run) = []"
  "h_overflow (last shutdown_run) = []" "h_failed (last shutdown_run) = []" "bc_busy (last shutdown_run) = None"
  "ob_items (bc_buf (last shutdown_run)) = []"
  by (simp_all add: shutdown_run_def Let_def drain_take_def drain_finish_def BufferedConnector_Forward_def Push_def NewBuffered_def
      NewMemoryOutputBuffer_def Next_def Close_def forwardWithRetry_def forwardRetryBackoff_def attempt_ok_def)

subsection \<open>Properties\<close>

text \<open>C14. No request vanishes: in every state the buffered connector can reach, under any interleaving
  of publishes, draining, closing and cancelling and any behaviour of the wrapped connector, each
  request pushed is exactly one of refused by the closed buffer, dropped as the oldest of a full one,
  delivered, dropped after the retries, abandoned in a retry, being forwarded, or queued. The queue
  holds the newest accepted requests and never more than the capacity, requests are delivered in the
  order they were pushed, the two drop counters count the second and the fourth kind exactly, a
  request is refused only after the close and abandoned only after the cancellation.\<close>

theorem connector_accounts_for_requests:
  assumes "bc_reachable capacity b"
  shows "mset (h_pushed b) = mset (h_refused b) + mset (h_overflow b) + mset (h_delivered b) + mset (h_failed b) +
        mset (h_abandoned b) + mset (busy_list b) + mset (ob_items (bc_buf b)) \<and>
     int (length (ob_items (bc_buf b))) \<le> (if capacity \<le> 0 then 1 else capacity) \<and>
     (\<exists>pre. h_pushed b = pre @ ob_items (bc_buf b) @ h_refused b) \<and>
     subseq (h_delivered b) (h_pushed b) \<and> bc_full b = length (h_overflow b) \<and> bc_error b = length (h_failed b) \<and>
     (h_refused b \<noteq> [] \<longrightarrow> ob_closed (bc_buf b)) \<and> (h_abandoned b \<noteq> [] \<longrightarrow> bc_cancelled b)"
proof -
  have inv: "bc_inv capacity b" by (rule bc_reachable_inv[OF assms])
  then obtain pre where pre: "h_pushed b = pre @ ob_items (bc_buf b) @ h_refused b"
    "mset pre = mset (h_overflow b) + mset (h_taken b)" "subseq (h_taken b) pre" by (auto simp: bc_inv_def)
  have "subseq (h_delivered b) (h_delivered b @ busy_list b)" by (rule subseq_rev_drop_many) simp
  also have "subseq (h_delivered b @ busy_list b) (h_taken b)" using inv by (simp add: bc_inv_def)
  also have "subseq (h_taken b) (h_pushed b)" unfolding pre(1) by (rule subseq_rev_drop_many[OF pre(3)])
  finally have order: "subseq (h_delivered b) (h_pushed b)" .
  have "mset (h_pushed b) = mset (h_refused b) + mset (h_overflow b) + mset (h_taken b) + mset (ob_items (bc_buf b))"
    using pre(1,2) by simp
  moreover have "mset (h_taken b) = mset (h_delivered b) + mset (h_failed b) + mset (h_abandoned b) + mset (busy_list b)"
    using inv by (simp add: bc_inv_def)
  ultimately have "mset (h_pushed b) = mset (h_refused b) + mset (h_overflow b) + mset (h_delivered b) + mset (h_failed b) +
        mset (h_abandoned b) + mset (busy_list b) + mset (ob_items (bc_buf b))"
    by (simp only: add.assoc)
  with order pre(1) inv show ?thesis by (auto simp: bc_inv_def)
qed

theorem connector_accounts_for_requests_witness:
  "mset (h_pushed (last shutdown_run)) = {#example_request ''a'', example_request ''b''#}"
  using connector_accounts_for_requests[OF shutdown_reachable] by (simp add: shutdown_losses busy_list_def add_mset_commute)

text \<open>Losses at shutdown are not counted: there is a run in which one request is abandoned in a retry
  and another is refused by the closed buffer, answered as a success, while neither drop counter moves
  and nothing was delivered.\<close>

theorem shutdown_losses_uncounted:
  "\<exists>b. bc_reachable 1 b \<and> length (h_pushed b) = 2 \<and> h_delivered b = [] \<and> ob_items (bc_buf b) = [] \<and> bc_busy b = None \<and>
     bc_full b = 0 \<and> bc_error b = 0 \<and> (\<forall>req. fs_Success (snd (BufferedConnector_Forward req b)))"
proof (intro exI[of _ "last shutdown_run"] conjI)
  show "bc_reachable 1 (last shutdown_run)" by (rule shutdown_reachable)
qed (simp_all add: shutdown_losses, simp_all add: shutdown_run_def Let_def drain_take_def drain_finish_def BufferedConnector_Forward_def
    Push_def NewBuffered_def NewMemoryOutputBuffer_def Next_def Close_def forwardWithRetry_def forwardRetryBackoff_def attempt_ok_def
    split: prod.splits)



text \<open>A connection event is counted as a lost message: the Kafka connector answers the reserved
  topic with a failure and produces nothing, so the buffered connector in front of it makes all three
  attempts and then counts a drop.\<close>

theorem connection_event_counted_as_drop:
  assumes "kc_Enabled (kf_config k)" "kf_producer k" "True \<notin> set waits"
    and "KafkaHono_Forward parse publish k (device_request info ConnectionEventTopic payload) = (msg, resp)"
  shows "msg = None \<and> forwardWithRetry (replicate 3 (InnerResp resp)) waits = (ForwardDropped, 3)"
proof -
  have "categoryFromTopic parse ConnectionEventTopic = ''''"
    by (simp add: categoryFromTopic_def stripViaPrefix_def ConnectionEventTopic_def has_prefix_def)
  with assms have resp: "msg = None" "\<not> fs_Success resp" by (auto simp: KafkaHono_Forward_def device_request_def)
  have "\<not> (ws \<noteq> [] \<and> hd ws)" if "True \<notin> set ws" for ws using that by (metis (full_types) hd_in_set)
  moreover have "True \<notin> set (tl ws)" if "True \<notin> set ws" for ws using that by (cases ws) auto
  ultimately show ?thesis using assms(3) resp
    by (simp add: forwardWithRetry_def forwardRetryBackoff_def numeral_3_eq_3 attempt_ok_def Let_def)
qed

theorem connection_event_counted_as_drop_witness:
  "forwardWithRetry (replicate 3 (InnerResp (snd (KafkaHono_Forward Some (\<lambda>_. None) example_kafka
     (device_request example_device ConnectionEventTopic ''{}''))))) [] = (ForwardDropped, 3)"
  by (rule conjunct2[OF connection_event_counted_as_drop[OF example_kafka_enabled _ prod.collapse[symmetric]]]) simp


end
