(* ===== verification/Spec2Isabelle.thy ===== *)
theory Spec2Isabelle
  imports Caches RedisTypes HookProps Lifecycle Connector
begin

text \<open>
  Verification of the keel MQTT gateway.

  \<^bold>\<open>The program.\<close> The gateway is a cluster of MQTT brokers. A broker hook (\<open>src/internal/broker/hooks.go\<close>)
  authenticates devices, checks access, mirrors the subscriptions of its clients in a cluster-wide routing table,
  and forwards each publish to the nodes that need it. Session ownership, roles and certificate revocations live in
  a replicated state machine (\<open>src/internal/cluster/raft/fsm.go\<close>), which edge nodes read through caches. Sessions of
  disconnected clients live in Redis (\<open>src/internal/broker/redis_session.go\<close>); one live node owns each of them and
  queues what arrives meanwhile. Nodes reach the state machine through registries that forward writes to the raft
  leader; core nodes watch one another by gossip and replace a lost Redis primary; periodic jobs move sessions and
  purge the routes of lost nodes; publishes leave the cluster through output connectors.

  \<^bold>\<open>Theories.\<close>
  \<^item> \<open>Prelude\<close>, \<open>Base64\<close>: Go's string functions and the URL-safe base64, with their round trip.
  \<^item> \<open>Acl\<close> (\<open>cluster/acl\<close>): topic matching equals the level-by-level specification; a deny rule wins and no rule
    means deny; what the built-in role allows.
  \<^item> \<open>Fsm\<close> (\<open>cluster/raft/fsm.go\<close>, \<open>command.go\<close>): one function per command over the state record. The log decides
    the session owner, revocations are permanent, deleted roles stay unbound, snapshots round trip, and replicas
    that apply the same log agree up to the time stamps of revocations.
  \<^item> \<open>Caches\<close> (\<open>acl_cache.go\<close>, \<open>revocation_cache.go\<close>): a cache answers as the state machine it was refreshed from and
    refuses before its first refresh.
  \<^item> \<open>TopicsIndex\<close>, \<open>Router\<close>, \<open>Ownership\<close> (the subscription trie of the MQTT server, \<open>cluster/routing\<close>,
    \<open>offline_ownership.go\<close>): the routing table refines a relation between topics and nodes, live plans and offline
    choices follow it, and moving an owner leaves no gap.
  \<^item> \<open>Placement\<close>, \<open>Session\<close> (\<open>src/internal/session\<close>): rendezvous placement moves only the sessions of a lost node;
    delivery and reconciliation of offline sessions.
  \<^item> \<open>Redis\<close>, \<open>RedisSession\<close>, \<open>RedisQueue\<close>, \<open>RedisFence\<close>, \<open>RedisTypes\<close>: Redis by its commands, with arbitrary changes by
    other clients before every call and calls lost before or after they took effect; the session store over it.
    Enqueueing is atomic, writes respect the schema marker, stored objects keep their types, packet identifiers are
    fresh and in range, and the inventory ends and is complete.
  \<^item> \<open>Auth\<close> (\<open>src/internal/auth\<close>), \<open>Broker\<close> (\<open>ratelimit.go\<close>, \<open>max_keepalive.go\<close>, \<open>retained.go\<close>,
    \<open>forwarder/volume.go\<close>), \<open>Hooks\<close> (\<open>hooks.go\<close>, \<open>offline_delivery_dispatch.go\<close>): providers, tokens, certificates and
    caches, the limits and the retained store, and every handler of the broker hook over one state record, whose calls
    on the cluster form a trace. \<open>HookProps\<close> proves which evidence an accepted CONNECT rests on and that the routing
    calls mirror the local subscribers, and shows two defects: a take-over leaks a connection of the tenant's quota,
    and the password policy applied is that of the tenant the client names.

  \<^item> \<open>Registry\<close> (\<open>registry.go\<close>, \<open>core_registry.go\<close>, \<open>remote_registry.go\<close>, \<open>rpc_server.go\<close>, \<open>edge_registry.go\<close>): one
    record holds the replicas, the log, and the streams of what raft and the network answer. In a settled cluster a
    write from any node is applied once by the leader; under any faults the log gains only copies of the write and a
    reported success was committed; remote reads fail closed and an edge enforces what the core that served its
    snapshot decides. Two lemmas show a lost eviction and a lagging replica.
  \<^item> \<open>Membership\<close> (\<open>cluster/membership\<close>): gossip events, voter reconciliation, and the Redis failover as a step over
    leadership, pings and admin answers; a promotion needs an outage as long as the threshold, at most one node is
    promoted, and a failover that is due completes.
  \<^item> \<open>Lifecycle\<close> (\<open>cluster/lifecycle\<close>): the rebalance keeps its limits and the sweep purges only nodes that vanished.
  \<^item> \<open>Connector\<close> (\<open>src/internal/connector\<close>, \<open>src/internal/commander\<close>): the bounded buffer and its drain loop as
    interleaved steps that account for every request, and the Kafka connector on the topics the hook admits.

  \<^bold>\<open>Interfaces.\<close> The locales \<open>acl_store\<close>, \<open>subscription_index\<close>, \<open>owner_registry\<close>, \<open>reliable_registry\<close>,
  \<open>tenant_bound\<close>, \<open>debounce\<close> (a condition that must hold for a whole window) and \<open>drop_oldest\<close> (a bounded buffer) state
  what one component relies on in another; each is interpreted on the definitions of the component that provides it.

  \<^bold>\<open>Parameters.\<close> Map iteration order, clock readings, \<open>uuid.Parse\<close>, X.509, PEM, JWT, bcrypt and SHA-256, the token
  bucket, HTTP answers, the paging of SSCAN and the rounding of Lua numbers; the answers of raft, gRPC, gossip and
  Redis administration, the shuffle of the rebalance and the Kafka producer. UUIDs are their canonical text.

  \<^bold>\<open>Bounds.\<close> The retry loops have the code's own bounds: 32 attempts for the offline queue, 3 for provisioning, 65535
  packet identifiers. Only SSCAN loops, which the server may prolong, carry fuel; that enough fuel gives the result
  is part of the inventory theorem. Core nodes may forward to one another without bound, so the RPC server carries
  a number of hops; the registry theorems give the number that is enough, or hold for every number. Averages of the
  rebalance are real numbers. Counters of connections are unbounded integers, generations 64-bit words.

  \<^bold>\<open>Not modelled.\<close> Metrics, tracing and logs, which no modelled decision reads; goroutine interleavings inside one hook
  call (a started goroutine is an effect); the migration of the first Redis schema; the Raft and gRPC transport, the
  Olric store, sockets and TLS and database scripts, which are input and output or belong to other packages; the
  tickers that start the periodic jobs, the plugin host, and the plain read delegations of the core registry; the
  checks of the configuration and the session pages of the management API, whose logic is within reach of these
  methods and is left for later.
\<close>

end
